(* ===== verification/Prelude.thy ===== *)
theory Prelude
  imports Main "HOL-Library.Word" "HOL-Library.AList" "HOL-Library.List_Lexorder"
begin

text \<open>
  Shared vocabulary of the development: the outcome type of code that may panic, the
  association-list reading of \<^verbatim>\<open>HashMap\<close>/\<^verbatim>\<open>DashMap\<close> and the distinct-list reading of
  \<^verbatim>\<open>HashSet\<close>, the lemma collections the component proofs use, and the interfaces
  (locales) that several components implement: dictionaries, set representations,
  prefix codecs and systems with an invariant.
\<close>

named_theorems dict_simps \<open>rewriting rules for the dictionary and set operations\<close>
named_theorems inv_intros \<open>preservation lemmas of component invariants\<close>

subsection \<open>Outcomes\<close>

text \<open>
  A Rust call returns, panics (unwinding the connection task), or never returns because
  it takes a lock it already holds.
\<close>

datatype 'a outcome = Ret 'a | Panic | Deadlock

primrec obind :: "'a outcome \<Rightarrow> ('a \<Rightarrow> 'b outcome) \<Rightarrow> 'b outcome" where
  "obind (Ret x) f = f x"
| "obind Panic f = Panic"
| "obind Deadlock f = Deadlock"

lemma obind_Ret_iff: "obind m f = Ret y \<longleftrightarrow> (\<exists>x. m = Ret x \<and> f x = Ret y)"
  by (cases m) auto

lemma obind_assoc: "obind (obind m f) g = obind m (\<lambda>x. obind (f x) g)"
  by (cases m) auto

text \<open>\<^verbatim>\<open>Option::unwrap_or\<close>.\<close>

fun unwrap_or :: "'a \<Rightarrow> 'a option \<Rightarrow> 'a" where
  "unwrap_or d None = d"
| "unwrap_or d (Some x) = x"

subsection \<open>Lists\<close>

text \<open>\<^verbatim>\<open>Iterator::position\<close>: the index of the first element that satisfies the test.\<close>

fun position :: "('a \<Rightarrow> bool) \<Rightarrow> 'a list \<Rightarrow> nat option" where
  "position P [] = None"
| "position P (x # xs) = (if P x then Some 0 else map_option Suc (position P xs))"

lemma position_None_iff: "position P xs = None \<longleftrightarrow> (\<forall>x \<in> set xs. \<not> P x)"
  by (induction xs) auto

lemma position_SomeD:
  assumes "position P xs = Some i"
  shows "i < length xs \<and> P (xs ! i) \<and> (\<forall>j < i. \<not> P (xs ! j))"
  using assms
proof (induction xs arbitrary: i)
  case Nil
  then show ?case by simp
next
  case (Cons x xs)
  show ?case
  proof (cases "P x")
    case True
    with Cons.prems show ?thesis by simp
  next
    case False
    with Cons.prems obtain k where k: "position P xs = Some k" "i = Suc k" by auto
    from Cons.IH [OF k(1)] k(2) False show ?thesis
      by (auto simp: less_Suc_eq_0_disj)
  qed
qed

text \<open>\<^verbatim>\<open>Vec::insert\<close> and \<^verbatim>\<open>Vec::remove\<close> at an index in range.\<close>

definition insert_at :: "nat \<Rightarrow> 'a \<Rightarrow> 'a list \<Rightarrow> 'a list" where
  "insert_at i x xs = take i xs @ x # drop i xs"

definition remove_at :: "nat \<Rightarrow> 'a list \<Rightarrow> 'a list" where
  "remove_at i xs = take i xs @ drop (Suc i) xs"

lemma length_insert_at [simp]: "length (insert_at i x xs) = Suc (length xs)"
  by (simp add: insert_at_def)

lemma length_remove_at: "i < length xs \<Longrightarrow> length (remove_at i xs) = length xs - 1"
  by (simp add: remove_at_def)

lemma set_insert_at [simp]: "set (insert_at i x xs) = insert x (set xs)"
proof -
  have "set xs = set (take i xs) \<union> set (drop i xs)"
    by (metis append_take_drop_id set_append)
  then show ?thesis by (auto simp: insert_at_def)
qed

text \<open>\<^verbatim>\<open>slice::chunks(2)\<close> on an argument vector of even length.\<close>

fun chunks2 :: "'a list \<Rightarrow> ('a \<times> 'a) list" where
  "chunks2 (x # y # r) = (x, y) # chunks2 r"
| "chunks2 _ = []"

lemma map_nth_upt_eq: "length xs = n \<Longrightarrow> map (\<lambda>i. xs ! i) [0..<n] = xs"
  by (auto intro: nth_equalityI)

lemma take_drop_concat_width:
  assumes "\<forall>x \<in> set xs. length (f x) = w" and "i < length xs"
  shows "take w (drop (i * w) (concat (map f xs))) = f (xs ! i)"
  using assms
proof (induction xs arbitrary: i)
  case Nil
  then show ?case by simp
next
  case (Cons x xs)
  then show ?case by (cases i) auto
qed

lemma length_concat_width:
  "\<forall>x \<in> set xs. length (f x) = w \<Longrightarrow> length (concat (map f xs)) = length xs * w"
  by (induction xs) auto

subsection \<open>Dictionaries\<close>

text \<open>
  \<^verbatim>\<open>HashMap\<close> and \<^verbatim>\<open>DashMap\<close> are association lists with distinct keys; the list order
  stands for the unspecified iteration order, and no theorem depends on it.
\<close>

type_synonym ('k, 'v) dict = "('k \<times> 'v) list"

abbreviation dict_get :: "('k, 'v) dict \<Rightarrow> 'k \<Rightarrow> 'v option" where
  "dict_get \<equiv> map_of"

abbreviation dict_put :: "'k \<Rightarrow> 'v \<Rightarrow> ('k, 'v) dict \<Rightarrow> ('k, 'v) dict" where
  "dict_put \<equiv> AList.update"

abbreviation dict_del :: "'k \<Rightarrow> ('k, 'v) dict \<Rightarrow> ('k, 'v) dict" where
  "dict_del \<equiv> AList.delete"

definition dict_wf :: "('k, 'v) dict \<Rightarrow> bool" where
  "dict_wf m \<longleftrightarrow> distinct (map fst m)"

lemma map_of_rev_distinct:
  assumes "dict_wf m"
  shows "map_of (rev m) = map_of m"
proof -
  have "distinct (map fst (rev m))" "distinct (map fst m)"
    using assms by (simp_all only: dict_wf_def rev_map [symmetric] distinct_rev)
  then show ?thesis by (metis map_of_inject_set set_rev)
qed

locale dictionary =
  fixes emp :: "'m"
    and get :: "'m \<Rightarrow> 'k \<Rightarrow> 'v option"
    and put :: "'k \<Rightarrow> 'v \<Rightarrow> 'm \<Rightarrow> 'm"
    and del :: "'k \<Rightarrow> 'm \<Rightarrow> 'm"
    and size :: "'m \<Rightarrow> nat"
    and wf :: "'m \<Rightarrow> bool"
  assumes wf_emp: "wf emp"
    and wf_put: "wf m \<Longrightarrow> wf (put k v m)"
    and wf_del: "wf m \<Longrightarrow> wf (del k m)"
    and get_emp: "get emp = Map.empty"
    and get_put: "get (put k v m) = (get m)(k \<mapsto> v)"
    and get_del: "get (del k m) = (get m)(k := None)"
    and size_card: "wf m \<Longrightarrow> size m = card (dom (get m))"
    and finite_dom_get: "finite (dom (get m))"
begin

lemma get_fold_put: "get (fold (\<lambda>(k, v). put k v) kvs m) = get m ++ map_of (rev kvs)"
  by (induction kvs arbitrary: m) (auto simp: get_put map_add_upds)

lemma get_fold_del: "get (fold del ks m) k = (if k \<in> set ks then None else get m k)"
  by (induction ks arbitrary: m) (auto simp: get_del)

lemma wf_fold_put: "wf m \<Longrightarrow> wf (fold (\<lambda>(k, v). put k v) kvs m)"
  by (induction kvs arbitrary: m) (auto intro: wf_put)

lemma wf_fold_del: "wf m \<Longrightarrow> wf (fold del ks m)"
  by (induction ks arbitrary: m) (auto intro: wf_del)

lemma size_put:
  assumes "wf m"
  shows "size (put k v m) = (if get m k = None then Suc (size m) else size m)"
proof -
  have d: "dom (get (put k v m)) = insert k (dom (get m))" by (simp add: get_put)
  show ?thesis
    unfolding size_card [OF wf_put [OF assms]] size_card [OF assms] d
    by (cases "get m k") (auto simp: finite_dom_get insert_absorb domI card_insert_disjoint domIff)
qed

end

lemma dict_get_put [dict_simps]: "map_of (AList.update k v m) = (map_of m)(k \<mapsto> v)"
  by (rule ext) (simp add: update_conv')

lemma dict_get_del [dict_simps]: "map_of (AList.delete k m) = (map_of m)(k := None)"
  by (rule delete_conv')

interpretation hashmap: dictionary "[]" map_of AList.update AList.delete length dict_wf
proof unfold_locales
  fix m :: "('a \<times> 'b) list"
  assume "dict_wf m"
  then show "length m = card (dom (map_of m))"
    by (metis dict_wf_def distinct_card dom_map_of_conv_image_fst length_map list.set_map)
qed (auto simp: dict_wf_def dict_simps distinct_update distinct_delete finite_dom_map_of)

subsection \<open>Sets\<close>

text \<open>\<^verbatim>\<open>HashSet\<close> is a list without repetitions.\<close>

definition hset_insert :: "'a \<Rightarrow> 'a list \<Rightarrow> 'a list \<times> bool" where
  "hset_insert x s = (if x \<in> set s then (s, False) else (s @ [x], True))"

definition hset_remove :: "'a \<Rightarrow> 'a list \<Rightarrow> 'a list \<times> bool" where
  "hset_remove x s = (removeAll x s, x \<in> set s)"

text \<open>
  What a representation of a finite set promises: insertion and removal report whether
  they changed it, membership and size agree with the set it stands for.
\<close>

locale set_rep =
  fixes emp :: "'s"
    and add :: "'a \<Rightarrow> 's \<Rightarrow> 's \<times> bool"
    and rem :: "'a \<Rightarrow> 's \<Rightarrow> 's \<times> bool"
    and isin :: "'a \<Rightarrow> 's \<Rightarrow> bool"
    and size :: "'s \<Rightarrow> nat"
    and abs :: "'s \<Rightarrow> 'a set"
    and inv :: "'s \<Rightarrow> bool"
    and ok :: "'a \<Rightarrow> bool"
  assumes inv_emp: "inv emp" and abs_emp: "abs emp = {}"
    and inv_add: "inv s \<Longrightarrow> ok x \<Longrightarrow> inv (fst (add x s))"
    and abs_add: "inv s \<Longrightarrow> ok x \<Longrightarrow> abs (fst (add x s)) = insert x (abs s)"
    and new_add: "inv s \<Longrightarrow> ok x \<Longrightarrow> snd (add x s) \<longleftrightarrow> x \<notin> abs s"
    and inv_rem: "inv s \<Longrightarrow> ok x \<Longrightarrow> inv (fst (rem x s))"
    and abs_rem: "inv s \<Longrightarrow> ok x \<Longrightarrow> abs (fst (rem x s)) = abs s - {x}"
    and old_rem: "inv s \<Longrightarrow> ok x \<Longrightarrow> snd (rem x s) \<longleftrightarrow> x \<in> abs s"
    and isin_abs: "inv s \<Longrightarrow> ok x \<Longrightarrow> isin x s \<longleftrightarrow> x \<in> abs s"
    and size_abs: "inv s \<Longrightarrow> size s = card (abs s)"
    and finite_abs: "inv s \<Longrightarrow> finite (abs s)"
begin

text \<open>Adding or removing a list of members while counting the changes.\<close>

fun add_all :: "'a list \<Rightarrow> 's \<Rightarrow> 's \<times> nat" where
  "add_all [] s = (s, 0)"
| "add_all (x # xs) s =
     (let (s', b) = add x s; (s'', n) = add_all xs s' in (s'', (if b then Suc n else n)))"

fun rem_all :: "'a list \<Rightarrow> 's \<Rightarrow> 's \<times> nat" where
  "rem_all [] s = (s, 0)"
| "rem_all (x # xs) s =
     (let (s', b) = rem x s; (s'', n) = rem_all xs s' in (s'', (if b then Suc n else n)))"

lemma add_all_spec:
  assumes "inv s" and "\<forall>x \<in> set xs. ok x"
  shows "inv (fst (add_all xs s)) \<and> abs (fst (add_all xs s)) = abs s \<union> set xs
    \<and> snd (add_all xs s) = card (set xs - abs s)"
  using assms
proof (induction xs arbitrary: s)
  case Nil
  then show ?case by simp
next
  case (Cons x xs)
  obtain s' b where a: "add x s = (s', b)" by fastforce
  have ok: "ok x" "\<forall>y \<in> set xs. ok y" using Cons.prems by auto
  have s': "inv s'" "abs s' = insert x (abs s)" "b \<longleftrightarrow> x \<notin> abs s"
    using inv_add [OF Cons.prems(1) ok(1)] abs_add [OF Cons.prems(1) ok(1)]
      new_add [OF Cons.prems(1) ok(1)] by (simp_all add: a)
  obtain s'' n where r: "add_all xs s' = (s'', n)" by fastforce
  have IH: "inv s''" "abs s'' = abs s' \<union> set xs" "n = card (set xs - abs s')"
    using Cons.IH [OF s'(1) ok(2)] by (simp_all add: r)
  have "set (x # xs) - abs s = (if x \<in> abs s then set xs - abs s'
      else insert x (set xs - abs s'))"
    using s'(2) by auto
  moreover have "x \<notin> set xs - abs s'" using s'(2) by simp
  ultimately have "card (set (x # xs) - abs s) = (if b then Suc n else n)"
    using IH(3) s'(3) by simp
  then show ?case using IH(1,2) s'(2) by (auto simp: a r Let_def)
qed

lemma rem_all_spec:
  assumes "inv s" and "\<forall>x \<in> set xs. ok x"
  shows "inv (fst (rem_all xs s)) \<and> abs (fst (rem_all xs s)) = abs s - set xs
    \<and> snd (rem_all xs s) = card (set xs \<inter> abs s)"
  using assms
proof (induction xs arbitrary: s)
  case Nil
  then show ?case by simp
next
  case (Cons x xs)
  obtain s' b where a: "rem x s = (s', b)" by fastforce
  have ok: "ok x" "\<forall>y \<in> set xs. ok y" using Cons.prems by auto
  have s': "inv s'" "abs s' = abs s - {x}" "b \<longleftrightarrow> x \<in> abs s"
    using inv_rem [OF Cons.prems(1) ok(1)] abs_rem [OF Cons.prems(1) ok(1)]
      old_rem [OF Cons.prems(1) ok(1)] by (simp_all add: a)
  obtain s'' n where r: "rem_all xs s' = (s'', n)" by fastforce
  have IH: "inv s''" "abs s'' = abs s' - set xs" "n = card (set xs \<inter> abs s')"
    using Cons.IH [OF s'(1) ok(2)] by (simp_all add: r)
  have "set (x # xs) \<inter> abs s = (if x \<in> abs s then insert x (set xs \<inter> abs s')
      else set xs \<inter> abs s')"
    using s'(2) by auto
  moreover have "x \<notin> set xs \<inter> abs s'" using s'(2) by simp
  ultimately have "card (set (x # xs) \<inter> abs s) = (if b then Suc n else n)"
    using IH(3) s'(3) by simp
  then show ?case using IH(1,2) s'(2) by (auto simp: a r Let_def)
qed

end

interpretation hashset: set_rep "[]" hset_insert hset_remove "\<lambda>x s. x \<in> set s" length set
    distinct "\<lambda>_. True"
  by unfold_locales
    (auto simp: hset_insert_def hset_remove_def distinct_card distinct_removeAll)

lemma fold_hset_insert: "set (fold (\<lambda>x s. fst (hset_insert x s)) xs acc) = set acc \<union> set xs
    \<and> (distinct acc \<longrightarrow> distinct (fold (\<lambda>x s. fst (hset_insert x s)) xs acc))"
  by (induction xs arbitrary: acc) (auto simp: hset_insert_def)

subsection \<open>Prefix codecs\<close>

text \<open>
  An encoder whose output is recognised in front of arbitrary further bytes. Sequences of
  encodings are then decoded one after the other; the wire protocol and the compact
  encodings rely on this.
\<close>

locale prefix_codec =
  fixes enc :: "'a \<Rightarrow> 'b list"
    and dec :: "'b list \<Rightarrow> ('a \<times> nat) option"
    and ok :: "'a \<Rightarrow> bool"
  assumes dec_enc: "ok x \<Longrightarrow> dec (enc x @ rest) = Some (x, length (enc x))"
begin

fun dec_many :: "nat \<Rightarrow> 'b list \<Rightarrow> ('a list \<times> nat) option" where
  "dec_many 0 bs = Some ([], 0)"
| "dec_many (Suc n) bs =
     (case dec bs of
        None \<Rightarrow> None
      | Some (x, k) \<Rightarrow> map_option (\<lambda>(xs, m). (x # xs, k + m)) (dec_many n (drop k bs)))"

lemma dec_many_enc:
  "\<forall>x \<in> set xs. ok x \<Longrightarrow>
   dec_many (length xs) (concat (map enc xs) @ rest) = Some (xs, length (concat (map enc xs)))"
  by (induction xs) (auto simp: dec_enc)

lemma enc_prefix_free:
  assumes "ok x" "ok y" "enc x @ r = enc y @ r'"
  shows "x = y \<and> r = r'"
proof -
  have "Some (x, length (enc x)) = Some (y, length (enc y))"
    using dec_enc [OF assms(1), of r] dec_enc [OF assms(2), of r'] assms(3) by simp
  then show ?thesis using assms(3) by simp
qed

end

subsection \<open>Systems with an invariant\<close>

locale invariant_system =
  fixes step :: "'c \<Rightarrow> 's \<Rightarrow> 's"
    and good :: "'s \<Rightarrow> bool"
  assumes good_step: "good s \<Longrightarrow> good (step c s)"
begin

lemma good_run: "good s \<Longrightarrow> good (fold step cs s)"
  by (induction cs arbitrary: s) (auto intro: good_step)

end

end
