(* ===== verification/Rust_Std.thy ===== *)
theory Rust_Std
  imports Prelude
begin

text \<open>
  The parts of the Rust language and standard library the sources rely on: byte strings,
  ASCII and UTF-8, decimal printing and parsing of integers with their ranges,
  little-endian byte encodings of fixed-width integers, and wrapping arithmetic.
  A \<^verbatim>\<open>usize\<close> is a natural number, written modulo \<open>2 ^ 64\<close> where it can wrap; an \<^verbatim>\<open>i64\<close>
  is an integer together with its range. Arithmetic wraps, as in the release build.
\<close>

type_synonym byte = "8 word"
type_synonym bytes = "8 word list"

subsection \<open>ASCII\<close>

definition ascii :: "string \<Rightarrow> bytes" where
  "ascii s = map of_char s"

lemma ascii_Nil [simp]: "ascii [] = []" and ascii_Cons [simp]: "ascii (c # cs) = of_char c # ascii cs"
  by (simp_all add: ascii_def)

text \<open>\<^verbatim>\<open>to_ascii_uppercase\<close> and \<^verbatim>\<open>eq_ignore_ascii_case\<close>.\<close>

definition upper_byte :: "byte \<Rightarrow> byte" where
  "upper_byte b = (if 97 \<le> b \<and> b \<le> 122 then b - 32 else b)"

definition lower_byte :: "byte \<Rightarrow> byte" where
  "lower_byte b = (if 65 \<le> b \<and> b \<le> 90 then b + 32 else b)"

definition to_upper :: "bytes \<Rightarrow> bytes" where
  "to_upper s = map upper_byte s"

definition to_lower :: "bytes \<Rightarrow> bytes" where
  "to_lower s = map lower_byte s"

definition eq_ignore_case :: "bytes \<Rightarrow> bytes \<Rightarrow> bool" where
  "eq_ignore_case a b \<longleftrightarrow> to_lower a = to_lower b"

subsection \<open>UTF-8\<close>

text \<open>
  \<open>utf8_seq bs\<close> is the length of the well-formed sequence at the front of \<open>bs\<close>: no
  overlong forms, no surrogates, nothing above U+10FFFF.
\<close>

definition cont :: "byte \<Rightarrow> bool" where
  "cont b \<longleftrightarrow> 0x80 \<le> b \<and> b \<le> 0xBF"

definition second3 :: "byte \<Rightarrow> byte \<Rightarrow> bool" where
  "second3 b0 b1 \<longleftrightarrow>
     (if b0 = 0xE0 then 0xA0 \<le> b1 \<and> b1 \<le> 0xBF
      else if b0 = 0xED then 0x80 \<le> b1 \<and> b1 \<le> 0x9F else cont b1)"

definition second4 :: "byte \<Rightarrow> byte \<Rightarrow> bool" where
  "second4 b0 b1 \<longleftrightarrow>
     (if b0 = 0xF0 then 0x90 \<le> b1 \<and> b1 \<le> 0xBF
      else if b0 = 0xF4 then 0x80 \<le> b1 \<and> b1 \<le> 0x8F else cont b1)"

fun utf8_valid :: "bytes \<Rightarrow> bool" where
  "utf8_valid [] = True"
| "utf8_valid (b0 # r) =
     (if b0 < 0x80 then utf8_valid r
      else if 0xC2 \<le> b0 \<and> b0 \<le> 0xDF then
        (case r of b1 # r' \<Rightarrow> cont b1 \<and> utf8_valid r' | _ \<Rightarrow> False)
      else if 0xE0 \<le> b0 \<and> b0 \<le> 0xEF then
        (case r of b1 # b2 # r' \<Rightarrow> second3 b0 b1 \<and> cont b2 \<and> utf8_valid r' | _ \<Rightarrow> False)
      else if 0xF0 \<le> b0 \<and> b0 \<le> 0xF4 then
        (case r of b1 # b2 # b3 # r' \<Rightarrow>
           second4 b0 b1 \<and> cont b2 \<and> cont b3 \<and> utf8_valid r' | _ \<Rightarrow> False)
      else False)"

text \<open>\<^verbatim>\<open>std::str::from_utf8\<close>.\<close>

definition from_utf8 :: "bytes \<Rightarrow> bytes option" where
  "from_utf8 s = (if utf8_valid s then Some s else None)"

text \<open>\<^verbatim>\<open>from_utf8(..).unwrap_or("")\<close>.\<close>

definition utf8_or_empty :: "bytes \<Rightarrow> bytes" where
  "utf8_or_empty s = (if utf8_valid s then s else [])"

lemma utf8_valid_ascii: "\<forall>b \<in> set s. b < 0x80 \<Longrightarrow> utf8_valid s"
  by (induction s) auto

subsection \<open>Decimal numbers\<close>

text \<open>\<^verbatim>\<open>to_string\<close> of an unsigned and of a signed integer.\<close>

fun show_nat :: "nat \<Rightarrow> bytes" where
  "show_nat n = (if n < 10 then [48 + of_nat n] else show_nat (n div 10) @ [48 + of_nat (n mod 10)])"

declare show_nat.simps [simp del]

definition show_int :: "int \<Rightarrow> bytes" where
  "show_int i = (if i < 0 then 45 # show_nat (nat (- i)) else show_nat (nat i))"

definition is_digit :: "byte \<Rightarrow> bool" where
  "is_digit b \<longleftrightarrow> 48 \<le> b \<and> b \<le> 57"

definition digit_val :: "byte \<Rightarrow> nat" where
  "digit_val b = unat b - 48"

definition digits_val :: "bytes \<Rightarrow> nat" where
  "digits_val ds = foldl (\<lambda>acc d. acc * 10 + digit_val d) 0 ds"

definition parse_digits :: "bytes \<Rightarrow> nat option" where
  "parse_digits s = (if s \<noteq> [] \<and> list_all is_digit s then Some (digits_val s) else None)"

text \<open>
  \<^verbatim>\<open>str::parse\<close> at an unsigned type with maximum \<open>m\<close> (an optional plus sign) and at a signed
  type with range \<open>lo..hi\<close> (an optional sign).
\<close>

definition parse_unsigned :: "nat \<Rightarrow> bytes \<Rightarrow> nat option" where
  "parse_unsigned m s =
     (case parse_digits (case s of c # r \<Rightarrow> if c = 43 then r else s | [] \<Rightarrow> []) of
        Some n \<Rightarrow> if n \<le> m then Some n else None
      | None \<Rightarrow> None)"

definition parse_signed :: "int \<Rightarrow> int \<Rightarrow> bytes \<Rightarrow> int option" where
  "parse_signed lo hi s =
     (case s of
        [] \<Rightarrow> None
      | c # r \<Rightarrow>
          (case parse_digits (if c = 43 \<or> c = 45 then r else s) of
             None \<Rightarrow> None
           | Some n \<Rightarrow>
               (let i = (if c = 45 then - int n else int n)
                in if lo \<le> i \<and> i \<le> hi then Some i else None)))"

definition i64_min :: int where "i64_min = - (2 ^ 63)"
definition i64_max :: int where "i64_max = 2 ^ 63 - 1"
definition u64_max :: nat where "u64_max = 2 ^ 64 - 1"

definition i64_ok :: "int \<Rightarrow> bool" where
  "i64_ok i \<longleftrightarrow> i64_min \<le> i \<and> i \<le> i64_max"

definition parse_i64 :: "bytes \<Rightarrow> int option" where
  "parse_i64 s = parse_signed i64_min i64_max s"

definition parse_i128 :: "bytes \<Rightarrow> int option" where
  "parse_i128 s = parse_signed (- (2 ^ 127)) (2 ^ 127 - 1) s"

definition parse_usize :: "bytes \<Rightarrow> nat option" where
  "parse_usize s = parse_unsigned u64_max s"

definition parse_u16 :: "bytes \<Rightarrow> nat option" where
  "parse_u16 s = parse_unsigned 65535 s"

text \<open>\<^verbatim>\<open>from_utf8(b).ok().and_then(parse)\<close> and \<^verbatim>\<open>from_utf8(b).unwrap_or("").parse()\<close> agree:
  the empty string does not parse.\<close>

definition bytes_i64 :: "bytes \<Rightarrow> int option" where
  "bytes_i64 b = parse_i64 (utf8_or_empty b)"

definition bytes_u64 :: "bytes \<Rightarrow> nat option" where
  "bytes_u64 b = parse_usize (utf8_or_empty b)"

subsection \<open>Wrapping arithmetic\<close>

definition wrap_i64 :: "int \<Rightarrow> int" where
  "wrap_i64 i = (i + 2 ^ 63) mod 2 ^ 64 - 2 ^ 63"

definition wrap_u64 :: "nat \<Rightarrow> nat" where
  "wrap_u64 n = n mod 2 ^ 64"

text \<open>\<^verbatim>\<open>x as usize\<close> of an \<^verbatim>\<open>i64\<close>.\<close>

definition as_usize :: "int \<Rightarrow> nat" where
  "as_usize i = nat (i mod 2 ^ 64)"

subsection \<open>Little-endian encodings\<close>

text \<open>\<^verbatim>\<open>to_le_bytes\<close> of the low \<open>n\<close> bytes, and \<^verbatim>\<open>from_le_bytes\<close> unsigned and signed.\<close>

fun le_bytes :: "nat \<Rightarrow> int \<Rightarrow> bytes" where
  "le_bytes 0 v = []"
| "le_bytes (Suc n) v = word_of_int v # le_bytes n (v div 256)"

fun le_uint :: "bytes \<Rightarrow> int" where
  "le_uint [] = 0"
| "le_uint (b # bs) = uint b + 256 * le_uint bs"

definition le_sint :: "bytes \<Rightarrow> int" where
  "le_sint bs = (let u = le_uint bs; m = 256 ^ length bs in if 2 * u < m then u else u - m)"

subsection \<open>Laws\<close>

lemma wrap_i64_ok: "i64_ok (wrap_i64 i)"
  by (simp add: i64_ok_def wrap_i64_def i64_min_def i64_max_def)

lemma wrap_i64_id: "i64_ok i \<Longrightarrow> wrap_i64 i = i"
  by (simp add: i64_ok_def wrap_i64_def i64_min_def i64_max_def)

lemma as_usize_nonneg: "0 \<le> i \<Longrightarrow> i64_ok i \<Longrightarrow> as_usize i = nat i"
  by (simp add: as_usize_def i64_ok_def i64_max_def)

lemma length_le_bytes [simp]: "length (le_bytes n v) = n"
  by (induction n arbitrary: v) auto

lemma le_uint_nonneg: "0 \<le> le_uint bs"
  by (induction bs) auto

lemma le_uint_bound: "le_uint bs < 256 ^ length bs"
proof (induction bs)
  case Nil
  then show ?case by simp
next
  case (Cons b bs)
  have "uint b < 256" using uint_lt2p [of b] by simp
  with Cons show ?case by simp
qed

lemma le_uint_le_bytes: "le_uint (le_bytes n v) = v mod 256 ^ n"
proof (induction n arbitrary: v)
  case 0
  then show ?case by simp
next
  case (Suc n)
  have "uint (word_of_int v :: byte) = v mod 256"
    by (simp add: uint_word_of_int)
  then show ?case
    using Suc.IH [of "v div 256"] by (simp add: mod_mult2_eq' mod_mult2_eq zmod_zmult2_eq)
qed

lemma le_sint_le_bytes:
  assumes "- (256 ^ n) \<le> 2 * v" and "2 * v < 256 ^ n"
  shows "le_sint (le_bytes n v) = v"
proof (cases "v < 0")
  case True
  have "v mod 256 ^ n = v + 256 ^ n"
    using assms True mod_pos_pos_trivial [of "v + 256 ^ n" "256 ^ n"] by simp
  then show ?thesis using assms True by (simp add: le_sint_def Let_def le_uint_le_bytes)
next
  case False
  then have "v mod 256 ^ n = v" using assms by simp
  then show ?thesis using assms by (simp add: le_sint_def Let_def le_uint_le_bytes)
qed

lemma digits_val_snoc: "digits_val (ds @ [d]) = digits_val ds * 10 + digit_val d"
  by (simp add: digits_val_def)

lemma digit_of_nat:
  assumes "n < 10"
  shows "is_digit (48 + of_nat n)" and "digit_val (48 + of_nat n) = n"
proof -
  have "n \<in> {0, 1, 2, 3, 4, 5, 6, 7, 8, 9}" using assms by auto
  then show "is_digit (48 + of_nat n)" and "digit_val (48 + of_nat n) = n"
    by (auto simp: is_digit_def digit_val_def)
qed

lemma show_nat_digits: "list_all is_digit (show_nat n)"
proof (induction n rule: show_nat.induct)
  case (1 n)
  then show ?case
    by (cases "n < 10") (simp_all add: show_nat.simps [of n] digit_of_nat)
qed

lemma digits_val_show_nat: "digits_val (show_nat n) = n"
proof (induction n rule: show_nat.induct)
  case (1 n)
  show ?case
  proof (cases "n < 10")
    case True
    then show ?thesis
      by (simp add: show_nat.simps [of n] digits_val_def digit_of_nat)
  next
    case False
    with 1 show ?thesis
      by (simp add: show_nat.simps [of n] digits_val_snoc digit_of_nat)
  qed
qed

lemma show_nat_not_Nil [simp]: "show_nat n \<noteq> []"
  by (simp add: show_nat.simps [of n])

lemma parse_digits_show_nat [simp]: "parse_digits (show_nat n) = Some n"
  by (simp add: parse_digits_def show_nat_digits digits_val_show_nat)

lemma show_nat_Cons: "show_nat n = c # r \<Longrightarrow> is_digit c"
  using show_nat_digits [of n] by simp

lemma is_digit_sign: "is_digit c \<Longrightarrow> c \<noteq> 43 \<and> c \<noteq> 45"
  by (auto simp: is_digit_def)

lemma parse_unsigned_show_nat: "n \<le> m \<Longrightarrow> parse_unsigned m (show_nat n) = Some n"
proof -
  assume m: "n \<le> m"
  obtain c r where cr: "show_nat n = c # r" using show_nat_not_Nil [of n] by (cases "show_nat n") auto
  then have "c \<noteq> 43" using show_nat_Cons is_digit_sign by blast
  moreover have "parse_digits (c # r) = Some n" using cr [symmetric] by simp
  ultimately show ?thesis using m by (simp add: parse_unsigned_def cr)
qed

lemma parse_signed_show_int:
  assumes "lo \<le> i" "i \<le> hi"
  shows "parse_signed lo hi (show_int i) = Some i"
proof (cases "i < 0")
  case True
  then show ?thesis using assms by (simp add: parse_signed_def show_int_def)
next
  case False
  obtain c r where cr: "show_nat (nat i) = c # r"
    using show_nat_not_Nil [of "nat i"] by (cases "show_nat (nat i)") auto
  then have "c \<noteq> 43 \<and> c \<noteq> 45" using show_nat_Cons is_digit_sign by blast
  moreover have "parse_digits (c # r) = Some (nat i)" using cr [symmetric] by simp
  ultimately show ?thesis using assms False by (simp add: parse_signed_def show_int_def cr)
qed

lemma parse_i64_show_int: "i64_ok i \<Longrightarrow> parse_i64 (show_int i) = Some i"
  by (simp add: parse_i64_def i64_ok_def parse_signed_show_int)

lemma parse_i64_range: "parse_i64 s = Some i \<Longrightarrow> i64_ok i"
  by (auto simp: parse_i64_def parse_signed_def i64_ok_def Let_def split: list.splits option.splits if_splits)

lemma bytes_i64_range: "bytes_i64 s = Some i \<Longrightarrow> i64_ok i"
  by (simp add: bytes_i64_def parse_i64_range)

lemma show_nat_bytes: "b \<in> set (show_nat n) \<Longrightarrow> 48 \<le> b \<and> b \<le> 57"
  using show_nat_digits [of n] by (auto simp: list_all_iff is_digit_def)

lemma show_int_bytes: "b \<in> set (show_int i) \<Longrightarrow> 45 \<le> b \<and> b \<le> 57"
proof -
  assume b: "b \<in> set (show_int i)"
  have "48 \<le> b \<Longrightarrow> 45 \<le> b" by (rule order_trans [of _ 48]) simp_all
  then show ?thesis
    using b show_nat_bytes [of b "nat i"] show_nat_bytes [of b "nat (- i)"]
    by (auto simp: show_int_def split: if_splits)
qed

lemma show_int_utf8: "utf8_valid (show_int i)"
proof (rule utf8_valid_ascii, rule ballI)
  fix b assume "b \<in> set (show_int i)"
  then have "b \<le> 57" using show_int_bytes by blast
  then show "b < 0x80" by (rule le_less_trans) simp
qed

lemma show_int_no_cr: "13 \<notin> set (show_int i)"
proof
  assume "13 \<in> set (show_int i)"
  then have "(45::byte) \<le> 13" using show_int_bytes by blast
  then show False by simp
qed

lemma bytes_i64_show_int: "i64_ok i \<Longrightarrow> bytes_i64 (show_int i) = Some i"
  by (simp add: bytes_i64_def utf8_or_empty_def show_int_utf8 parse_i64_show_int)

lemma show_int_inj: "i64_ok i \<Longrightarrow> i64_ok j \<Longrightarrow> show_int i = show_int j \<Longrightarrow> i = j"
  by (metis bytes_i64_show_int option.inject)

lemma show_nat_eq_show_int: "show_nat n = show_int (int n)"
  by (simp add: show_int_def)

end
