(* ===== verification/Rust_Float.thy ===== *)
theory Rust_Float
  imports Rust_Std
begin

text \<open>
  The part of \<^verbatim>\<open>f64\<close> the sources use: the bit layout, the exact value as a ratio of naturals,
  correctly rounded conversion from a ratio, fixed-precision printing (\<^verbatim>\<open>{:.17}\<close>) and
  \<^verbatim>\<open>str::parse\<close>. An \<^verbatim>\<open>f64\<close> is its 64-bit pattern.
\<close>

type_synonym f64 = "64 word"

definition f64_neg :: "f64 \<Rightarrow> bool" where
  "f64_neg d \<longleftrightarrow> 2 ^ 63 \<le> unat d"

definition f64_exp :: "f64 \<Rightarrow> nat" where
  "f64_exp d = unat d div 2 ^ 52 mod 2048"

definition f64_frac :: "f64 \<Rightarrow> nat" where
  "f64_frac d = unat d mod 2 ^ 52"

definition f64_inf :: f64 where "f64_inf = 0x7FF0000000000000"
definition f64_neg_inf :: f64 where "f64_neg_inf = 0xFFF0000000000000"

definition f64_is_infinite :: "f64 \<Rightarrow> bool" where
  "f64_is_infinite d \<longleftrightarrow> f64_exp d = 2047 \<and> f64_frac d = 0"

definition f64_is_nan :: "f64 \<Rightarrow> bool" where
  "f64_is_nan d \<longleftrightarrow> f64_exp d = 2047 \<and> f64_frac d \<noteq> 0"

text \<open>The magnitude of a finite number as numerator and denominator.\<close>

definition f64_ratio :: "f64 \<Rightarrow> nat \<times> nat" where
  "f64_ratio d =
     (let e = f64_exp d; m = (if e = 0 then f64_frac d else f64_frac d + 2 ^ 52);
          q = (if e = 0 then -1074 else int e - 1075)
      in if 0 \<le> q then (m * 2 ^ nat q, 1) else (m, 2 ^ nat (- q)))"

definition round_half_even :: "nat \<Rightarrow> nat \<Rightarrow> nat" where
  "round_half_even n d =
     (let q = n div d; r = n mod d
      in if 2 * r < d then q else if 2 * r > d then q + 1 else if even q then q else q + 1)"

text \<open>Number of binary digits, and the exponent of the leading bit of a ratio.\<close>

fun bit_len :: "nat \<Rightarrow> nat" where
  "bit_len n = (if n = 0 then 0 else Suc (bit_len (n div 2)))"

declare bit_len.simps [simp del]

definition ratio_exp :: "nat \<Rightarrow> nat \<Rightarrow> int" where
  "ratio_exp n d =
     (let e = int (bit_len n) - int (bit_len d)
      in if (if 0 \<le> e then d * 2 ^ nat e \<le> n else d \<le> n * 2 ^ nat (- e)) then e else e - 1)"

text \<open>The nearest \<^verbatim>\<open>f64\<close> to \<open>n / d\<close>, ties to even, overflow to infinity.\<close>

definition f64_of_ratio :: "bool \<Rightarrow> nat \<Rightarrow> nat \<Rightarrow> f64" where
  "f64_of_ratio neg n d =
     (let s = (if neg then 2 ^ 63 else 0) in
      if n = 0 then of_nat s
      else
        let q = max (ratio_exp n d) (-1022) - 52;
            m = (if 0 \<le> q then round_half_even n (d * 2 ^ nat q)
                 else round_half_even (n * 2 ^ nat (- q)) d);
            b = nat (q + 1074) * 2 ^ 52 + m
        in of_nat (s + min b (2047 * 2 ^ 52)))"

subsection \<open>Printing with a fixed number of decimals\<close>

definition pad_left :: "nat \<Rightarrow> bytes \<Rightarrow> bytes" where
  "pad_left n s = replicate (n - length s) 48 @ s"

definition show_fixed :: "nat \<Rightarrow> f64 \<Rightarrow> bytes" where
  "show_fixed p d =
     (if f64_is_nan d then ascii ''NaN''
      else (if f64_neg d then [45] else []) @
        (if f64_is_infinite d then ascii ''inf''
         else let (n, q) = f64_ratio d; k = round_half_even (n * 10 ^ p) q
              in show_nat (k div 10 ^ p)
                 @ (if p = 0 then [] else 46 # pad_left p (show_nat (k mod 10 ^ p)))))"

text \<open>\<^verbatim>\<open>str::trim_end_matches\<close> of one character.\<close>

definition trim_end :: "byte \<Rightarrow> bytes \<Rightarrow> bytes" where
  "trim_end c s = rev (dropWhile (\<lambda>b. b = c) (rev s))"

subsection \<open>Parsing\<close>

text \<open>
  The exponent saturates as in the standard library: digits after it exceeds \<open>2 ^ 16\<close>
  are ignored.
\<close>

definition exp_digits :: "bytes \<Rightarrow> nat" where
  "exp_digits ds = foldl (\<lambda>e d. if e < 65536 then 10 * e + digit_val d else e) 0 ds"

definition parse_exponent :: "bytes \<Rightarrow> int option" where
  "parse_exponent s =
     (case s of
        [] \<Rightarrow> Some 0
      | c # r \<Rightarrow>
          if c = 101 \<or> c = 69 then
            (let neg = (r \<noteq> [] \<and> hd r = 45);
                 ds = (if r \<noteq> [] \<and> (hd r = 45 \<or> hd r = 43) then tl r else r)
             in if ds \<noteq> [] \<and> list_all is_digit ds
                then Some (if neg then - int (exp_digits ds) else int (exp_digits ds))
                else None)
          else None)"

definition parse_number :: "bool \<Rightarrow> bytes \<Rightarrow> f64 option" where
  "parse_number neg s =
     (let ip = takeWhile is_digit s; s1 = dropWhile is_digit s;
          dot = (s1 \<noteq> [] \<and> hd s1 = 46);
          fp = (if dot then takeWhile is_digit (tl s1) else []);
          s2 = (if dot then dropWhile is_digit (tl s1) else s1)
      in if ip @ fp = [] then None
         else case parse_exponent s2 of
           None \<Rightarrow> None
         | Some e \<Rightarrow>
             (let n = digits_val (ip @ fp); x = e - int (length fp)
              in Some (if 0 \<le> x then f64_of_ratio neg (n * 10 ^ nat x) 1
                       else f64_of_ratio neg n (10 ^ nat (- x)))))"

definition parse_inf_nan :: "bool \<Rightarrow> bytes \<Rightarrow> f64 option" where
  "parse_inf_nan neg s =
     (let sign = (if neg then 2 ^ 63 else 0) in
      if eq_ignore_case s (ascii ''inf'') \<or> eq_ignore_case s (ascii ''infinity'')
      then Some (sign + f64_inf)
      else if eq_ignore_case s (ascii ''nan'') then Some (sign + 0x7FF8000000000000)
      else None)"

definition parse_f64 :: "bytes \<Rightarrow> f64 option" where
  "parse_f64 s =
     (case s of
        [] \<Rightarrow> None
      | c # r \<Rightarrow>
          (let neg = (c = 45); t = (if c = 45 \<or> c = 43 then r else s)
           in case parse_number neg t of Some d \<Rightarrow> Some d | None \<Rightarrow> parse_inf_nan neg t))"

subsection \<open>Addition and shortest printing\<close>

definition f64_nan :: f64 where "f64_nan = 0x7FF8000000000000"

text \<open>IEEE addition, rounding to nearest; an exact zero is negative only if both operands are.\<close>

definition f64_add :: "f64 \<Rightarrow> f64 \<Rightarrow> f64" where
  "f64_add a b =
     (if f64_is_nan a \<or> f64_is_nan b then f64_nan
      else if f64_is_infinite a then (if f64_is_infinite b \<and> f64_neg a \<noteq> f64_neg b then f64_nan else a)
      else if f64_is_infinite b then b
      else
        let (n1, d1) = f64_ratio a; (n2, d2) = f64_ratio b;
            s = (if f64_neg a then - int (n1 * d2) else int (n1 * d2))
              + (if f64_neg b then - int (n2 * d1) else int (n2 * d1))
        in f64_of_ratio (if s = 0 then f64_neg a \<and> f64_neg b else s < 0) (nat \<bar>s\<bar>) (d1 * d2))"

text \<open>
  \<^verbatim>\<open>to_string\<close>: the shortest decimal that rounds to the number, the nearest one of that
  length, without exponent. The position of the decimal point of \<open>n / d\<close> is found first (a
  positive \<^verbatim>\<open>f64\<close> is above \<open>10 ^ -400\<close>); 17 digits always suffice.
\<close>

fun lead_zeros :: "nat \<Rightarrow> nat \<Rightarrow> nat \<Rightarrow> nat" where
  "lead_zeros 0 n d = 0"
| "lead_zeros (Suc k) n d = (if d \<le> 10 * n then 0 else Suc (lead_zeros k (10 * n) d))"

definition dec_point :: "nat \<Rightarrow> nat \<Rightarrow> int" where
  "dec_point n d = (if d \<le> n then int (length (show_nat (n div d))) else - int (lead_zeros 400 n d))"

text \<open>The number \<open>c * 10 ^ x\<close> as a ratio.\<close>

definition scaled :: "nat \<Rightarrow> int \<Rightarrow> nat \<times> nat" where
  "scaled c x = (if 0 \<le> x then (c * 10 ^ nat x, 1) else (c, 10 ^ nat (- x)))"

text \<open>The candidate with \<open>p\<close> digits, if one rounds to the number.\<close>

definition short_digits :: "f64 \<Rightarrow> nat \<Rightarrow> nat \<Rightarrow> int \<Rightarrow> nat \<Rightarrow> nat option" where
  "short_digits v n d k p =
     (let x = k - int p;
          (a, b) = (if 0 \<le> x then (n, d * 10 ^ nat x) else (n * 10 ^ nat (- x), d));
          lo = a div b; r = a mod b;
          ok = (\<lambda>c. case scaled c x of (sn, sd) \<Rightarrow> f64_of_ratio False sn sd = v)
      in if ok lo \<and> (2 * r < b \<or> \<not> ok (lo + 1)) then Some lo
         else if ok (lo + 1) then Some (lo + 1) else None)"

fun shortest :: "f64 \<Rightarrow> nat \<Rightarrow> nat \<Rightarrow> int \<Rightarrow> nat list \<Rightarrow> nat \<times> int" where
  "shortest v n d k [] = (0, 0)"
| "shortest v n d k (p # ps) =
     (case short_digits v n d k p of Some c \<Rightarrow> (c, k - int p) | None \<Rightarrow> shortest v n d k ps)"

definition show_scaled :: "nat \<Rightarrow> int \<Rightarrow> bytes" where
  "show_scaled c x =
     (if 0 \<le> x then show_nat (c * 10 ^ nat x)
      else
        let m = 10 ^ nat (- x); fp = trim_end 48 (pad_left (nat (- x)) (show_nat (c mod m)))
        in show_nat (c div m) @ (if fp = [] then [] else 46 # fp))"

definition show_f64 :: "f64 \<Rightarrow> bytes" where
  "show_f64 d =
     (if f64_is_nan d then ascii ''NaN''
      else (if f64_neg d then [45] else []) @
        (if f64_is_infinite d then ascii ''inf''
         else let (n, q) = f64_ratio d in
           if n = 0 then [48]
           else case shortest (f64_of_ratio False n q) n q (dec_point n q) [1..<18] of
                  (c, x) \<Rightarrow> show_scaled c x))"

end
