(* ===== verification/Resp.thy ===== *)
theory Resp
  imports Rust_Float
begin

text \<open>
  \<^verbatim>\<open>crates/proto/src/lib.rs\<close>: the RESP2/RESP3 wire protocol. Values and their encoder,
  the recursive-descent parser with its nesting limit, and the incremental decoder.
  The recursion of \<^verbatim>\<open>parse_value\<close> on \<^verbatim>\<open>depth\<close> is a recursion on the levels left before the
  limit; the sub-parsers of aggregates take the parser of their elements as an argument.
  \<^verbatim>\<open>Vec::with_capacity\<close> panics when the allocator cannot grant the count: the largest
  grantable counts of array elements and of map entries are the parameters \<open>cap\<close> and \<open>mcap\<close>.
\<close>

subsection \<open>Values\<close>

datatype RespError =
    InvalidPrefix bytes
  | ParseInt
  | ParseFloat
  | Utf8Error

datatype RespValue =
    SimpleString bytes
  | Error bytes
  | Integer int
  | BulkString "bytes option"
  | Array "RespValue list option"
  | Map "(RespValue \<times> RespValue) list"
  | Double f64
  | Boolean bool
  | BigNumber int
  | BlobError bytes bytes
  | VerbatimString bytes bytes

definition resp_ok_value :: RespValue where
  "resp_ok_value = SimpleString (ascii ''OK'')"

abbreviation resp_bulk :: "bytes \<Rightarrow> RespValue" where
  "resp_bulk b \<equiv> BulkString (Some b)"

abbreviation null_bulk :: RespValue where
  "null_bulk \<equiv> BulkString None"

abbreviation resp_array :: "RespValue list \<Rightarrow> RespValue" where
  "resp_array vs \<equiv> Array (Some vs)"

abbreviation nil_array :: RespValue where
  "nil_array \<equiv> Array None"

subsection \<open>Encoder\<close>

definition crlf :: bytes where
  "crlf = [13, 10]"

definition encode_double :: "f64 \<Rightarrow> bytes" where
  "encode_double d =
     (if f64_is_infinite d then (if f64_neg d then ascii ''-inf'' else ascii ''inf'')
      else trim_end 46 (trim_end 48 (show_fixed 17 d)))"

fun encode_value :: "RespValue \<Rightarrow> bytes" where
  "encode_value (SimpleString s) = 43 # s @ crlf"
| "encode_value (Error s) = 45 # s @ crlf"
| "encode_value (Integer n) = 58 # show_int n @ crlf"
| "encode_value (BulkString None) = 36 # 45 # 49 # crlf"
| "encode_value (BulkString (Some b)) = 36 # show_nat (length b) @ crlf @ b @ crlf"
| "encode_value (Array None) = 42 # 45 # 49 # crlf"
| "encode_value (Array (Some arr)) =
     42 # show_nat (length arr) @ crlf @ concat (map encode_value arr)"
| "encode_value (Map entries) =
     37 # show_nat (length entries) @ crlf
       @ concat (map (\<lambda>e. encode_value (fst e) @ encode_value (snd e)) entries)"
| "encode_value (Double d) = 44 # encode_double d @ crlf"
| "encode_value (Boolean b) = 35 # (if b then 116 else 102) # crlf"
| "encode_value (BigNumber n) = 40 # show_int n @ crlf"
| "encode_value (BlobError type_desc payload) =
     33 # show_nat (length type_desc + length payload) @ crlf @ type_desc @ payload @ crlf"
| "encode_value (VerbatimString tag content) =
     61 # show_nat (length tag + 1 + length content) @ crlf @ tag @ [58] @ content @ crlf"

subsection \<open>Lines\<close>

datatype ParseResult = POk nat RespValue | PIncomplete | PErr RespError

fun scan_crlf :: "bytes \<Rightarrow> nat option" where
  "scan_crlf (a # b # r) =
     (if a = 13 \<and> b = 10 then Some 0 else map_option Suc (scan_crlf (b # r)))"
| "scan_crlf _ = None"

definition find_crlf :: "bytes \<Rightarrow> nat \<Rightarrow> nat option" where
  "find_crlf buf start = map_option (\<lambda>i. start + i) (scan_crlf (drop start buf))"

definition read_line :: "bytes \<Rightarrow> (nat \<times> nat) option" where
  "read_line buf =
     (case find_crlf buf 0 of
        Some cr \<Rightarrow> if length buf \<le> cr + 1 then None else Some (cr, cr + 2)
      | None \<Rightarrow> None)"

text \<open>
  The common head of the sub-parsers: the line after the prefix byte, checked to be UTF-8,
  and the number of bytes it takes with its prefix.
\<close>

definition with_line :: "bytes \<Rightarrow> (bytes \<Rightarrow> nat \<Rightarrow> ParseResult outcome) \<Rightarrow> ParseResult outcome" where
  "with_line buf k =
     (case read_line (drop 1 buf) of
        None \<Rightarrow> Ret PIncomplete
      | Some (line_end, c) \<Rightarrow>
          (case from_utf8 (take line_end (drop 1 buf)) of
             None \<Rightarrow> Ret (PErr Utf8Error)
           | Some s \<Rightarrow> k s (c + 1)))"

subsection \<open>Scalars\<close>

definition parse_simple_string :: "bytes \<Rightarrow> ParseResult outcome" where
  "parse_simple_string buf = with_line buf (\<lambda>s consumed. Ret (POk consumed (SimpleString s)))"

definition parse_error :: "bytes \<Rightarrow> ParseResult outcome" where
  "parse_error buf = with_line buf (\<lambda>s consumed. Ret (POk consumed (Error s)))"

definition parse_integer :: "bytes \<Rightarrow> ParseResult outcome" where
  "parse_integer buf = with_line buf (\<lambda>s consumed.
     case parse_i64 s of
       None \<Rightarrow> Ret (PErr ParseInt)
     | Some n \<Rightarrow> Ret (POk consumed (Integer n)))"

definition parse_double :: "bytes \<Rightarrow> ParseResult outcome" where
  "parse_double buf = with_line buf (\<lambda>s consumed.
     if s = ascii ''inf'' \<or> s = ascii ''+inf'' then Ret (POk consumed (Double f64_inf))
     else if s = ascii ''-inf'' then Ret (POk consumed (Double f64_neg_inf))
     else case parse_f64 s of
       None \<Rightarrow> Ret (PErr ParseFloat)
     | Some d \<Rightarrow> Ret (POk consumed (Double d)))"

text \<open>\<^verbatim>\<open>u8 as char\<close>, printed as UTF-8.\<close>

definition latin1_utf8 :: "byte \<Rightarrow> bytes" where
  "latin1_utf8 b = (if b < 0x80 then [b] else [0xC0 + b div 64, 0x80 + b mod 64])"

definition parse_boolean :: "bytes \<Rightarrow> ParseResult outcome" where
  "parse_boolean buf =
     (if length buf < 4 then Ret PIncomplete
      else if buf ! 2 \<noteq> 13 \<or> buf ! 3 \<noteq> 10 then Ret (PErr (InvalidPrefix (ascii ''bad boolean'')))
      else if buf ! 1 = 116 then Ret (POk 4 (Boolean True))
      else if buf ! 1 = 102 then Ret (POk 4 (Boolean False))
      else Ret (PErr (InvalidPrefix (ascii ''expected t/f, got '' @ latin1_utf8 (buf ! 1)))))"

definition parse_bignumber :: "bytes \<Rightarrow> ParseResult outcome" where
  "parse_bignumber buf = with_line buf (\<lambda>s consumed.
     case parse_i128 s of
       None \<Rightarrow> Ret (PErr (InvalidPrefix (ascii ''invalid bignumber'')))
     | Some n \<Rightarrow> Ret (POk consumed (BigNumber n)))"

definition parse_bulk_string :: "bytes \<Rightarrow> ParseResult outcome" where
  "parse_bulk_string buf = with_line buf (\<lambda>s line_consumed.
     case parse_i64 s of
       None \<Rightarrow> Ret (PErr ParseInt)
     | Some n \<Rightarrow>
         if n < 0 then Ret (POk line_consumed (BulkString None))
         else let len = nat n; total = line_consumed + len + 2 in
           if length buf < total then Ret PIncomplete
           else Ret (POk total (BulkString (Some (take len (drop line_consumed buf))))))"

definition parse_blob_error :: "bytes \<Rightarrow> ParseResult outcome" where
  "parse_blob_error buf = with_line buf (\<lambda>s line_consumed.
     case parse_i64 s of
       None \<Rightarrow> Ret (PErr ParseInt)
     | Some n \<Rightarrow>
         if n < 0 then Ret (PErr (InvalidPrefix (ascii ''blob error cannot be null'')))
         else let len = nat n; total = line_consumed + len + 2 in
           if length buf < total then Ret PIncomplete
           else let data = take len (drop line_consumed buf) in
             if 3 \<le> length data then Ret (POk total (BlobError (take 3 data) (drop 3 data)))
             else Ret (POk total (BlobError data [])))"

text \<open>The length of a verbatim string is a \<^verbatim>\<open>usize\<close>, so the sums wrap and the slice may panic.\<close>

definition parse_verbatim :: "bytes \<Rightarrow> ParseResult outcome" where
  "parse_verbatim buf = with_line buf (\<lambda>s line_consumed.
     case parse_usize s of
       None \<Rightarrow> Ret (PErr ParseInt)
     | Some len \<Rightarrow>
         let total = wrap_u64 (line_consumed + len + 2);
             data_end = wrap_u64 (line_consumed + len) in
         if length buf < total then Ret PIncomplete
         else if data_end < line_consumed \<or> length buf < data_end then Panic
         else let data = take (data_end - line_consumed) (drop line_consumed buf) in
           if 4 \<le> length data \<and> data ! 3 = 58 then
             (case from_utf8 (take 3 data) of
                None \<Rightarrow> Ret (PErr Utf8Error)
              | Some tag \<Rightarrow> Ret (POk total (VerbatimString tag (drop 4 data))))
           else
             (case from_utf8 data of
                None \<Rightarrow> Ret (PErr Utf8Error)
              | Some tag \<Rightarrow> Ret (POk total (VerbatimString tag []))))"

definition parse_inline :: "bytes \<Rightarrow> ParseResult outcome" where
  "parse_inline buf =
     (case read_line buf of
        None \<Rightarrow> Ret PIncomplete
      | Some (line_end, consumed) \<Rightarrow>
          (case from_utf8 (take line_end buf) of
             None \<Rightarrow> Ret (PErr Utf8Error)
           | Some s \<Rightarrow> Ret (POk consumed (SimpleString s))))"

subsection \<open>Aggregates\<close>

text \<open>Run the element parser at an offset; stop with \<^verbatim>\<open>Incomplete\<close> at the end of the buffer.\<close>

definition parse_at :: "(bytes \<Rightarrow> ParseResult outcome) \<Rightarrow> bytes \<Rightarrow> nat \<Rightarrow>
    (nat \<Rightarrow> RespValue \<Rightarrow> ParseResult outcome) \<Rightarrow> ParseResult outcome" where
  "parse_at p buf offset k =
     (if length buf \<le> offset then Ret PIncomplete
      else obind (p (drop offset buf)) (\<lambda>r. case r of
         POk consumed v \<Rightarrow> k (offset + consumed) v
       | PIncomplete \<Rightarrow> Ret PIncomplete
       | PErr e \<Rightarrow> Ret (PErr e)))"

fun parse_items :: "(bytes \<Rightarrow> ParseResult outcome) \<Rightarrow> nat \<Rightarrow> bytes \<Rightarrow> nat \<Rightarrow> RespValue list
    \<Rightarrow> ParseResult outcome" where
  "parse_items p 0 buf offset items = Ret (POk offset (Array (Some items)))"
| "parse_items p (Suc n) buf offset items =
     parse_at p buf offset (\<lambda>offset' v. parse_items p n buf offset' (items @ [v]))"

definition parse_array :: "nat \<Rightarrow> (bytes \<Rightarrow> ParseResult outcome) \<Rightarrow> bytes \<Rightarrow> ParseResult outcome" where
  "parse_array cap p buf = with_line buf (\<lambda>s line_consumed.
     case parse_i64 s of
       None \<Rightarrow> Ret (PErr ParseInt)
     | Some n \<Rightarrow>
         if n < 0 then Ret (POk line_consumed (Array None))
         else let count = nat n in
           if cap < count then Panic
           else parse_items p count buf line_consumed [])"

fun parse_entries :: "(bytes \<Rightarrow> ParseResult outcome) \<Rightarrow> nat \<Rightarrow> bytes \<Rightarrow> nat
    \<Rightarrow> (RespValue \<times> RespValue) list \<Rightarrow> ParseResult outcome" where
  "parse_entries p 0 buf offset entries = Ret (POk offset (Map entries))"
| "parse_entries p (Suc n) buf offset entries =
     parse_at p buf offset (\<lambda>offset' key.
       parse_at p buf offset' (\<lambda>offset'' val.
         parse_entries p n buf offset'' (entries @ [(key, val)])))"

definition parse_map :: "nat \<Rightarrow> (bytes \<Rightarrow> ParseResult outcome) \<Rightarrow> bytes \<Rightarrow> ParseResult outcome" where
  "parse_map mcap p buf = with_line buf (\<lambda>s line_consumed.
     case parse_usize s of
       None \<Rightarrow> Ret (PErr ParseInt)
     | Some count \<Rightarrow>
         if mcap < count then Panic
         else parse_entries p count buf line_consumed [])"

definition MAX_DEPTH :: nat where
  "MAX_DEPTH = 1024"

text \<open>\<open>parse_levels cap mcap k\<close> is \<^verbatim>\<open>parse_value\<close> with \<open>k\<close> more levels allowed.\<close>

primrec parse_levels :: "nat \<Rightarrow> nat \<Rightarrow> nat \<Rightarrow> bytes \<Rightarrow> ParseResult outcome" where
  "parse_levels cap mcap 0 buf = Ret (PErr (InvalidPrefix (ascii ''nesting too deep'')))"
| "parse_levels cap mcap (Suc k) buf =
     (if buf = [] then Ret PIncomplete
      else let prefix = hd buf in
        if prefix = 43 then parse_simple_string buf
        else if prefix = 45 then parse_error buf
        else if prefix = 58 then parse_integer buf
        else if prefix = 36 then parse_bulk_string buf
        else if prefix = 42 then parse_array cap (parse_levels cap mcap k) buf
        else if prefix = 37 then parse_map mcap (parse_levels cap mcap k) buf
        else if prefix = 44 then parse_double buf
        else if prefix = 35 then parse_boolean buf
        else if prefix = 40 then parse_bignumber buf
        else if prefix = 33 then parse_blob_error buf
        else if prefix = 61 then parse_verbatim buf
        else parse_inline buf)"

definition parse_value :: "nat \<Rightarrow> nat \<Rightarrow> bytes \<Rightarrow> nat \<Rightarrow> ParseResult outcome" where
  "parse_value cap mcap buf depth = parse_levels cap mcap (Suc MAX_DEPTH - depth) buf"

subsection \<open>Decoder\<close>

record RespDecoder =
  resp3 :: bool

definition decoder_new :: RespDecoder where
  "decoder_new = \<lparr>resp3 = False\<rparr>"

fun is_hello :: "RespValue \<Rightarrow> bool" where
  "is_hello (Array (Some (BulkString (Some cmd) # _))) = eq_ignore_case cmd (ascii ''HELLO'')"
| "is_hello _ = False"

text \<open>
  One call of \<^verbatim>\<open>decode\<close>: the decoder and the buffer afterwards, and the result
  (\<open>Inl\<close> an error, \<open>Inr None\<close> when more bytes are needed). \<^verbatim>\<open>BytesMut::advance\<close> past the end
  panics.
\<close>

definition decode :: "nat \<Rightarrow> nat \<Rightarrow> RespDecoder \<Rightarrow> bytes \<Rightarrow>
    (RespDecoder \<times> bytes \<times> (RespError + RespValue option)) outcome" where
  "decode cap mcap dec src =
     (if src = [] then Ret (dec, src, Inr None)
      else obind (parse_value cap mcap src 0) (\<lambda>r. case r of
         POk consumed v \<Rightarrow>
           (let dec' = (if is_hello v then dec\<lparr>resp3 := True\<rparr> else dec) in
            if length src < consumed then Panic
            else Ret (dec', drop consumed src, Inr (Some v)))
       | PIncomplete \<Rightarrow> Ret (dec, src, Inr None)
       | PErr e \<Rightarrow> Ret (dec, src, Inl e)))"

text \<open>Several calls in a row, collecting the values until one is not available.\<close>

fun decode_n :: "nat \<Rightarrow> nat \<Rightarrow> nat \<Rightarrow> RespDecoder \<Rightarrow> bytes \<Rightarrow>
    (RespDecoder \<times> bytes \<times> RespValue list) outcome" where
  "decode_n cap mcap 0 dec src = Ret (dec, src, [])"
| "decode_n cap mcap (Suc n) dec src =
     obind (decode cap mcap dec src) (\<lambda>(dec', src', r). case r of
       Inr (Some v) \<Rightarrow>
         obind (decode_n cap mcap n dec' src') (\<lambda>(dec'', src'', vs). Ret (dec'', src'', v # vs))
     | _ \<Rightarrow> Ret (dec', src', []))"


subsection \<open>Lines\<close>

lemma scan_crlf_bound: "scan_crlf xs = Some i \<Longrightarrow> i + 2 \<le> length xs"
  by (induction xs arbitrary: i rule: scan_crlf.induct) (auto split: if_splits)

lemma scan_crlf_found: "scan_crlf s = None \<Longrightarrow> scan_crlf (s @ 13 # 10 # r) = Some (length s)"
proof (induction s rule: scan_crlf.induct)
  case (1 a b r')
  then show ?case by (auto split: if_splits)
qed auto

lemma scan_crlf_take:
  "scan_crlf ys = Some i \<Longrightarrow> scan_crlf (take n ys) = (if i + 2 \<le> n then Some i else None)"
proof (induction ys arbitrary: i n rule: scan_crlf.induct)
  case (1 a b r)
  show ?case
  proof (cases "a = 13 \<and> b = 10 \<or> n < 2")
    case True
    then show ?thesis using "1.prems"
      by (cases n; cases "n - 1") (auto split: if_splits)
  next
    case False
    then obtain m where n: "n = Suc (Suc m)" by (metis less_2_cases_iff not0_implies_Suc One_nat_def)
    obtain j where j: "scan_crlf (b # r) = Some j" "i = Suc j" using "1.prems" False by auto
    from "1.IH" [OF _ j(1), of "Suc m"] False n j(2) show ?thesis by auto
  qed
qed auto

lemma scan_crlf_no_cr: "13 \<notin> set s \<Longrightarrow> scan_crlf s = None"
  by (induction s rule: scan_crlf.induct) auto

lemma read_line_def': "read_line buf = map_option (\<lambda>i. (i, i + 2)) (scan_crlf buf)"
  using scan_crlf_bound [of buf] by (cases "scan_crlf buf") (auto simp: read_line_def find_crlf_def)

definition plain :: "bytes \<Rightarrow> bool" where
  "plain s \<longleftrightarrow> utf8_valid s \<and> scan_crlf s = None"

lemma with_line_take:
  assumes "plain s"
  shows "with_line (take n (c # s @ crlf @ r)) k
    = (if n < length s + 3 then Ret PIncomplete else k s (length s + 3))"
proof -
  have f: "scan_crlf (s @ crlf @ r) = Some (length s)"
    using assms by (simp add: plain_def crlf_def scan_crlf_found)
  show ?thesis
  proof (cases n)
    case 0
    then show ?thesis by (simp add: with_line_def read_line_def')
  next
    case (Suc m)
    then show ?thesis using assms scan_crlf_take [OF f, of m]
      by (simp add: with_line_def read_line_def' plain_def from_utf8_def numeral_3_eq_3)
  qed
qed

lemma with_line_enc:
  assumes "plain s"
  shows "with_line (c # s @ crlf @ r) k = k s (length s + 3)"
  using with_line_take [OF assms, of "length (c # s @ crlf @ r)" c r k] by (simp add: crlf_def)

lemma with_lineD:
  assumes "with_line buf k = Ret (POk n v)"
  obtains s c where "utf8_valid s" "k s c = Ret (POk n v)" "3 \<le> c" "c \<le> length buf"
proof (cases "scan_crlf (drop 1 buf)")
  case None
  then show thesis using assms by (simp add: with_line_def read_line_def')
next
  case (Some i)
  have "i + 3 \<le> length buf" using scan_crlf_bound [OF Some] by simp
  then show thesis using assms Some that [of "take i (drop 1 buf)" "i + 3"]
    by (auto simp: with_line_def read_line_def' from_utf8_def numeral_3_eq_3 split: if_splits)
qed

lemma plain_show_int [simp]: "plain (show_int i)"
  by (simp add: plain_def show_int_utf8 scan_crlf_no_cr show_int_no_cr)

lemma plain_show_nat [simp]: "plain (show_nat n)"
  by (simp add: show_nat_eq_show_int)

lemma parse_i64_show_nat [simp]: "int n \<le> i64_max \<Longrightarrow> parse_i64 (show_nat n) = Some (int n)"
  using parse_i64_show_int [of "int n"] by (simp add: show_nat_eq_show_int i64_ok_def i64_min_def)

lemma parse_usize_show_nat [simp]: "n \<le> u64_max \<Longrightarrow> parse_usize (show_nat n) = Some n"
  by (simp add: parse_usize_def parse_unsigned_show_nat)

subsection \<open>Values the encoder can put on the wire\<close>

text \<open>
  \<open>wire_ok cap mcap k v\<close>: the value nests at most \<open>k - 1\<close> aggregates, its strings have no line
  break where the protocol needs a line, its numbers are in range, and its aggregates are
  within the capacities. Finite doubles are excluded: their encoding is not exact.
\<close>

primrec wire_ok :: "nat \<Rightarrow> nat \<Rightarrow> nat \<Rightarrow> RespValue \<Rightarrow> bool" where
  "wire_ok cap mcap 0 v = False"
| "wire_ok cap mcap (Suc k) v =
     (case v of
        SimpleString s \<Rightarrow> plain s
      | Error s \<Rightarrow> plain s
      | Integer n \<Rightarrow> i64_ok n
      | BulkString None \<Rightarrow> True
      | BulkString (Some b) \<Rightarrow> int (length b) \<le> i64_max
      | Array None \<Rightarrow> True
      | Array (Some vs) \<Rightarrow>
          length vs \<le> cap \<and> int (length vs) \<le> i64_max \<and> (\<forall>v \<in> set vs. wire_ok cap mcap k v)
      | Map es \<Rightarrow>
          length es \<le> mcap \<and> length es \<le> u64_max
          \<and> (\<forall>e \<in> set es. wire_ok cap mcap k (fst e) \<and> wire_ok cap mcap k (snd e))
      | Double d \<Rightarrow> d = f64_inf \<or> d = f64_neg_inf
      | Boolean b \<Rightarrow> True
      | BigNumber n \<Rightarrow> - (2 ^ 127) \<le> n \<and> n \<le> 2 ^ 127 - 1
      | BlobError t p \<Rightarrow>
          int (length t + length p) \<le> i64_max \<and> (length t = 3 \<or> length t < 3 \<and> p = [])
      | VerbatimString t c \<Rightarrow> utf8_valid t \<and> length t = 3 \<and> int (length c) \<le> i64_max - 100)"

lemma encode_value_not_Nil [simp]: "encode_value v \<noteq> []"
  by (cases v rule: encode_value.cases) auto

definition exact :: "(bytes \<Rightarrow> ParseResult outcome) \<Rightarrow> RespValue \<Rightarrow> bool" where
  "exact p v \<longleftrightarrow> (\<forall>rest. p (encode_value v @ rest) = Ret (POk (length (encode_value v)) v))"

definition patient :: "(bytes \<Rightarrow> ParseResult outcome) \<Rightarrow> RespValue \<Rightarrow> bool" where
  "patient p v \<longleftrightarrow> (\<forall>n < length (encode_value v). p (take n (encode_value v)) = Ret PIncomplete)"

lemma parse_at_exact:
  assumes "exact p v"
  shows "parse_at p (pre @ encode_value v @ rest) (length pre) k
    = k (length pre + length (encode_value v)) v"
  using assms by (simp add: parse_at_def exact_def)

lemma parse_items_exact:
  assumes "\<forall>v \<in> set vs. exact p v"
  shows "parse_items p (length vs) (pre @ concat (map encode_value vs) @ rest) (length pre) items
    = Ret (POk (length pre + length (concat (map encode_value vs))) (Array (Some (items @ vs))))"
  using assms
proof (induction vs arbitrary: pre items)
  case Nil
  then show ?case by simp
next
  case (Cons v vs)
  show ?case
    using Cons.IH [of "pre @ encode_value v" "items @ [v]"] Cons.prems
      parse_at_exact [of p v pre "concat (map encode_value vs) @ rest"]
    by simp
qed

lemma parse_entries_exact:
  assumes "\<forall>e \<in> set es. exact p (fst e) \<and> exact p (snd e)"
  shows "parse_entries p (length es)
      (pre @ concat (map (\<lambda>e. encode_value (fst e) @ encode_value (snd e)) es) @ rest) (length pre) acc
    = Ret (POk (length pre + length (concat (map (\<lambda>e. encode_value (fst e) @ encode_value (snd e)) es)))
        (Map (acc @ es)))"
  using assms
proof (induction es arbitrary: pre acc)
  case Nil
  then show ?case by simp
next
  case (Cons e es)
  let ?r = "concat (map (\<lambda>e. encode_value (fst e) @ encode_value (snd e)) es) @ rest"
  show ?case
    using Cons.IH [of "pre @ encode_value (fst e) @ encode_value (snd e)" "acc @ [(fst e, snd e)]"]
      Cons.prems parse_at_exact [of p "fst e" pre "encode_value (snd e) @ ?r"]
      parse_at_exact [of p "snd e" "pre @ encode_value (fst e)" ?r]
    by (simp add: add.assoc)
qed


lemma encode_double_inf:
  "encode_double f64_inf = ascii ''inf''" "encode_double f64_neg_inf = ascii ''-inf''"
  by (simp_all add: encode_double_def f64_is_infinite_def f64_neg_def f64_exp_def f64_frac_def
      f64_inf_def f64_neg_inf_def)

lemma plain_inf [simp]: "plain (ascii ''inf'')" "plain (ascii ''-inf'')"
  by (simp_all add: plain_def)

lemma parse_i128_show_int: "- (2 ^ 127) \<le> n \<Longrightarrow> n \<le> 2 ^ 127 - 1 \<Longrightarrow> parse_i128 (show_int n) = Some n"
  unfolding parse_i128_def by (rule parse_signed_show_int)

lemma parse_minus_one: "parse_i64 [45, 49] = Some (-1)" "plain [45, 49]"
  by (simp_all add: parse_i64_def parse_signed_def parse_digits_def is_digit_def digits_val_def
      digit_val_def i64_min_def i64_max_def plain_def)

text \<open>The sub-parsers on a prefix of a well-formed encoding; the whole encoding is the last case.\<close>

lemma parse_scalar_take:
  assumes "plain s"
  shows "parse_simple_string (take n (43 # s @ crlf @ r))
      = (if n < length s + 3 then Ret PIncomplete else Ret (POk (length s + 3) (SimpleString s)))"
    and "parse_error (take n (45 # s @ crlf @ r))
      = (if n < length s + 3 then Ret PIncomplete else Ret (POk (length s + 3) (Error s)))"
    and "parse_i64 s = Some i \<Longrightarrow> parse_integer (take n (58 # s @ crlf @ r))
      = (if n < length s + 3 then Ret PIncomplete else Ret (POk (length s + 3) (Integer i)))"
    and "parse_i128 s = Some i \<Longrightarrow> parse_bignumber (take n (40 # s @ crlf @ r))
      = (if n < length s + 3 then Ret PIncomplete else Ret (POk (length s + 3) (BigNumber i)))"
  unfolding parse_simple_string_def parse_error_def parse_integer_def parse_bignumber_def
    with_line_take [OF assms] by simp_all

lemma parse_double_take:
  "parse_double (take n (44 # ascii ''inf'' @ crlf @ r))
     = (if n < 6 then Ret PIncomplete else Ret (POk 6 (Double f64_inf)))"
  "parse_double (take n (44 # ascii ''-inf'' @ crlf @ r))
     = (if n < 7 then Ret PIncomplete else Ret (POk 7 (Double f64_neg_inf)))"
  unfolding parse_double_def with_line_take [OF plain_inf(1)] with_line_take [OF plain_inf(2)]
  by (simp_all add: ascii_def)

lemma parse_boolean_take:
  "parse_boolean (take n (35 # (if b then 116 else 102) # crlf @ r))
     = (if n < 4 then Ret PIncomplete else Ret (POk 4 (Boolean b)))"
proof (cases "n < 4")
  case True
  then show ?thesis by (simp add: parse_boolean_def crlf_def)
next
  case False
  then obtain m where "n = 4 + m" using le_Suc_ex [of 4 n] by auto
  then have "n = Suc (Suc (Suc (Suc m)))" by simp
  then show ?thesis by (simp add: parse_boolean_def crlf_def)
qed

lemma parse_bulk_take:
  assumes "int (length b) \<le> i64_max"
  defines "h \<equiv> length (show_nat (length b)) + 3"
  shows "parse_bulk_string (take n (36 # show_nat (length b) @ crlf @ b @ crlf @ r))
     = (if n < h + length b + 2 then Ret PIncomplete
        else Ret (POk (h + length b + 2) (BulkString (Some b))))"
proof -
  have d: "drop h (take n (36 # show_nat (length b) @ crlf @ b @ crlf @ r)) = take (n - h) (b @ crlf @ r)"
    by (simp add: h_def drop_take crlf_def numeral_3_eq_3)
  have l: "length (take n (36 # show_nat (length b) @ crlf @ b @ crlf @ r)) < h + length b + 2
      \<longleftrightarrow> n < h + length b + 2"
    by (auto simp: h_def crlf_def)
  show ?thesis
    unfolding parse_bulk_string_def with_line_take [OF plain_show_nat] h_def [symmetric]
      parse_i64_show_nat [OF assms(1)] option.case Let_def nat_int l d
    by auto
qed

lemma parse_blob_take:
  assumes "int (length t + length p) \<le> i64_max" and "length t = 3 \<or> length t < 3 \<and> p = []"
  defines "h \<equiv> length (show_nat (length t + length p)) + 3" and "m \<equiv> length t + length p"
  shows "parse_blob_error (take n (33 # show_nat m @ crlf @ t @ p @ crlf @ r))
     = (if n < h + m + 2 then Ret PIncomplete else Ret (POk (h + m + 2) (BlobError t p)))"
proof -
  have d: "drop h (take n (33 # show_nat m @ crlf @ t @ p @ crlf @ r)) = take (n - h) (t @ p @ crlf @ r)"
    by (simp add: h_def m_def drop_take crlf_def numeral_3_eq_3)
  have l: "length (take n (33 # show_nat m @ crlf @ t @ p @ crlf @ r)) < h + m + 2 \<longleftrightarrow> n < h + m + 2"
    by (auto simp: h_def m_def crlf_def)
  have t: "take m (take (n - h) (t @ p @ crlf @ r)) = t @ p" if "\<not> n < h + m + 2"
    using that by (simp add: m_def)
  have h': "length (show_nat m) + 3 = h" by (simp add: h_def m_def)
  have e: "(if 3 \<le> length (t @ p) then Ret (POk x (BlobError (take 3 (t @ p)) (drop 3 (t @ p))))
      else Ret (POk x (BlobError (t @ p) []))) = Ret (POk x (BlobError t p))" for x
    using assms(2) by auto
  show ?thesis
    unfolding parse_blob_error_def with_line_take [OF plain_show_nat] h'
      parse_i64_show_nat [OF assms(1) [folded m_def]] option.case Let_def nat_int l d
    by (cases "n < h + m + 2") (simp_all only: t e if_True if_False simp_thms of_nat_less_0_iff, simp_all)
qed

lemma length_show_nat: "length (show_nat n) \<le> Suc n"
proof (induction n rule: show_nat.induct)
  case (1 n)
  then show ?case by (cases "n < 10") (auto simp: show_nat.simps [of n])
qed

lemma length_show_nat_bound: "n < 10 ^ k \<Longrightarrow> 0 < k \<Longrightarrow> length (show_nat n) \<le> k"
proof (induction n arbitrary: k rule: show_nat.induct)
  case (1 n)
  show ?case
  proof (cases "n < 10")
    case True
    then show ?thesis using "1.prems" by (simp add: show_nat.simps [of n])
  next
    case False
    then obtain j where k: "k = Suc j" "0 < j" using "1.prems" by (cases k; cases "k - 1") auto
    then have "n div 10 < 10 ^ j" using "1.prems" by (simp add: less_mult_imp_div_less mult.commute)
    then show ?thesis using "1.IH" [OF False, of j] k False by (simp add: show_nat.simps [of n])
  qed
qed

lemma parse_verbatim_take:
  assumes "utf8_valid t" and "length t = 3" and "int (length c) \<le> i64_max - 100"
  defines "m \<equiv> length t + 1 + length c"
  defines "h \<equiv> length (show_nat m) + 3"
  shows "parse_verbatim (take n (61 # show_nat m @ crlf @ t @ [58] @ c @ crlf @ r))
     = (if n < h + m + 2 then Ret PIncomplete else Ret (POk (h + m + 2) (VerbatimString t c)))"
proof -
  let ?x = "t @ [58] @ c"
  have mb: "m < 10 ^ 19" "m \<le> u64_max" "m \<le> 2 ^ 63"
    using assms(2,3) by (simp_all add: m_def i64_max_def u64_max_def)
  have hb: "h \<le> 22" using length_show_nat_bound [OF mb(1)] by (simp add: h_def)
  have w: "wrap_u64 (h + m + 2) = h + m + 2" "wrap_u64 (h + m) = h + m"
    using mb(3) hb by (simp_all add: wrap_u64_def)
  have d: "drop h (take n (61 # show_nat m @ crlf @ t @ [58] @ c @ crlf @ r)) = take (n - h) (?x @ crlf @ r)"
    by (simp add: h_def drop_take crlf_def numeral_3_eq_3)
  have l: "length (take n (61 # show_nat m @ crlf @ t @ [58] @ c @ crlf @ r)) < h + m + 2 \<longleftrightarrow> n < h + m + 2"
    by (auto simp: h_def m_def crlf_def)
  have l': "\<not> length (take n (61 # show_nat m @ crlf @ t @ [58] @ c @ crlf @ r)) < h + m" if "\<not> n < h + m + 2"
    using that by (auto simp: h_def m_def crlf_def)
  have t: "take m (take (n - h) (?x @ crlf @ r)) = ?x" if "\<not> n < h + m + 2"
    using that by (simp add: m_def)
  have e: "take 3 ?x = t" "drop 4 ?x = c" "?x ! 3 = 58" "4 \<le> length ?x"
    using assms(2) by (simp_all add: nth_append)
  show ?thesis
    unfolding parse_verbatim_def with_line_take [OF plain_show_nat] h_def [symmetric]
      parse_usize_show_nat [OF mb(2)] option.case Let_def w l d
    using l' t e assms(1) by (simp add: from_utf8_def)
qed


lemmas parse_take = parse_scalar_take parse_double_take parse_boolean_take parse_bulk_take
  parse_blob_take parse_verbatim_take

text \<open>A null bulk string or null array.\<close>

lemma parse_null_take:
  "parse_bulk_string (take n (36 # [45, 49] @ crlf @ r))
     = (if n < 5 then Ret PIncomplete else Ret (POk 5 (BulkString None)))"
  "parse_array cap p (take n (42 # [45, 49] @ crlf @ r))
     = (if n < 5 then Ret PIncomplete else Ret (POk 5 (Array None)))"
  unfolding parse_bulk_string_def parse_array_def with_line_take [OF parse_minus_one(2)]
    parse_minus_one(1) by simp_all

lemma parse_array_take:
  assumes "length vs \<le> cap" "int (length vs) \<le> i64_max"
  defines "h \<equiv> length (show_nat (length vs)) + 3"
  shows "parse_array cap p (take n (42 # show_nat (length vs) @ crlf @ r))
    = (if n < h then Ret PIncomplete
       else parse_items p (length vs) (take n (42 # show_nat (length vs) @ crlf @ r)) h [])"
  unfolding parse_array_def with_line_take [OF plain_show_nat] h_def [symmetric]
    parse_i64_show_nat [OF assms(2)] option.case Let_def nat_int
  using assms(1) by simp

lemma parse_map_take:
  assumes "length es \<le> mcap" "length es \<le> u64_max"
  defines "h \<equiv> length (show_nat (length es)) + 3"
  shows "parse_map mcap p (take n (37 # show_nat (length es) @ crlf @ r))
    = (if n < h then Ret PIncomplete
       else parse_entries p (length es) (take n (37 # show_nat (length es) @ crlf @ r)) h [])"
  unfolding parse_map_def with_line_take [OF plain_show_nat] h_def [symmetric]
    parse_usize_show_nat [OF assms(2)] option.case
  using assms(1) by simp

lemma parse_at_take:
  assumes "exact p v" "patient p v" and n: "length pre \<le> n"
  shows "parse_at p (take n (pre @ encode_value v @ rest)) (length pre) k
    = (if n < length pre + length (encode_value v) then Ret PIncomplete
       else k (length pre + length (encode_value v)) v)"
proof (cases "n < length pre + length (encode_value v)")
  case True
  have "p (take (n - length pre) (encode_value v)) = Ret PIncomplete"
    using assms(2) True n by (auto simp: patient_def)
  then show ?thesis using True n by (auto simp: parse_at_def)
next
  case False
  then obtain m where m: "n = length pre + length (encode_value v) + m"
    using le_Suc_ex not_less by blast
  show ?thesis
    using parse_at_exact [OF assms(1), of pre "take m rest" k] unfolding m by simp
qed

lemma parse_items_take:
  assumes "\<forall>v \<in> set vs. exact p v \<and> patient p v" "length pre \<le> n"
    and "n < length pre + length (concat (map encode_value vs))"
  shows "parse_items p (length vs) (take n (pre @ concat (map encode_value vs))) (length pre) items
    = Ret PIncomplete"
  using assms
proof (induction vs arbitrary: pre items)
  case Nil
  then show ?case by simp
next
  case (Cons v vs)
  have "exact p v" "patient p v" using Cons.prems by auto
  note a = parse_at_take [OF this Cons.prems(2), of "concat (map encode_value vs)"]
  show ?case
  proof (cases "n < length pre + length (encode_value v)")
    case True
    then show ?thesis by (simp only: length_Cons parse_items.simps list.map concat.simps a if_True)
  next
    case False
    then show ?thesis
      using Cons.IH [of "pre @ encode_value v" "items @ [v]"] Cons.prems
      by (simp only: length_Cons parse_items.simps list.map concat.simps a if_False) simp
  qed
qed

lemma parse_entries_take:
  assumes "\<forall>e \<in> set es. (exact p (fst e) \<and> patient p (fst e)) \<and> (exact p (snd e) \<and> patient p (snd e))"
    and "length pre \<le> n"
    and "n < length pre + length (concat (map (\<lambda>e. encode_value (fst e) @ encode_value (snd e)) es))"
  shows "parse_entries p (length es)
      (take n (pre @ concat (map (\<lambda>e. encode_value (fst e) @ encode_value (snd e)) es))) (length pre) acc
    = Ret PIncomplete"
  using assms
proof (induction es arbitrary: pre acc)
  case Nil
  then show ?case by simp
next
  case (Cons e es)
  let ?r = "concat (map (\<lambda>e. encode_value (fst e) @ encode_value (snd e)) es)"
  have e: "exact p (fst e)" "patient p (fst e)" "exact p (snd e)" "patient p (snd e)"
    using Cons.prems by auto
  note a = parse_at_take [OF e(1,2) Cons.prems(2), of "encode_value (snd e) @ ?r"]
  show ?case
  proof (cases "n < length pre + length (encode_value (fst e))")
    case True
    then show ?thesis
      by (simp only: length_Cons parse_entries.simps list.map concat.simps append.assoc a if_True)
  next
    case False
    then have "length (pre @ encode_value (fst e)) \<le> n" by simp
    note b = parse_at_take [OF e(3,4) this, of ?r]
    show ?thesis
      using Cons.IH [of "pre @ encode_value (fst e) @ encode_value (snd e)" "acc @ [(fst e, snd e)]"]
        Cons.prems b False
      by (simp only: length_Cons parse_entries.simps list.map concat.simps append.assoc a if_False
          length_append) (simp add: add.assoc)
  qed
qed



subsection \<open>Exactness and patience of the parser\<close>

lemma takes_exact_patient:
  assumes "\<And>n r. p (take n (encode_value v @ r))
      = (if n < length (encode_value v) then Ret PIncomplete else Ret (POk (length (encode_value v)) v))"
  shows "exact p v \<and> patient p v"
proof -
  have "exact p v"
    unfolding exact_def
  proof
    fix rest
    show "p (encode_value v @ rest) = Ret (POk (length (encode_value v)) v)"
      using assms [of "length (encode_value v @ rest)" rest] by simp
  qed
  moreover have "patient p v"
    unfolding patient_def using assms [of _ "[]"] by simp
  ultimately show ?thesis ..
qed

lemma parse_levels_hd:
  assumes "0 < n"
  shows "parse_levels cap mcap (Suc k) (take n (c # r)) =
     (if c = 43 then parse_simple_string (take n (c # r))
      else if c = 45 then parse_error (take n (c # r))
      else if c = 58 then parse_integer (take n (c # r))
      else if c = 36 then parse_bulk_string (take n (c # r))
      else if c = 42 then parse_array cap (parse_levels cap mcap k) (take n (c # r))
      else if c = 37 then parse_map mcap (parse_levels cap mcap k) (take n (c # r))
      else if c = 44 then parse_double (take n (c # r))
      else if c = 35 then parse_boolean (take n (c # r))
      else if c = 40 then parse_bignumber (take n (c # r))
      else if c = 33 then parse_blob_error (take n (c # r))
      else if c = 61 then parse_verbatim (take n (c # r))
      else parse_inline (take n (c # r)))"
proof -
  have "take n (c # r) \<noteq> []" "hd (take n (c # r)) = c" using assms by (cases n; simp)+
  then show ?thesis unfolding parse_levels.simps Let_def by (simp only: if_False simp_thms)
qed

lemma parse_levels_takeI:
  assumes "\<And>n r. 0 < n \<Longrightarrow> parse_levels cap mcap (Suc k) (take n (encode_value v @ r))
      = (if n < length (encode_value v) then Ret PIncomplete else Ret (POk (length (encode_value v)) v))"
  shows "exact (parse_levels cap mcap (Suc k)) v \<and> patient (parse_levels cap mcap (Suc k)) v"
proof (rule takes_exact_patient)
  fix n r
  show "parse_levels cap mcap (Suc k) (take n (encode_value v @ r))
      = (if n < length (encode_value v) then Ret PIncomplete else Ret (POk (length (encode_value v)) v))"
    using assms [of n r] by (cases "0 < n") simp_all
qed

lemma take_past: "length x \<le> n \<Longrightarrow> take n (x @ r) = x @ take (n - length x) r"
  by simp

lemma parse_levels_array:
  assumes w: "length vs \<le> cap" "int (length vs) \<le> i64_max"
    and e: "\<forall>v \<in> set vs. exact (parse_levels cap mcap k) v \<and> patient (parse_levels cap mcap k) v"
    and n: "0 < n"
  defines "x \<equiv> encode_value (Array (Some vs))"
  shows "parse_levels cap mcap (Suc k) (take n (x @ r))
    = (if n < length x then Ret PIncomplete else Ret (POk (length x) (Array (Some vs))))"
proof -
  define pre where "pre = 42 # show_nat (length vs) @ crlf"
  define body where "body = concat (map encode_value vs)"
  have x: "x = pre @ body" by (simp add: x_def pre_def body_def)
  have h: "length (show_nat (length vs)) + 3 = length pre" by (simp add: pre_def crlf_def)
  have "parse_levels cap mcap (Suc k) (take n (x @ r))
      = (if n < length pre then Ret PIncomplete
         else parse_items (parse_levels cap mcap k) (length vs) (take n (x @ r)) (length pre) [])"
    using parse_levels_hd [OF n, of cap mcap k 42 "show_nat (length vs) @ crlf @ body @ r"]
      parse_array_take [OF w, of "parse_levels cap mcap k" n "body @ r"]
    unfolding h by (simp add: x pre_def)
  moreover have "parse_items (parse_levels cap mcap k) (length vs) (take n (x @ r)) (length pre) []
      = (if n < length x then Ret PIncomplete else Ret (POk (length x) (Array (Some vs))))"
    if "length pre \<le> n"
  proof (cases "n < length x")
    case True
    then have "take n (x @ r) = take n (pre @ body)" by (simp add: x)
    then show ?thesis using parse_items_take [OF e that] True by (simp add: x body_def)
  next
    case False
    then show ?thesis
      using parse_items_exact [of vs "parse_levels cap mcap k" pre "take (n - length x) r" "[]"] e
      by (simp add: take_past x body_def)
  qed
  ultimately show ?thesis by (auto simp: x)
qed

lemma parse_levels_map:
  assumes w: "length es \<le> mcap" "length es \<le> u64_max"
    and e: "\<forall>e \<in> set es. (exact (parse_levels cap mcap k) (fst e) \<and> patient (parse_levels cap mcap k) (fst e))
        \<and> (exact (parse_levels cap mcap k) (snd e) \<and> patient (parse_levels cap mcap k) (snd e))"
    and n: "0 < n"
  defines "x \<equiv> encode_value (Map es)"
  shows "parse_levels cap mcap (Suc k) (take n (x @ r))
    = (if n < length x then Ret PIncomplete else Ret (POk (length x) (Map es)))"
proof -
  define pre where "pre = 37 # show_nat (length es) @ crlf"
  define body where "body = concat (map (\<lambda>e. encode_value (fst e) @ encode_value (snd e)) es)"
  have x: "x = pre @ body" by (simp add: x_def pre_def body_def)
  have h: "length (show_nat (length es)) + 3 = length pre" by (simp add: pre_def crlf_def)
  have "parse_levels cap mcap (Suc k) (take n (x @ r))
      = (if n < length pre then Ret PIncomplete
         else parse_entries (parse_levels cap mcap k) (length es) (take n (x @ r)) (length pre) [])"
    using parse_levels_hd [OF n, of cap mcap k 37 "show_nat (length es) @ crlf @ body @ r"]
      parse_map_take [OF w, of "parse_levels cap mcap k" n "body @ r"]
    unfolding h by (simp add: x pre_def)
  moreover have "parse_entries (parse_levels cap mcap k) (length es) (take n (x @ r)) (length pre) []
      = (if n < length x then Ret PIncomplete else Ret (POk (length x) (Map es)))"
    if "length pre \<le> n"
  proof (cases "n < length x")
    case True
    then have "take n (x @ r) = take n (pre @ body)" by (simp add: x)
    then show ?thesis using parse_entries_take [OF e that] True by (simp add: x body_def)
  next
    case False
    then show ?thesis
      using parse_entries_exact [of es "parse_levels cap mcap k" pre "take (n - length x) r" "[]"] e
      by (simp add: take_past x body_def)
  qed
  ultimately show ?thesis by (auto simp: x)
qed



lemma parse_levels_scalar:
  assumes "wire_ok cap mcap (Suc k) v" and "\<forall>vs. v \<noteq> Array (Some vs)" and "\<forall>es. v \<noteq> Map es" and n: "0 < n"
  shows "parse_levels cap mcap (Suc k) (take n (encode_value v @ r))
    = (if n < length (encode_value v) then Ret PIncomplete else Ret (POk (length (encode_value v)) v))"
proof (cases v)
  case (SimpleString s)
  then have "plain s" using assms(1) by simp
  from parse_scalar_take(1) [OF this, of n r] show ?thesis
    unfolding SimpleString using parse_levels_hd [OF n, of cap mcap k 43 "s @ crlf @ r"] by (simp add: crlf_def numeral_3_eq_3)
next
  case (Error s)
  then have "plain s" using assms(1) by simp
  from parse_scalar_take(2) [OF this, of n r] show ?thesis
    unfolding Error using parse_levels_hd [OF n, of cap mcap k 45 "s @ crlf @ r"] by (simp add: crlf_def numeral_3_eq_3)
next
  case (Integer i)
  then have "parse_i64 (show_int i) = Some i" using assms(1) by (simp add: parse_i64_show_int)
  from parse_scalar_take(3) [OF plain_show_int this, of n r] show ?thesis
    unfolding Integer using parse_levels_hd [OF n, of cap mcap k 58 "show_int i @ crlf @ r"] by (simp add: crlf_def numeral_3_eq_3)
next
  case (BulkString b)
  show ?thesis
  proof (cases b)
    case None
    then show ?thesis unfolding BulkString
      using parse_levels_hd [OF n, of cap mcap k 36 "[45, 49] @ crlf @ r"] parse_null_take(1) [of n r]
      by (simp add: crlf_def)
  next
    case (Some x)
    then have "int (length x) \<le> i64_max" using assms(1) BulkString by simp
    from parse_bulk_take [OF this, of n r] Some show ?thesis unfolding BulkString
      using parse_levels_hd [OF n, of cap mcap k 36 "show_nat (length x) @ crlf @ x @ crlf @ r"]
      by (simp add: crlf_def numeral_3_eq_3)
  qed
next
  case (Array vs)
  then have "vs = None" using assms(2) by (cases vs) auto
  then show ?thesis unfolding Array
    using parse_levels_hd [OF n, of cap mcap k 42 "[45, 49] @ crlf @ r"] parse_null_take(2) [of cap _ n r]
    by (simp add: crlf_def)
next
  case (Map es)
  then show ?thesis using assms(3) by simp
next
  case (Double d)
  then have "d = f64_inf \<or> d = f64_neg_inf" using assms(1) by simp
  then show ?thesis unfolding Double
    using parse_levels_hd [OF n, of cap mcap k 44 "ascii ''inf'' @ crlf @ r"] parse_double_take [of n r]
      parse_levels_hd [OF n, of cap mcap k 44 "ascii ''-inf'' @ crlf @ r"]
    by (elim disjE) (simp_all add: crlf_def encode_double_inf ascii_def)
next
  case (Boolean b)
  show ?thesis unfolding Boolean
    using parse_levels_hd [OF n, of cap mcap k 35 "(if b then 116 else 102) # crlf @ r"]
      parse_boolean_take [of n b r]
    by (simp add: crlf_def)
next
  case (BigNumber i)
  then have "parse_i128 (show_int i) = Some i" using assms(1) by (simp add: parse_i128_show_int)
  from parse_scalar_take(4) [OF plain_show_int this, of n r] show ?thesis
    unfolding BigNumber using parse_levels_hd [OF n, of cap mcap k 40 "show_int i @ crlf @ r"]
    by (simp add: crlf_def numeral_3_eq_3)
next
  case (BlobError t p)
  then have "int (length t + length p) \<le> i64_max" "length t = 3 \<or> length t < 3 \<and> p = []"
    using assms(1) by simp_all
  from parse_blob_take [OF this, of n r] show ?thesis unfolding BlobError
    using parse_levels_hd [OF n, of cap mcap k 33 "show_nat (length t + length p) @ crlf @ t @ p @ crlf @ r"]
    by (simp add: crlf_def numeral_3_eq_3 add.assoc)
next
  case (VerbatimString t c)
  then have "utf8_valid t" "length t = 3" "int (length c) \<le> i64_max - 100" using assms(1) by simp_all
  from parse_verbatim_take [OF this, of n r] this(2) show ?thesis unfolding VerbatimString
    using parse_levels_hd [OF n, of cap mcap k 61
        "show_nat (length t + 1 + length c) @ crlf @ t @ [58] @ c @ crlf @ r"]
    by (simp add: crlf_def add.assoc)
qed

lemma parse_levels_wire:
  "wire_ok cap mcap k v \<Longrightarrow> exact (parse_levels cap mcap k) v \<and> patient (parse_levels cap mcap k) v"
proof (induction k arbitrary: v)
  case 0
  then show ?case by simp
next
  case (Suc k)
  consider vs where "v = Array (Some vs)" | es where "v = Map es"
    | "\<forall>vs. v \<noteq> Array (Some vs)" "\<forall>es. v \<noteq> Map es" by blast
  then show ?case
  proof cases
    case 1
    then show ?thesis using Suc by (intro parse_levels_takeI, unfold 1, intro parse_levels_array) auto
  next
    case 2
    then show ?thesis using Suc by (intro parse_levels_takeI, unfold 2, intro parse_levels_map) auto
  next
    case 3
    then show ?thesis using Suc.prems by (intro parse_levels_takeI parse_levels_scalar)
  qed
qed


subsection \<open>Safety on arbitrary input\<close>

text \<open>What the Rust types guarantee of a value: UTF-8 strings and integers in range.\<close>

fun value_wf :: "RespValue \<Rightarrow> bool" where
  "value_wf (SimpleString s) = utf8_valid s"
| "value_wf (Error s) = utf8_valid s"
| "value_wf (Integer n) = i64_ok n"
| "value_wf (BulkString b) = True"
| "value_wf (Array None) = True"
| "value_wf (Array (Some vs)) = (\<forall>v \<in> set vs. value_wf v)"
| "value_wf (Map es) = (\<forall>e \<in> set es. value_wf (fst e) \<and> value_wf (snd e))"
| "value_wf (Double d) = True"
| "value_wf (Boolean b) = True"
| "value_wf (BigNumber n) = (- (2 ^ 127) \<le> n \<and> n \<le> 2 ^ 127 - 1)"
| "value_wf (BlobError t p) = (length t \<le> 3)"
| "value_wf (VerbatimString t c) = utf8_valid t"

definition sound :: "(bytes \<Rightarrow> ParseResult outcome) \<Rightarrow> bool" where
  "sound p \<longleftrightarrow> (\<forall>buf n v. length buf < 2 ^ 63 \<longrightarrow> p buf = Ret (POk n v) \<longrightarrow> 0 < n \<and> n \<le> length buf \<and> value_wf v)"

lemma parse_atD:
  assumes "parse_at p buf off k = Ret (POk n v)" and "sound p" and b: "length buf < 2 ^ 63"
  obtains c x where "k (off + c) x = Ret (POk n v)" "off + c \<le> length buf" "value_wf x"
proof -
  have l: "off < length buf" using assms(1) by (auto simp: parse_at_def split: if_splits)
  then obtain c x where c: "p (drop off buf) = Ret (POk c x)" "k (off + c) x = Ret (POk n v)"
    using assms(1) by (cases "p (drop off buf)") (auto simp: parse_at_def split: ParseResult.splits)
  have "length (drop off buf) < 2 ^ 63" using b by simp
  then have "c \<le> length (drop off buf)" "value_wf x" using assms(2) c(1) unfolding sound_def by blast+
  then show thesis using that c(2) l by simp
qed

lemma parse_items_sound:
  assumes b: "length buf < 2 ^ 63" and "sound p" "parse_items p m buf off items = Ret (POk n v)" "off \<le> length buf"
    and "\<forall>x \<in> set items. value_wf x"
  shows "off \<le> n \<and> n \<le> length buf \<and> value_wf v"
  using assms(2-)
proof (induction m arbitrary: off items)
  case 0
  then show ?case by auto
next
  case (Suc m)
  from Suc.prems(2) have "parse_at p buf off (\<lambda>off' v. parse_items p m buf off' (items @ [v])) = Ret (POk n v)"
    by simp
  then obtain c x where "parse_items p m buf (off + c) (items @ [x]) = Ret (POk n v)"
    "off + c \<le> length buf" "value_wf x"
    by (rule parse_atD [OF _ Suc.prems(1) b])
  with Suc.IH [OF Suc.prems(1) this(1,2)] Suc.prems(4) show ?case by auto
qed

lemma parse_entries_sound:
  assumes b: "length buf < 2 ^ 63" and "sound p" "parse_entries p m buf off es = Ret (POk n v)" "off \<le> length buf"
    and "\<forall>e \<in> set es. value_wf (fst e) \<and> value_wf (snd e)"
  shows "off \<le> n \<and> n \<le> length buf \<and> value_wf v"
  using assms(2-)
proof (induction m arbitrary: off es)
  case 0
  then show ?case by auto
next
  case (Suc m)
  from Suc.prems(2) have "parse_at p buf off (\<lambda>off' key. parse_at p buf off' (\<lambda>off'' val.
      parse_entries p m buf off'' (es @ [(key, val)]))) = Ret (POk n v)" by simp
  then obtain c x where "parse_at p buf (off + c) (\<lambda>off'' val.
      parse_entries p m buf off'' (es @ [(x, val)])) = Ret (POk n v)" and x: "value_wf x"
    by (rule parse_atD [OF _ Suc.prems(1) b])
  from this(1) obtain c' y where "parse_entries p m buf (off + c + c') (es @ [(x, y)]) = Ret (POk n v)"
    "off + c + c' \<le> length buf" "value_wf y"
    by (rule parse_atD [OF _ Suc.prems(1) b])
  with Suc.IH [OF Suc.prems(1) this(1,2)] Suc.prems(4) x show ?case by auto
qed

lemma parse_i128_range: "parse_i128 s = Some i \<Longrightarrow> - (2 ^ 127) \<le> i \<and> i \<le> 2 ^ 127 - 1"
  unfolding parse_i128_def parse_signed_def Let_def by (auto split: list.splits option.splits if_splits)

lemmas parse_i128_bounds = parse_i128_range [THEN conjunct1, simplified]
  parse_i128_range [THEN conjunct2, simplified]

lemma scalar_sound:
  "sound parse_simple_string" "sound parse_error" "sound parse_double"
  "sound parse_bulk_string" "sound parse_blob_error"
  unfolding sound_def parse_simple_string_def parse_error_def parse_double_def
    parse_bulk_string_def parse_blob_error_def
  by (auto elim!: with_lineD split: option.splits if_splits simp: Let_def)

lemma number_sound: "sound parse_integer" "sound parse_bignumber"
  unfolding sound_def parse_integer_def parse_bignumber_def
  using parse_i64_range parse_i128_bounds
  by (auto elim!: with_lineD split: option.splits)

lemma parse_boolean_sound: "sound parse_boolean"
  unfolding sound_def parse_boolean_def by (auto split: if_splits)

lemma wrap_sum:
  assumes "c \<le> wrap_u64 (c + len)" "wrap_u64 (c + len) < 2 ^ 63" "len \<le> u64_max"
  shows "wrap_u64 (c + len) = c + len" and "wrap_u64 (c + len + 2) = c + len + 2"
proof -
  show e: "wrap_u64 (c + len) = c + len"
  proof (rule ccontr)
    assume "wrap_u64 (c + len) \<noteq> c + len"
    then have "2 ^ 64 \<le> c + len" by (metis mod_less not_less wrap_u64_def)
    moreover have "c + len < 2 * 2 ^ 64" using assms by (simp add: u64_max_def)
    ultimately have "wrap_u64 (c + len) = c + len - 2 ^ 64" by (simp add: wrap_u64_def mod_if)
    then show False using assms(1,3) \<open>2 ^ 64 \<le> c + len\<close> by (simp add: u64_max_def)
  qed
  show "wrap_u64 (c + len + 2) = c + len + 2" using assms(2) e by (simp add: wrap_u64_def)
qed

lemma parse_usize_range: "parse_usize s = Some n \<Longrightarrow> n \<le> u64_max"
  by (auto simp: parse_usize_def parse_unsigned_def split: option.splits if_splits)

lemma parse_verbatim_sound: "sound parse_verbatim"
  unfolding sound_def
proof (intro allI impI)
  fix buf n v
  assume b: "length buf < 2 ^ 63" and p: "parse_verbatim buf = Ret (POk n v)"
  from p [unfolded parse_verbatim_def] show "0 < n \<and> n \<le> length buf \<and> value_wf v"
  proof (rule with_lineD)
    fix s c
    assume c: "3 \<le> c" and k: "(case parse_usize s of None \<Rightarrow> Ret (PErr ParseInt) | Some len \<Rightarrow>
         let total = wrap_u64 (c + len + 2); data_end = wrap_u64 (c + len) in
         if length buf < total then Ret PIncomplete
         else if data_end < c \<or> length buf < data_end then Panic
         else let data = take (data_end - c) (drop c buf) in
           if 4 \<le> length data \<and> data ! 3 = 58 then
             (case from_utf8 (take 3 data) of None \<Rightarrow> Ret (PErr Utf8Error)
              | Some tag \<Rightarrow> Ret (POk total (VerbatimString tag (drop 4 data))))
           else (case from_utf8 data of None \<Rightarrow> Ret (PErr Utf8Error)
              | Some tag \<Rightarrow> Ret (POk total (VerbatimString tag [])))) = Ret (POk n v)"
    then obtain len where len: "parse_usize s = Some len" by (cases "parse_usize s") auto
    have t: "wrap_u64 (c + len + 2) \<le> length buf" "c \<le> wrap_u64 (c + len)" "wrap_u64 (c + len) \<le> length buf"
      using k by (simp_all add: len Let_def split: if_splits)
    have "n = wrap_u64 (c + len + 2) \<and> value_wf v"
      using k t by (auto simp: len Let_def from_utf8_def split: if_splits)
    then show ?thesis
      using wrap_sum(2) [OF t(2) _ parse_usize_range [OF len]] t b by auto
  qed
qed

lemma parse_inline_sound: "sound parse_inline"
  unfolding sound_def parse_inline_def read_line_def' from_utf8_def
  by (auto split: option.splits if_splits dest: scan_crlf_bound)


lemma parse_array_sound: "sound p \<Longrightarrow> sound (parse_array cap p)"
  unfolding sound_def [of "parse_array cap p"] parse_array_def
  by (fastforce elim!: with_lineD dest: parse_items_sound [rotated 2] split: option.splits if_splits simp: Let_def)

lemma parse_map_sound: "sound p \<Longrightarrow> sound (parse_map mcap p)"
  unfolding sound_def [of "parse_map mcap p"] parse_map_def
  by (fastforce elim!: with_lineD dest: parse_entries_sound [rotated 2] split: option.splits if_splits)

lemma sound_if: "sound p \<Longrightarrow> sound q \<Longrightarrow> sound (\<lambda>buf. if c buf then p buf else q buf)"
  unfolding sound_def by presburger

lemma parse_levels_sound: "sound (parse_levels cap mcap k)"
proof (induction k)
  case 0
  then show ?case by (simp add: sound_def)
next
  case (Suc k)
  have i: "sound (\<lambda>buf. Ret PIncomplete)" by (simp add: sound_def)
  have "parse_levels cap mcap (Suc k) = (\<lambda>buf. parse_levels cap mcap (Suc k) buf)" ..
  then show ?case
    unfolding parse_levels.simps Let_def
    using scalar_sound number_sound parse_boolean_sound parse_verbatim_sound parse_inline_sound
      parse_array_sound [OF Suc.IH] parse_map_sound [OF Suc.IH] i
    by (auto intro!: sound_if)
qed


subsection \<open>The wire format as a prefix codec\<close>

definition resp_dec :: "nat \<Rightarrow> nat \<Rightarrow> bytes \<Rightarrow> (RespValue \<times> nat) option" where
  "resp_dec cap mcap src =
     (case parse_value cap mcap src 0 of Ret (POk n v) \<Rightarrow> Some (v, n) | _ \<Rightarrow> None)"

abbreviation on_wire :: "nat \<Rightarrow> nat \<Rightarrow> RespValue \<Rightarrow> bool" where
  "on_wire cap mcap v \<equiv> wire_ok cap mcap (Suc MAX_DEPTH) v"

lemma parse_value_encode:
  "on_wire cap mcap v \<Longrightarrow>
   parse_value cap mcap (encode_value v @ rest) 0 = Ret (POk (length (encode_value v)) v)"
  using parse_levels_wire [of cap mcap "Suc MAX_DEPTH" v] by (simp add: parse_value_def exact_def)

interpretation resp_codec: prefix_codec encode_value "resp_dec cap mcap" "on_wire cap mcap" for cap mcap
  by unfold_locales (simp add: resp_dec_def parse_value_encode)

lemma decode_encode:
  assumes "on_wire cap mcap v"
  shows "decode cap mcap dec (encode_value v @ rest)
    = Ret (if is_hello v then dec\<lparr>resp3 := True\<rparr> else dec, rest, Inr (Some v))"
  using parse_value_encode [OF assms, of rest] by (simp add: decode_def)

lemma decode_huge_array:
  assumes "cap < 2 ^ 63 - 1"
  shows "decode cap mcap dec (42 # show_nat (2 ^ 63 - 1) @ crlf) = Panic"
proof -
  have i: "int (2 ^ 63 - 1) \<le> i64_max" by (simp add: i64_max_def)
  have "parse_array cap p (42 # show_nat (2 ^ 63 - 1) @ crlf @ []) = Panic" for p
    unfolding parse_array_def with_line_enc [OF plain_show_nat] parse_i64_show_nat [OF i] option.case Let_def
    using assms by simp
  then show ?thesis by (simp add: decode_def parse_value_def)
qed

lemma decode_huge_verbatim: "decode cap mcap dec (61 # show_nat (2 ^ 64 - 1) @ crlf @ [z]) = Panic"
proof -
  define h where "h = length (show_nat (2 ^ 64 - 1)) + 3"
  have hb: "3 \<le> h" "h \<le> 23" using length_show_nat_bound [of "2 ^ 64 - 1" 20] by (simp_all add: h_def)
  have u: "(2 ^ 64 - 1 :: nat) \<le> u64_max" by (simp add: u64_max_def)
  have "wrap_u64 (h + (2 ^ 64 - 1) + 2) = h + 1" "wrap_u64 (h + (2 ^ 64 - 1)) = h - 1"
    using hb by (simp_all add: wrap_u64_def mod_if)
  moreover have "length (61 # show_nat (2 ^ 64 - 1) @ crlf @ [z]) = h + 1" by (simp add: h_def crlf_def)
  ultimately have "parse_verbatim (61 # show_nat (2 ^ 64 - 1) @ crlf @ [z]) = Panic"
    unfolding parse_verbatim_def with_line_enc [OF plain_show_nat] parse_usize_show_nat [OF u]
      option.case Let_def h_def [symmetric]
    using hb by simp
  then show ?thesis by (simp add: decode_def parse_value_def)
qed

lemma decode_bulk_any:
  assumes "int (length b) \<le> i64_max"
  shows "decode cap mcap dec (36 # show_nat (length b) @ crlf @ b @ [x, y] @ rest)
    = Ret (dec, rest, Inr (Some (BulkString (Some b))))"
proof -
  define h where "h = length (show_nat (length b)) + 3"
  define src where "src = 36 # show_nat (length b) @ crlf @ b @ [x, y] @ rest"
  have d: "drop h src = b @ [x, y] @ rest" "length src = h + length b + 2 + length rest"
    by (simp_all add: src_def h_def crlf_def numeral_3_eq_3)
  have "drop (h + length b + 2) src = drop (length b + 2) (drop h src)" by (simp add: add.commute add.left_commute)
  then have r: "drop (h + length b + 2) src = rest" by (simp add: d)
  have "with_line src k = k (show_nat (length b)) h" for k
    unfolding src_def h_def by (rule with_line_enc [OF plain_show_nat])
  then have "parse_bulk_string src = Ret (POk (h + length b + 2) (BulkString (Some b)))"
    using d by (simp add: parse_bulk_string_def parse_i64_show_nat [OF assms] Let_def)
  moreover have "parse_value cap mcap src 0 = parse_bulk_string src"
    by (simp add: parse_value_def src_def)
  moreover have "src \<noteq> []" by (simp add: src_def)
  ultimately show ?thesis
    unfolding src_def [symmetric] using d(2) r by (simp add: decode_def)
qed

lemma trim_end_replicate: "trim_end c (s @ replicate n c) = trim_end c s"
  by (simp add: trim_end_def dropWhile_append)

lemma show_nat_digit: "n < 10 \<Longrightarrow> show_nat n = [48 + of_nat n]"
  by (simp add: show_nat.simps)

lemma encode_double_zero:
  assumes "f64_ratio d = (n, q)" "f64_exp d \<noteq> 2047" "\<not> f64_neg d" "2 * (n * 10 ^ 17) < q"
  shows "encode_double d = [48]"
proof -
  have "round_half_even (n * 10 ^ 17) q = 0"
    using assms(4) by (simp add: round_half_even_def Let_def)
  then have "show_fixed 17 d = [48, 46] @ replicate 17 48"
    using assms(1-3) replicate_Suc [of 16 "48 :: byte"]
    by (simp add: show_fixed_def f64_is_nan_def f64_is_infinite_def pad_left_def show_nat_digit
        replicate_append_same)
  then have "trim_end 48 (show_fixed 17 d) = trim_end 48 [48, 46]" by (simp only: trim_end_replicate)
  then show ?thesis using assms(2) by (simp add: encode_double_def f64_is_infinite_def trim_end_def)
qed

lemma parse_double_zero: "parse_f64 [48] = Some 0"
  by (simp add: parse_f64_def parse_number_def is_digit_def Let_def parse_exponent_def digits_val_def
      digit_val_def f64_of_ratio_def)

lemma MAX_DEPTH_Suc: "MAX_DEPTH = Suc 1023"
  by (simp add: MAX_DEPTH_def)

subsection \<open>Properties\<close>





text \<open>
  C15. On arbitrary input that fits in memory, a value returned by the decoder is well formed
  (UTF-8 text, integers in range), at least one byte is consumed and never more than there
  are; otherwise the buffer and the state are unchanged. A panic can only come from the
  parser, never from advancing the buffer.
\<close>

theorem resp_decode_sound:
  assumes "length src < 2 ^ 63"
  shows "(case decode cap mcap dec src of
      Ret (dec', src', Inr (Some v)) \<Rightarrow>
        value_wf v \<and> (\<exists>n. 0 < n \<and> n \<le> length src \<and> src' = drop n src)
    | Ret (dec', src', _) \<Rightarrow> dec' = dec \<and> src' = src
    | Panic \<Rightarrow> parse_value cap mcap src 0 = Panic
    | Deadlock \<Rightarrow> parse_value cap mcap src 0 = Deadlock)"
proof -
  have s: "0 < n \<and> n \<le> length src \<and> value_wf v" if "parse_value cap mcap src 0 = Ret (POk n v)" for n v
    using parse_levels_sound that assms unfolding sound_def parse_value_def by blast
  show ?thesis
  proof (cases "src = []")
    case True
    then show ?thesis by (simp add: decode_def)
  next
    case False
    then show ?thesis using s
      by (cases "parse_value cap mcap src 0")
        (auto simp: decode_def Let_def split: ParseResult.splits)
  qed
qed

theorem resp_decode_sound_witness:
  "(\<exists>n. 0 < n \<and> n \<le> length (ascii '':1'' @ [13, 10, 7]) \<and> [7] = drop n (ascii '':1'' @ [13, 10, 7]))
   \<and> value_wf (Integer 1)"
proof -
  have "encode_value (Integer 1) @ [7] = ascii '':1'' @ [13, 10, 7]"
    by (simp add: crlf_def show_int_def show_nat.simps)
  moreover have "wire_ok 9 9 (Suc MAX_DEPTH) (Integer 1)" by (simp add: i64_ok_def i64_min_def i64_max_def)
  ultimately have "decode 9 9 decoder_new (ascii '':1'' @ [13, 10, 7])
      = Ret (decoder_new, [7], Inr (Some (Integer 1)))"
    using decode_encode [of 9 9 "Integer 1" decoder_new "[7]"] by simp
  then show ?thesis using resp_decode_sound [where src = "ascii '':1'' @ [13, 10, 7]" and cap = 9 and mcap = 9 and dec = decoder_new] by simp
qed

text \<open>
  The encoding is unambiguous. No encoded value is a prefix of the encoding of a
  different one, so a stream of replies can be cut in one way only.
\<close>

theorem resp_prefix_free:
  assumes "wire_ok cap mcap (Suc MAX_DEPTH) v" and "wire_ok cap mcap (Suc MAX_DEPTH) w"
    and "encode_value v @ r = encode_value w @ r'"
  shows "v = w \<and> r = r'"
  using assms by (rule resp_codec.enc_prefix_free)

theorem resp_prefix_free_witness: "Integer 7 = Integer 7 \<and> [1 :: byte] = [1]"
  by (rule resp_prefix_free [of 1 1 "Integer 7" "Integer 7" "[1]" "[1]"])
    (simp_all add: i64_ok_def i64_min_def i64_max_def)

text \<open>
  Malformed input the decoder does not reject. An array header whose count exceeds what
  the allocator grants makes it panic, a verbatim string whose length is \<open>2 ^ 64 - 1\<close> makes
  it panic, and the two bytes after a bulk string are skipped without being compared with
  the line terminator.
\<close>

theorem resp_malformed_input:
  assumes "cap < 2 ^ 63 - 1" and "int (length b) \<le> i64_max"
  shows "decode cap mcap dec (42 # show_nat (2 ^ 63 - 1) @ crlf) = Panic
    \<and> decode cap mcap dec (61 # show_nat (2 ^ 64 - 1) @ crlf @ [z]) = Panic
    \<and> decode cap mcap dec (36 # show_nat (length b) @ crlf @ b @ [x, y] @ rest)
        = Ret (dec, rest, Inr (Some (BulkString (Some b))))"
  by (simp only: decode_huge_array [OF assms(1)] decode_huge_verbatim decode_bulk_any [OF assms(2)]
      simp_thms)

theorem resp_malformed_input_witness:
  "decode 1000 1000 decoder_new (36 # show_nat (length [7 :: byte]) @ crlf @ [7] @ [88, 89] @ [])
     = Ret (decoder_new, [], Inr (Some (BulkString (Some [7]))))"
  using resp_malformed_input [of 1000 "[7]" 1000 decoder_new 0 88 89 "[]"]
  by (simp add: i64_max_def)

text \<open>
  The encoding of finite doubles is lossy. It prints 17 decimals, so every number below
  \<open>0.5 * 10 ^ -17\<close> is sent as zero: \<open>2 ^ -64\<close> and \<open>0\<close> have the same encoding, which decodes
  to \<open>0\<close>.
\<close>

theorem resp_double_lossy:
  "encode_value (Double 0x3BF0000000000000) = encode_value (Double 0)
   \<and> decode cap mcap dec (encode_value (Double 0x3BF0000000000000)) = Ret (dec, [], Inr (Some (Double 0)))"
proof -
  have "encode_double 0x3BF0000000000000 = [48]"
    by (rule encode_double_zero [of _ "2 ^ 52" "2 ^ 116"])
      (simp_all add: f64_ratio_def f64_exp_def f64_frac_def f64_neg_def)
  moreover have "encode_double 0 = [48]"
    by (rule encode_double_zero [of _ 0 "2 ^ 1074"])
      (simp_all add: f64_ratio_def f64_exp_def f64_frac_def f64_neg_def)
  moreover have "parse_double (44 # [48] @ crlf @ []) = Ret (POk 4 (Double 0))"
    unfolding parse_double_def by (subst with_line_enc) (simp_all add: plain_def parse_double_zero)
  ultimately show ?thesis
    by (simp add: decode_def parse_value_def crlf_def)
qed

end
