(* ===== verification/IntSet.thy ===== *)
theory IntSet
  imports Rust_Std
begin

text \<open>
  \<^verbatim>\<open>crates/storage/src/intset.rs\<close>: a sorted set of 64-bit integers packed into a byte
  vector at the narrowest of three widths. The operations work on the bytes, as the code
  does; the invariant \<open>intset_inv\<close> says that the bytes are the little-endian encodings of a
  strictly increasing list, and the interpretation \<open>intset_set\<close> of the interface
  \<open>set_rep\<close> shows that the operations implement a finite set of integers.
\<close>

subsection \<open>Data\<close>

datatype IntSetEncoding = Int16 | Int32 | Int64

record intset =
  is_data :: bytes
  is_length :: nat
  is_encoding :: IntSetEncoding

text \<open>The discriminants of the enum are the widths in bytes.\<close>

primrec enc_width :: "IntSetEncoding \<Rightarrow> nat" where
  "enc_width Int16 = 2"
| "enc_width Int32 = 4"
| "enc_width Int64 = 8"

primrec encoding_name :: "IntSetEncoding \<Rightarrow> bytes" where
  "encoding_name Int16 = ascii ''int16''"
| "encoding_name Int32 = ascii ''int32''"
| "encoding_name Int64 = ascii ''int64''"

subsection \<open>Operations\<close>

definition intset_new :: intset where
  "intset_new = \<lparr>is_data = [], is_length = 0, is_encoding = Int16\<rparr>"

definition intset_is_empty :: "intset \<Rightarrow> bool" where
  "intset_is_empty s \<longleftrightarrow> is_length s = 0"

definition encoding_for :: "int \<Rightarrow> IntSetEncoding" where
  "encoding_for v =
     (if - (2 ^ 15) \<le> v \<and> v \<le> 2 ^ 15 - 1 then Int16
      else if - (2 ^ 31) \<le> v \<and> v \<le> 2 ^ 31 - 1 then Int32 else Int64)"

text \<open>The three branches of \<^verbatim>\<open>get_value\<close> read \<open>enc_width\<close> bytes and sign-extend them.\<close>

definition get_value :: "intset \<Rightarrow> nat \<Rightarrow> int" where
  "get_value s i =
     (let w = enc_width (is_encoding s) in le_sint (take w (drop (i * w) (is_data s))))"

definition iter_next :: "intset \<Rightarrow> nat \<Rightarrow> (int \<times> nat) option" where
  "iter_next s pos = (if is_length s \<le> pos then None else Some (get_value s pos, pos + 1))"

function iter_from :: "intset \<Rightarrow> nat \<Rightarrow> int list" where
  "iter_from s pos = (case iter_next s pos of None \<Rightarrow> [] | Some (v, p) \<Rightarrow> v # iter_from s p)"
  by pat_completeness auto
termination
  by (relation "measure (\<lambda>(s, pos). is_length s - pos)") (auto simp: iter_next_def split: if_splits)

declare iter_from.simps [simp del]

definition intset_to_vec :: "intset \<Rightarrow> int list" where
  "intset_to_vec s = iter_from s 0"

definition push_raw :: "int \<Rightarrow> intset \<Rightarrow> intset" where
  "push_raw v s = s\<lparr>is_data := is_data s @ le_bytes (enc_width (is_encoding s)) v\<rparr>"

definition push_counted :: "intset \<Rightarrow> int \<Rightarrow> intset" where
  "push_counted s v = (push_raw v s)\<lparr>is_length := is_length s + 1\<rparr>"

definition upgrade_to :: "IntSetEncoding \<Rightarrow> intset \<Rightarrow> intset" where
  "upgrade_to min_enc s =
     (if enc_width min_enc \<le> enc_width (is_encoding s) then s
      else foldl push_counted
             (s\<lparr>is_encoding := min_enc, is_data := [], is_length := 0\<rparr>) (intset_to_vec s))"

function bsearch :: "intset \<Rightarrow> int \<Rightarrow> nat \<Rightarrow> nat \<Rightarrow> nat" where
  "bsearch s v lo hi =
     (if lo < hi then
        (let mid = (lo + hi) div 2
         in if get_value s mid < v then bsearch s v (mid + 1) hi else bsearch s v lo mid)
      else lo)"
  by pat_completeness auto
termination
  by (relation "measure (\<lambda>(s, v, lo, hi). hi - lo)") auto

declare bsearch.simps [simp del]

definition intset_contains :: "int \<Rightarrow> intset \<Rightarrow> bool" where
  "intset_contains v s =
     (if is_length s = 0 then False
      else (let lo = bsearch s v 0 (is_length s)
            in lo < is_length s \<and> get_value s lo = v))"

text \<open>The byte-by-byte insertion and removal loops.\<close>

fun insert_bytes :: "nat \<Rightarrow> bytes \<Rightarrow> bytes \<Rightarrow> bytes" where
  "insert_bytes p [] d = d"
| "insert_bytes p (b # bs) d = insert_bytes (p + 1) bs (insert_at p b d)"

fun remove_bytes :: "nat \<Rightarrow> nat \<Rightarrow> bytes \<Rightarrow> bytes" where
  "remove_bytes p 0 d = d"
| "remove_bytes p (Suc n) d = remove_bytes p n (remove_at p d)"

definition intset_add :: "int \<Rightarrow> intset \<Rightarrow> intset \<times> bool" where
  "intset_add v s =
     (if intset_contains v s then (s, False)
      else
        (let needed = encoding_for v;
             s1 = (if enc_width needed > enc_width (is_encoding s) then upgrade_to needed s else s);
             pos = unwrap_or (is_length s1) (position (\<lambda>x. x > v) (intset_to_vec s1));
             width = enc_width (is_encoding s1);
             byte_pos = pos * width
         in (s1\<lparr>is_data := insert_bytes byte_pos (le_bytes width v) (is_data s1),
                is_length := is_length s1 + 1\<rparr>, True)))"

definition intset_remove :: "int \<Rightarrow> intset \<Rightarrow> intset \<times> bool" where
  "intset_remove v s =
     (case position (\<lambda>x. x = v) (intset_to_vec s) of
        Some pos \<Rightarrow>
          (let width = enc_width (is_encoding s)
           in (s\<lparr>is_data := remove_bytes (pos * width) width (is_data s),
                 is_length := is_length s - 1\<rparr>, True))
      | None \<Rightarrow> (s, False))"

definition max_encoding :: "int list \<Rightarrow> IntSetEncoding" where
  "max_encoding vs =
     foldl (\<lambda>m v. if enc_width (encoding_for v) > enc_width m then encoding_for v else m) Int16 vs"

definition from_sorted_slice :: "int list \<Rightarrow> intset" where
  "from_sorted_slice vs =
     (if vs = [] then intset_new
      else (foldl (\<lambda>t v. push_raw v t) (intset_new\<lparr>is_encoding := max_encoding vs\<rparr>) vs)
             \<lparr>is_length := length vs\<rparr>)"

subsection \<open>Invariant\<close>

definition fits :: "nat \<Rightarrow> int \<Rightarrow> bool" where
  "fits w v \<longleftrightarrow> - (256 ^ w) \<le> 2 * v \<and> 2 * v < 256 ^ w"

definition intset_rep :: "intset \<Rightarrow> int list \<Rightarrow> bool" where
  "intset_rep s xs \<longleftrightarrow>
     is_length s = length xs \<and>
     is_data s = concat (map (le_bytes (enc_width (is_encoding s))) xs) \<and>
     sorted_wrt (<) xs \<and> list_all (fits (enc_width (is_encoding s))) xs"

definition intset_inv :: "intset \<Rightarrow> bool" where
  "intset_inv s \<longleftrightarrow> intset_rep s (intset_to_vec s)"

subsection \<open>Reading\<close>

lemma rep_get_value:
  assumes "intset_rep s xs" "i < length xs"
  shows "get_value s i = xs ! i"
proof -
  let ?w = "enc_width (is_encoding s)"
  have "take ?w (drop (i * ?w) (is_data s)) = le_bytes ?w (xs ! i)"
    using assms by (simp add: intset_rep_def take_drop_concat_width)
  moreover have "fits ?w (xs ! i)"
    using assms by (simp add: intset_rep_def list_all_length)
  ultimately show ?thesis
    by (simp add: get_value_def Let_def le_sint_le_bytes fits_def)
qed

lemma iter_from_upt:
  "pos \<le> is_length s \<Longrightarrow> iter_from s pos = map (get_value s) [pos..<is_length s]"
proof (induction "is_length s - pos" arbitrary: pos)
  case 0
  then show ?case by (simp add: iter_from.simps [of s pos] iter_next_def)
next
  case (Suc n)
  then have "iter_from s (pos + 1) = map (get_value s) [pos + 1..<is_length s]"
    by (intro Suc.hyps) auto
  with Suc show ?case
    by (simp add: iter_from.simps [of s pos] iter_next_def upt_conv_Cons)
qed

lemma rep_length: "intset_rep s xs \<Longrightarrow> is_length s = length xs"
  by (simp add: intset_rep_def)

lemma rep_to_vec: "intset_rep s xs \<Longrightarrow> intset_to_vec s = xs"
  by (rule nth_equalityI) (simp_all add: intset_to_vec_def iter_from_upt rep_get_value rep_length)

lemma rep_inv: "intset_rep s xs \<Longrightarrow> intset_inv s"
  by (simp add: intset_inv_def rep_to_vec)

lemma inv_rep: "intset_inv s \<Longrightarrow> intset_rep s (intset_to_vec s)"
  by (simp add: intset_inv_def)

lemma bsearch_spec:
  assumes "intset_rep s xs" "lo \<le> hi" "hi \<le> length xs"
    and "\<forall>i < lo. xs ! i < v" and "\<forall>i. hi \<le> i \<and> i < length xs \<longrightarrow> v \<le> xs ! i"
  shows "bsearch s v lo hi \<le> length xs \<and> (\<forall>i < bsearch s v lo hi. xs ! i < v)
    \<and> (\<forall>i. bsearch s v lo hi \<le> i \<and> i < length xs \<longrightarrow> v \<le> xs ! i)"
  using assms
proof (induction s v lo hi rule: bsearch.induct)
  case (1 s v lo hi)
  show ?case
  proof (cases "lo < hi")
    case False
    then have "bsearch s v lo hi = lo" by (simp add: bsearch.simps [of s v lo hi])
    moreover have "lo = hi" using False "1.prems"(2) by simp
    ultimately show ?thesis using "1.prems"(3,4,5) by auto
  next
    case True
    define mid where "mid = (lo + hi) div 2"
    have mid: "lo \<le> mid" "mid < hi" "mid < length xs" using True "1.prems"(3) by (auto simp: mid_def)
    have srt: "sorted_wrt (<) xs" using "1.prems"(1) by (simp add: intset_rep_def)
    have gv: "get_value s mid = xs ! mid" using "1.prems"(1) mid by (simp add: rep_get_value)
    show ?thesis
    proof (cases "xs ! mid < v")
      case less: True
      have "xs ! i < v" if "i < mid + 1" for i
      proof (cases "i = mid")
        case False
        with that mid have "xs ! i < xs ! mid" by (intro sorted_wrt_nth_less [OF srt]) auto
        with less show ?thesis by simp
      qed (use less in simp)
      then have "bsearch s v (mid + 1) hi \<le> length xs \<and> (\<forall>i < bsearch s v (mid + 1) hi. xs ! i < v)
          \<and> (\<forall>i. bsearch s v (mid + 1) hi \<le> i \<and> i < length xs \<longrightarrow> v \<le> xs ! i)"
        using True less mid gv "1.prems" by (intro "1.IH"(1) [OF True mid_def]) auto
      with True less gv show ?thesis
        by (simp add: bsearch.simps [of s v lo hi] Let_def mid_def [symmetric])
    next
      case ge: False
      have "v \<le> xs ! i" if "mid \<le> i" "i < length xs" for i
      proof (cases "i = mid")
        case False
        with that have "xs ! mid < xs ! i" by (intro sorted_wrt_nth_less [OF srt]) auto
        with ge show ?thesis by simp
      qed (use ge in simp)
      then have "bsearch s v lo mid \<le> length xs \<and> (\<forall>i < bsearch s v lo mid. xs ! i < v)
          \<and> (\<forall>i. bsearch s v lo mid \<le> i \<and> i < length xs \<longrightarrow> v \<le> xs ! i)"
        using True ge mid gv "1.prems" by (intro "1.IH"(2) [OF True mid_def]) auto
      with True ge gv show ?thesis
        by (simp add: bsearch.simps [of s v lo hi] Let_def mid_def [symmetric])
    qed
  qed
qed

lemma rep_contains:
  assumes "intset_rep s xs"
  shows "intset_contains v s \<longleftrightarrow> v \<in> set xs"
proof (cases "xs = []")
  case True
  with assms show ?thesis by (simp add: intset_contains_def intset_rep_def)
next
  case False
  define lo where "lo = bsearch s v 0 (length xs)"
  have lo: "lo \<le> length xs" "\<forall>i < lo. xs ! i < v"
    "\<forall>i. lo \<le> i \<and> i < length xs \<longrightarrow> v \<le> xs ! i"
    using bsearch_spec [OF assms, of 0 "length xs" v] by (auto simp: lo_def)
  have srt: "sorted_wrt (<) xs" using assms by (simp add: intset_rep_def)
  have "v \<in> set xs \<longleftrightarrow> lo < length xs \<and> xs ! lo = v"
  proof
    assume "v \<in> set xs"
    then obtain i where i: "i < length xs" "xs ! i = v" by (auto simp: in_set_conv_nth)
    have "lo \<le> i" using lo(2) i by (meson leI less_irrefl)
    moreover have "\<not> lo < i"
      using sorted_wrt_nth_less [OF srt, of lo i] lo(3) i by fastforce
    ultimately show "lo < length xs \<and> xs ! lo = v" using i by auto
  qed auto
  then show ?thesis
    using assms False lo
    by (auto simp: intset_contains_def rep_length lo_def [symmetric] Let_def rep_get_value)
qed

subsection \<open>Re-encoding\<close>

lemma foldl_push_count:
  "foldl push_counted s xs =
   s\<lparr>is_data := is_data s @ concat (map (le_bytes (enc_width (is_encoding s))) xs),
     is_length := is_length s + length xs\<rparr>"
  by (induction xs arbitrary: s) (simp_all add: push_counted_def push_raw_def)

lemma foldl_push:
  "foldl (\<lambda>t v. push_raw v t) s xs =
   s\<lparr>is_data := is_data s @ concat (map (le_bytes (enc_width (is_encoding s))) xs)\<rparr>"
  by (induction xs arbitrary: s) (simp_all add: push_raw_def)

lemma fits_mono: "fits w v \<Longrightarrow> w \<le> w' \<Longrightarrow> fits w' v"
proof -
  assume f: "fits w v" and w: "w \<le> w'"
  have "(256::int) ^ w \<le> 256 ^ w'" using w by (intro power_increasing) auto
  with f show ?thesis unfolding fits_def by linarith
qed

lemma list_all_fits_mono: "list_all (fits w) xs \<Longrightarrow> w \<le> w' \<Longrightarrow> list_all (fits w') xs"
  by (auto simp: list_all_iff intro: fits_mono)

lemma fits_encoding_for: "i64_ok v \<Longrightarrow> fits (enc_width (encoding_for v)) v"
  by (auto simp: encoding_for_def fits_def i64_ok_def i64_min_def i64_max_def)

lemma upgrade_to_encoding:
  "enc_width (is_encoding (upgrade_to e s)) = max (enc_width e) (enc_width (is_encoding s))"
  by (auto simp: upgrade_to_def foldl_push_count max_def)

lemma rep_upgrade_to: "intset_rep s xs \<Longrightarrow> intset_rep (upgrade_to e s) xs"
  by (auto simp: upgrade_to_def foldl_push_count rep_to_vec)
    (auto simp: intset_rep_def intro: list_all_fits_mono)

subsection \<open>Insertion and removal\<close>

lemma insert_bytes_eq: "p \<le> length d \<Longrightarrow> insert_bytes p bs d = take p d @ bs @ drop p d"
proof (induction bs arbitrary: p d)
  case Nil
  then show ?case by simp
next
  case (Cons b bs)
  then have "insert_bytes (p + 1) bs (insert_at p b d) =
      take (p + 1) (insert_at p b d) @ bs @ drop (p + 1) (insert_at p b d)"
    by (intro Cons.IH) simp
  with Cons.prems show ?case by (simp add: insert_at_def)
qed

lemma remove_bytes_eq: "p + n \<le> length d \<Longrightarrow> remove_bytes p n d = take p d @ drop (p + n) d"
proof (induction n arbitrary: d)
  case 0
  then show ?case by simp
next
  case (Suc n)
  then have "remove_bytes p n (remove_at p d) =
      take p (remove_at p d) @ drop (p + n) (remove_at p d)"
    by (intro Suc.IH) (simp add: remove_at_def)
  with Suc.prems show ?case by (simp add: remove_at_def add.commute)
qed

lemma concat_take_width:
  assumes "\<forall>x \<in> set xs. length (f x) = w" "i \<le> length xs"
  shows "take (i * w) (concat (map f xs)) = concat (map f (take i xs))"
    and "drop (i * w) (concat (map f xs)) = concat (map f (drop i xs))"
proof -
  have "concat (map f xs) = concat (map f (take i xs)) @ concat (map f (drop i xs))"
    by (metis append_take_drop_id concat_append map_append)
  moreover have "length (concat (map f (take i xs))) = i * w"
    using assms by (subst length_concat_width [where w = w]) (auto dest: in_set_takeD)
  ultimately show "take (i * w) (concat (map f xs)) = concat (map f (take i xs))"
    and "drop (i * w) (concat (map f xs)) = concat (map f (drop i xs))"
    by simp_all
qed

lemma sorted_insert_pos:
  fixes xs :: "int list"
  assumes "sorted_wrt (<) xs" "v \<notin> set xs"
    and p: "p = unwrap_or (length xs) (position (\<lambda>x. x > v) xs)"
  shows "p \<le> length xs \<and> sorted_wrt (<) (take p xs @ v # drop p xs)"
proof (cases "position (\<lambda>x. x > v) xs")
  case None
  then have "\<forall>x \<in> set xs. x < v"
    using assms(2) by (auto simp: position_None_iff not_less le_less)
  with assms None show ?thesis by (simp add: sorted_wrt_append)
next
  case (Some q)
  then have q: "q < length xs" "v < xs ! q" "\<forall>j < q. \<not> v < xs ! j"
    using position_SomeD [OF Some] by auto
  have lt: "x < v" if "x \<in> set (take q xs)" for x
  proof -
    from that obtain j where j: "j < q" "x = xs ! j" by (auto simp: in_set_conv_nth)
    then have "x \<le> v" using q by auto
    moreover have "x \<noteq> v" using that assms(2) by (auto dest: in_set_takeD)
    ultimately show ?thesis by simp
  qed
  have gt: "v < x" if "x \<in> set (drop q xs)" for x
  proof -
    from that obtain j where j: "j < length (drop q xs)" "x = drop q xs ! j"
      unfolding in_set_conv_nth by blast
    then have j: "q + j < length xs" "x = xs ! (q + j)" by auto
    then have "xs ! q \<le> x"
      using sorted_wrt_nth_less [OF assms(1), of q "q + j"] by (cases j) auto
    then show ?thesis using q by simp
  qed
  have "sorted_wrt (<) (take q xs @ drop q xs)" using assms(1) by simp
  then have "sorted_wrt (<) (take q xs)" "sorted_wrt (<) (drop q xs)"
    by (simp_all only: sorted_wrt_append)
  with lt gt show ?thesis
    using q by (auto simp: p Some sorted_wrt_append intro: less_trans)
qed

text \<open>What \<open>add\<close> does after the possible re-encoding.\<close>

lemma rep_insert:
  assumes r: "intset_rep s xs" and v: "v \<notin> set xs" "fits (enc_width (is_encoding s)) v"
    and p: "p = unwrap_or (length xs) (position (\<lambda>x. x > v) xs)"
    and w: "w = enc_width (is_encoding s)"
  shows "intset_rep (s\<lparr>is_data := insert_bytes (p * w) (le_bytes w v) (is_data s),
    is_length := is_length s + 1\<rparr>) (take p xs @ v # drop p xs)"
proof -
  have srt: "sorted_wrt (<) xs" using r by (simp add: intset_rep_def)
  have ps: "p \<le> length xs" "sorted_wrt (<) (take p xs @ v # drop p xs)"
    using sorted_insert_pos [OF srt v(1) p] by auto
  have d: "is_data s = concat (map (le_bytes w) xs)" using r w by (simp add: intset_rep_def)
  have "p * w \<le> length (is_data s)"
    using ps d by (simp add: length_concat_width [where w = w])
  then have "insert_bytes (p * w) (le_bytes w v) (is_data s) =
      concat (map (le_bytes w) (take p xs @ v # drop p xs))"
    using ps d by (simp add: insert_bytes_eq concat_take_width)
  moreover have "list_all (fits w) (take p xs @ v # drop p xs)"
    using r v w by (auto simp: intset_rep_def list_all_iff dest: in_set_takeD in_set_dropD)
  ultimately show ?thesis using r ps w by (simp add: intset_rep_def)
qed

lemma intset_add_rep:
  assumes r: "intset_rep s xs" and ok: "i64_ok v" and v: "v \<notin> set xs"
  shows "\<exists>p. intset_rep (fst (intset_add v s)) (take p xs @ v # drop p xs)
    \<and> snd (intset_add v s)"
proof -
  define s1 where "s1 = (if enc_width (encoding_for v) > enc_width (is_encoding s)
    then upgrade_to (encoding_for v) s else s)"
  have r1: "intset_rep s1 xs" using r by (simp add: s1_def rep_upgrade_to)
  have "fits (enc_width (is_encoding s1)) v"
    by (rule fits_mono [OF fits_encoding_for [OF ok]]) (simp add: s1_def upgrade_to_encoding)
  note ins = rep_insert [OF r1 v this refl refl]
  show ?thesis
    unfolding intset_add_def Let_def s1_def [symmetric]
    using ins v by (auto simp: rep_contains [OF r, of v] rep_to_vec [OF r1] rep_length [OF r1])
qed

lemma intset_add_present: "intset_rep s xs \<Longrightarrow> v \<in> set xs \<Longrightarrow> intset_add v s = (s, False)"
  by (simp add: intset_add_def rep_contains)

lemma intset_remove_rep:
  assumes r: "intset_rep s xs" and v: "v \<in> set xs"
  shows "intset_rep (fst (intset_remove v s)) (remove1 v xs) \<and> snd (intset_remove v s)"
proof -
  obtain p where p: "position (\<lambda>x. x = v) xs = Some p"
    using v by (cases "position (\<lambda>x. x = v) xs") (auto simp: position_None_iff)
  then have pl: "p < length xs" "xs ! p = v" "\<forall>j < p. xs ! j \<noteq> v"
    using position_SomeD [OF p] by auto
  define w where "w = enc_width (is_encoding s)"
  have d: "is_data s = concat (map (le_bytes w) xs)" using r by (simp add: intset_rep_def w_def)
  have split: "xs = take p xs @ v # drop (Suc p) xs"
    using pl id_take_nth_drop [of p xs] by simp
  have srt: "sorted_wrt (<) xs" using r by (simp add: intset_rep_def)
  have nin: "v \<notin> set (take p xs)" using pl by (auto simp: in_set_conv_nth)
  have rm: "remove1 v xs = take p xs @ drop (Suc p) xs"
    by (subst split) (use nin in \<open>simp add: remove1_append\<close>)
  have "p * w + w \<le> length (is_data s)"
    using pl mult_le_mono1 [of "Suc p" "length xs" w]
    by (simp add: d length_concat_width [where w = w] add.commute)
  moreover have "p * w + w = Suc p * w" by simp
  ultimately have "remove_bytes (p * w) w (is_data s) = concat (map (le_bytes w) (remove1 v xs))"
    using pl d by (simp add: remove_bytes_eq concat_take_width rm del: mult_Suc)
  moreover have "sorted_wrt (<) (remove1 v xs)"
    using srt unfolding rm by (subst (asm) split) (auto simp: sorted_wrt_append)
  moreover have "list_all (fits w) (remove1 v xs)"
    using r set_remove1_subset [of v xs] by (auto simp: intset_rep_def list_all_iff w_def)
  ultimately show ?thesis
    using r p v
    by (simp add: intset_remove_def rep_to_vec Let_def w_def [symmetric])
      (simp add: intset_rep_def w_def length_remove1)
qed

lemma intset_remove_absent: "intset_rep s xs \<Longrightarrow> v \<notin> set xs \<Longrightarrow> intset_remove v s = (s, False)"
  using position_None_iff [of "\<lambda>x. x = v" xs] by (auto simp: intset_remove_def rep_to_vec)

lemma intset_new_rep: "intset_rep intset_new []"
  by (simp add: intset_rep_def intset_new_def)

lemma rep_distinct: "intset_rep s xs \<Longrightarrow> distinct xs"
  by (simp add: intset_rep_def strict_sorted_iff)

subsection \<open>The interface\<close>

text \<open>The packed set implements finite sets of 64-bit integers.\<close>

lemma inv_cases:
  assumes "intset_inv s" and "i64_ok v"
  shows "intset_inv (fst (intset_add v s))"
    and "set (intset_to_vec (fst (intset_add v s))) = insert v (set (intset_to_vec s))"
    and "snd (intset_add v s) \<longleftrightarrow> v \<notin> set (intset_to_vec s)"
    and "intset_inv (fst (intset_remove v s))"
    and "set (intset_to_vec (fst (intset_remove v s))) = set (intset_to_vec s) - {v}"
    and "snd (intset_remove v s) \<longleftrightarrow> v \<in> set (intset_to_vec s)"
proof -
  let ?xs = "intset_to_vec s"
  have r: "intset_rep s ?xs" using assms(1) by (rule inv_rep)
  note ab = intset_add_present [OF r, of v] intset_remove_absent [OF r, of v]
  have "intset_inv (fst (intset_add v s)) \<and> set (intset_to_vec (fst (intset_add v s))) = insert v (set ?xs)
      \<and> (snd (intset_add v s) \<longleftrightarrow> v \<notin> set ?xs)"
  proof (cases "v \<in> set ?xs")
    case True
    with ab assms(1) show ?thesis by auto
  next
    case False
    from intset_add_rep [OF r assms(2) False] obtain p where
      p: "intset_rep (fst (intset_add v s)) (take p ?xs @ v # drop p ?xs)" "snd (intset_add v s)"
      by blast
    have "set (take p ?xs @ v # drop p ?xs) = insert v (set ?xs)"
      using set_insert_at [of p v ?xs] by (simp add: insert_at_def)
    with p False show ?thesis using rep_inv [OF p(1)] rep_to_vec [OF p(1)] by simp
  qed
  then show "intset_inv (fst (intset_add v s))"
    and "set (intset_to_vec (fst (intset_add v s))) = insert v (set ?xs)"
    and "snd (intset_add v s) \<longleftrightarrow> v \<notin> set ?xs" by simp_all
  have "intset_inv (fst (intset_remove v s)) \<and> set (intset_to_vec (fst (intset_remove v s))) = set ?xs - {v}
      \<and> (snd (intset_remove v s) \<longleftrightarrow> v \<in> set ?xs)"
  proof (cases "v \<in> set ?xs")
    case True
    note m = intset_remove_rep [OF r True]
    have "set (remove1 v ?xs) = set ?xs - {v}" by (rule set_remove1_eq [OF rep_distinct [OF r]])
    with m True show ?thesis using rep_inv rep_to_vec by fastforce
  next
    case False
    with ab assms(1) show ?thesis by auto
  qed
  then show "intset_inv (fst (intset_remove v s))"
    and "set (intset_to_vec (fst (intset_remove v s))) = set ?xs - {v}"
    and "snd (intset_remove v s) \<longleftrightarrow> v \<in> set ?xs" by simp_all
qed

lemma intset_new_inv: "intset_inv intset_new"
  by (rule rep_inv [OF intset_new_rep])

interpretation intset_set: set_rep intset_new intset_add intset_remove intset_contains is_length
    "\<lambda>s. set (intset_to_vec s)" intset_inv i64_ok
proof unfold_locales
  fix s assume "intset_inv s"
  then have r: "intset_rep s (intset_to_vec s)" by (rule inv_rep)
  then show "is_length s = card (set (intset_to_vec s))"
    by (simp add: rep_length distinct_card [OF rep_distinct])
  show "intset_contains v s \<longleftrightarrow> v \<in> set (intset_to_vec s)" for v
    by (rule rep_contains [OF r])
qed (simp_all add: inv_cases intset_new_inv rep_to_vec [OF intset_new_rep])

lemma intset_to_vec_sorted: "intset_inv s \<Longrightarrow> sorted_wrt (<) (intset_to_vec s)"
  by (simp add: intset_inv_def intset_rep_def)

lemma intset_to_vec_i64: "intset_inv s \<Longrightarrow> v \<in> set (intset_to_vec s) \<Longrightarrow> i64_ok v"
proof -
  assume i: "intset_inv s" and v: "v \<in> set (intset_to_vec s)"
  then have "fits (enc_width (is_encoding s)) v"
    by (auto simp: intset_inv_def intset_rep_def list_all_iff)
  then have "fits 8 v" by (rule fits_mono) (cases "is_encoding s", simp_all)
  then show ?thesis by (simp add: fits_def i64_ok_def i64_min_def i64_max_def)
qed

lemma sorted_eq_sorted_list_of_set:
  fixes xs :: "int list"
  shows "sorted_wrt (<) xs \<Longrightarrow> xs = sorted_list_of_set (set xs)"
  by (simp add: sorted_list_of_set.idem_if_sorted_distinct strict_sorted_iff)

subsection \<open>Construction from a sorted slice\<close>

lemma max_encoding_ge:
  "enc_width m \<le> enc_width (foldl (\<lambda>m v. if enc_width (encoding_for v) > enc_width m
       then encoding_for v else m) m vs) \<and>
   (\<forall>v \<in> set vs. enc_width (encoding_for v) \<le> enc_width (foldl (\<lambda>m v.
       if enc_width (encoding_for v) > enc_width m then encoding_for v else m) m vs))"
proof (induction vs arbitrary: m)
  case Nil
  then show ?case by simp
next
  case (Cons v vs)
  show ?case
    using Cons.IH [of "if enc_width (encoding_for v) > enc_width m then encoding_for v else m"]
    by (auto split: if_splits)
qed

lemma from_sorted_slice_rep:
  assumes "sorted_wrt (<) vs" "\<forall>v \<in> set vs. i64_ok v"
  shows "intset_rep (from_sorted_slice vs) vs"
proof (cases "vs = []")
  case True
  then show ?thesis by (simp add: from_sorted_slice_def intset_new_rep)
next
  case False
  have "list_all (fits (enc_width (max_encoding vs))) vs"
    using assms(2) max_encoding_ge [where m = Int16 and vs = vs]
    by (auto simp: list_all_iff max_encoding_def intro: fits_mono [OF fits_encoding_for])
  with False assms(1) show ?thesis
    by (simp add: from_sorted_slice_def foldl_push intset_rep_def intset_new_def)
qed

subsection \<open>Runs of operations\<close>

datatype intset_op = OpAdd int | OpRemove int

primrec intset_step :: "intset_op \<Rightarrow> intset \<Rightarrow> intset" where
  "intset_step (OpAdd v) s = fst (intset_add v s)"
| "intset_step (OpRemove v) s = fst (intset_remove v s)"

primrec set_step :: "intset_op \<Rightarrow> int set \<Rightarrow> int set" where
  "set_step (OpAdd v) A = insert v A"
| "set_step (OpRemove v) A = A - {v}"

primrec op_ok :: "intset_op \<Rightarrow> bool" where
  "op_ok (OpAdd v) = i64_ok v"
| "op_ok (OpRemove v) = i64_ok v"

lemma intset_run_refines:
  assumes "intset_inv s" "\<forall>c \<in> set ops. op_ok c"
  shows "intset_inv (fold intset_step ops s) \<and>
    set (intset_to_vec (fold intset_step ops s)) = fold set_step ops (set (intset_to_vec s))"
  using assms
proof (induction ops arbitrary: s)
  case Nil
  then show ?case by simp
next
  case (Cons c ops)
  then have "intset_inv (intset_step c s)"
    and "set (intset_to_vec (intset_step c s)) = set_step c (set (intset_to_vec s))"
    by (cases c; simp add: inv_cases)+
  with Cons.IH [of "intset_step c s"] Cons.prems(2) show ?case by simp
qed

subsection \<open>Properties\<close>

text \<open>
  C1. Any sequence of insertions and removals on a packed integer set, starting from the
  empty one, refines the same sequence on a mathematical set: the iterator yields exactly
  the members in increasing order, the binary search answers membership, and the stored
  length is the cardinality, whatever re-encodings the insertions caused.
\<close>

theorem intset_refines_set:
  assumes "\<forall>c \<in> set ops. op_ok c"
  defines "s \<equiv> fold intset_step ops intset_new" and "A \<equiv> fold set_step ops {}"
  shows "intset_to_vec s = sorted_list_of_set A
    \<and> (\<forall>v. i64_ok v \<longrightarrow> (intset_contains v s \<longleftrightarrow> v \<in> A))
    \<and> is_length s = card A
    \<and> length (is_data s) = is_length s * enc_width (is_encoding s)"
proof -
  have "intset_inv s" and a: "set (intset_to_vec s) = A"
    using intset_run_refines [OF intset_new_inv assms(1)]
    by (simp_all add: s_def A_def rep_to_vec [OF intset_new_rep])
  note i = this(1)
  have "intset_to_vec s = sorted_list_of_set A"
    using sorted_eq_sorted_list_of_set [OF intset_to_vec_sorted [OF i]] a by simp
  moreover have "length (is_data s) = is_length s * enc_width (is_encoding s)"
    using i by (simp add: intset_inv_def intset_rep_def length_concat_width [where w = "enc_width (is_encoding s)"])
  ultimately show ?thesis
    using intset_set.isin_abs [OF i] intset_set.size_abs [OF i] a by auto
qed

theorem intset_refines_set_witness:
  "let ops = [OpAdd 5, OpAdd 100000, OpAdd (-3), OpRemove 5] in
   intset_to_vec (fold intset_step ops intset_new) = [-3, 100000]"
proof -
  have ok: "\<forall>c \<in> set [OpAdd 5, OpAdd 100000, OpAdd (-3), OpRemove 5]. op_ok c"
    by (simp add: i64_ok_def i64_min_def i64_max_def)
  have A: "fold set_step [OpAdd 5, OpAdd 100000, OpAdd (-3), OpRemove 5] {} = {-3, 100000}"
    by auto
  have "sorted_list_of_set {-3, 100000 :: int} = [-3, 100000]"
    using sorted_eq_sorted_list_of_set [of "[-3, 100000]"] by simp
  then show ?thesis
    using intset_refines_set [OF ok] unfolding A Let_def by simp
qed



text \<open>
  An encoding never becomes narrower: after any further operations the width is at
  least what it was, so a set keeps its wide encoding even when the wide value has been
  removed (the module comment promises the smallest encoding that fits).
\<close>

theorem intset_never_narrows:
  "enc_width (is_encoding s) \<le> enc_width (is_encoding (fold intset_step ops s))"
proof (induction ops arbitrary: s)
  case Nil
  then show ?case by simp
next
  case (Cons c ops)
  have "enc_width (is_encoding s) \<le> enc_width (is_encoding (intset_step c s))"
    by (cases c) (auto simp: intset_add_def intset_remove_def Let_def upgrade_to_encoding
        split: option.split)
  also have "\<dots> \<le> enc_width (is_encoding (fold intset_step ops (intset_step c s)))"
    by (rule Cons.IH)
  finally show ?case by simp
qed

text \<open>
  A strictly increasing slice of 64-bit integers survives packing and iteration.
\<close>

theorem from_sorted_slice_roundtrip:
  assumes "sorted_wrt (<) vs" and "\<forall>v \<in> set vs. i64_ok v"
  shows "intset_to_vec (from_sorted_slice vs) = vs \<and> intset_inv (from_sorted_slice vs)"
  using from_sorted_slice_rep [OF assms] by (simp add: rep_to_vec rep_inv)

theorem from_sorted_slice_roundtrip_witness:
  "intset_to_vec (from_sorted_slice [-40000, 0, 9]) = [-40000, 0, 9]"
  using from_sorted_slice_roundtrip [of "[-40000, 0, 9]"]
  by (simp add: i64_ok_def i64_min_def i64_max_def)

end
