(* ===== verification/ListPack.thy ===== *)
theory ListPack
  imports Rust_Std
begin

text \<open>
  \<^verbatim>\<open>crates/storage/src/listpack.rs\<close>: the compact byte-array encoding of short lists. Every
  entry is a previous-length prefix, an integer or string body and a backward length.
  Offsets are \<^verbatim>\<open>usize\<close> sums; those that include a length read from the data are written
  modulo \<open>2 ^ 64\<close>, and slicing past its bounds is a panic. The loop of \<^verbatim>\<open>count_entries\<close>
  may not terminate on foreign bytes and is a \<^theory_text>\<open>partial_function\<close>.
\<close>

unbundle bit_operations_syntax

subsection \<open>Variable-length integers\<close>

definition sub :: "bytes \<Rightarrow> nat \<Rightarrow> nat \<Rightarrow> bytes" where
  "sub buf i n = take n (drop i buf)"

definition read_u :: "bytes \<Rightarrow> nat \<Rightarrow> nat \<Rightarrow> nat" where
  "read_u buf i n = nat (le_uint (sub buf i n))"

definition encode_prevlen :: "bytes \<Rightarrow> nat \<Rightarrow> bytes" where
  "encode_prevlen buf len =
     (if len < 128 then buf @ [of_nat len] else buf @ [0xFE] @ le_bytes 4 (int len))"

definition decode_prevlen :: "bytes \<Rightarrow> nat \<Rightarrow> (nat \<times> nat) option" where
  "decode_prevlen buf pos =
     (if length buf \<le> pos then None
      else let first = buf ! pos in
        if first < 0xFE then Some (unat first, 1)
        else if first = 0xFE \<and> pos + 5 \<le> length buf then Some (read_u buf (pos + 1) 4, 5)
        else None)"

definition encode_backlen :: "bytes \<Rightarrow> nat \<Rightarrow> bytes" where
  "encode_backlen buf len =
     (if len < 128 then buf @ [of_nat len] else buf @ [0xFE] @ le_bytes 4 (int len))"

definition prevlen_size :: "nat \<Rightarrow> nat" where
  "prevlen_size len = (if len < 128 then 1 else 5)"

subsection \<open>Integer bodies\<close>

definition encode_integer :: "bytes \<Rightarrow> int \<Rightarrow> bytes" where
  "encode_integer buf val =
     (if 0 \<le> val \<and> val \<le> 63 then buf @ [word_of_int val]
      else if -8192 \<le> val \<and> val \<le> 8191 then
        (let encoded = (word_of_int val :: 16 word)
         in buf @ [0x40 OR (ucast (drop_bit 8 encoded) AND 0x3F), ucast encoded])
      else if - (2 ^ 31) \<le> val \<and> val \<le> 2 ^ 31 - 1 then buf @ [0x80] @ le_bytes 4 val
      else buf @ [0x81] @ le_bytes 8 val)"

definition decode_integer :: "bytes \<Rightarrow> nat \<Rightarrow> (int \<times> nat) option" where
  "decode_integer buf pos =
     (if length buf \<le> pos then None
      else let first = buf ! pos; top2 = drop_bit 6 first in
        if top2 = 0 then Some (uint first, 1)
        else if top2 = 1 then
          (if pos + 2 > length buf then None
           else let hi = (ucast (first AND 0x3F) :: 16 word);
                    lo = ucast (buf ! (pos + 1));
                    raw = push_bit 8 hi OR lo
                in Some (if raw AND 0x2000 \<noteq> 0 then uint raw - 16384 else uint raw, 2))
        else if top2 = 2 then
          (if first = 0x80 \<and> pos + 5 \<le> length buf then Some (le_sint (sub buf (pos + 1) 4), 5)
           else if first = 0x81 \<and> pos + 9 \<le> length buf then
             Some (le_sint (sub buf (pos + 1) 8), 9)
           else None)
        else None)"

subsection \<open>String bodies\<close>

definition encode_string :: "bytes \<Rightarrow> bytes \<Rightarrow> bytes" where
  "encode_string buf s =
     (let len = length s in
      (if len < 12 then buf @ [0xE0 OR (of_nat len AND 0x0F)]
       else if len < 256 then buf @ [0xF0, of_nat len]
       else if len < 65536 then buf @ [0xF1] @ le_bytes 2 (int len)
       else if len < 2 ^ 32 then buf @ [0xF2] @ le_bytes 4 (int len)
       else buf @ [0xF3] @ le_bytes 8 (int len)) @ s)"

text \<open>
  The length and header size of a string body, shared by \<^verbatim>\<open>decode_string\<close> and
  \<^verbatim>\<open>count_entries\<close>; \<open>None\<close> is the early \<^verbatim>\<open>return None\<close> and \<^verbatim>\<open>break\<close>.
\<close>

definition string_header :: "bytes \<Rightarrow> nat \<Rightarrow> (nat \<times> nat) option" where
  "string_header buf pos =
     (let first = buf ! pos; low4 = first AND 0x0F in
      if first = 0xF0 then
        (if pos + 2 > length buf then None else Some (unat (buf ! (pos + 1)), 2))
      else if first = 0xF1 then
        (if pos + 3 > length buf then None else Some (read_u buf (pos + 1) 2, 3))
      else if first = 0xF2 then
        (if pos + 5 > length buf then None else Some (read_u buf (pos + 1) 4, 5))
      else if first = 0xF3 then
        (if pos + 9 > length buf then None else Some (read_u buf (pos + 1) 8, 9))
      else if low4 < 12 then Some (unat low4, 1)
      else None)"

definition decode_string :: "bytes \<Rightarrow> nat \<Rightarrow> (bytes \<times> nat) option outcome" where
  "decode_string buf pos =
     (if length buf \<le> pos then Ret None
      else if drop_bit 6 (buf ! pos) \<noteq> 3 then Ret None
      else case string_header buf pos of
        None \<Rightarrow> Ret None
      | Some (len, header_size) \<Rightarrow>
          (let data_start = pos + header_size; data_end = wrap_u64 (data_start + len) in
           if data_end > length buf then Ret None
           else if data_start > data_end then Panic
           else Ret (Some (sub buf data_start (data_end - data_start), header_size + len))))"

subsection \<open>Entries and the pack\<close>

datatype ListPackEntry = LInteger int | LString bytes

primrec entry_to_bytes :: "ListPackEntry \<Rightarrow> bytes" where
  "entry_to_bytes (LString b) = b"
| "entry_to_bytes (LInteger i) = show_int i"

record listpack =
  lp_data :: bytes
  lp_count :: nat

definition lp_new :: listpack where
  "lp_new = \<lparr>lp_data = [], lp_count = 0\<rparr>"

primrec entry_body :: "ListPackEntry \<Rightarrow> bytes" where
  "entry_body (LInteger i) = encode_integer [] i"
| "entry_body (LString s) = encode_string [] s"

definition lp_push_back :: "listpack \<Rightarrow> ListPackEntry \<Rightarrow> listpack" where
  "lp_push_back lp entry =
     (let prev_len = length (lp_data lp);
          entry_buf = entry_body entry;
          data_len = length entry_buf;
          total_with_1byte_backlen = prevlen_size prev_len + data_len + 1;
          backlen_size = (if total_with_1byte_backlen < 128 then 1 else 5);
          total_entry_len = prevlen_size prev_len + data_len + backlen_size
      in lp\<lparr>lp_data := encode_backlen (encode_prevlen (lp_data lp) prev_len @ entry_buf) total_entry_len,
            lp_count := lp_count lp + 1\<rparr>)"

definition from_entries :: "ListPackEntry list \<Rightarrow> listpack" where
  "from_entries es = foldl lp_push_back lp_new es"

text \<open>The backward length after a body, and the position after it.\<close>

definition read_backlen :: "bytes \<Rightarrow> nat \<Rightarrow> nat option" where
  "read_backlen d backlen_pos =
     (if d ! backlen_pos < 0xFE then Some (unat (d ! backlen_pos))
      else if backlen_pos + 5 \<le> length d then Some (read_u d (backlen_pos + 1) 4)
      else None)"

definition lp_next :: "bytes \<Rightarrow> nat \<Rightarrow> nat \<Rightarrow> (ListPackEntry \<times> nat \<times> nat) option outcome" where
  "lp_next d pos remaining =
     (if remaining = 0 \<or> length d \<le> pos then Ret None
      else case decode_prevlen d pos of
        None \<Rightarrow> Ret None
      | Some (_, prevlen_sz) \<Rightarrow>
          (let data_start = pos + prevlen_sz in
           if length d \<le> data_start then Ret None
           else obind
             (if drop_bit 6 (d ! data_start) = 3 then
                obind (decode_string d data_start)
                  (\<lambda>r. Ret (map_option (\<lambda>(b, n). (LString b, n)) r))
              else Ret (map_option (\<lambda>(i, n). (LInteger i, n)) (decode_integer d data_start)))
             (\<lambda>r. case r of
                None \<Rightarrow> Ret None
              | Some (entry, data_len) \<Rightarrow>
                  (let backlen_pos = data_start + data_len in
                   if length d \<le> backlen_pos then Ret None
                   else case read_backlen d backlen_pos of
                     None \<Rightarrow> Ret None
                   | Some bl \<Rightarrow>
                       Ret (Some (entry, backlen_pos + prevlen_size bl, remaining - 1))))))"

fun lp_iter :: "bytes \<Rightarrow> nat \<Rightarrow> nat \<Rightarrow> ListPackEntry list outcome" where
  "lp_iter d pos 0 = Ret []"
| "lp_iter d pos (Suc n) =
     obind (lp_next d pos (Suc n))
       (\<lambda>r. case r of
          None \<Rightarrow> Ret []
        | Some (e, pos', _) \<Rightarrow> obind (lp_iter d pos' n) (\<lambda>es. Ret (e # es)))"

definition lp_entries :: "listpack \<Rightarrow> ListPackEntry list outcome" where
  "lp_entries lp = lp_iter (lp_data lp) 0 (lp_count lp)"

text \<open>\<^verbatim>\<open>self.iter().nth(index)\<close>.\<close>

fun lp_nth :: "bytes \<Rightarrow> nat \<Rightarrow> nat \<Rightarrow> nat \<Rightarrow> ListPackEntry option outcome" where
  "lp_nth d pos remaining 0 =
     obind (lp_next d pos remaining) (\<lambda>r. Ret (map_option fst r))"
| "lp_nth d pos remaining (Suc i) =
     obind (lp_next d pos remaining)
       (\<lambda>r. case r of None \<Rightarrow> Ret None | Some (_, pos', rem') \<Rightarrow> lp_nth d pos' rem' i)"

definition lp_get :: "listpack \<Rightarrow> nat \<Rightarrow> ListPackEntry option outcome" where
  "lp_get lp index = lp_nth (lp_data lp) 0 (lp_count lp) index"

definition lp_to_vec :: "listpack \<Rightarrow> bytes list outcome" where
  "lp_to_vec lp = obind (lp_entries lp) (\<lambda>es. Ret (map entry_to_bytes es))"

definition lp_from_vec :: "bytes list \<Rightarrow> listpack" where
  "lp_from_vec items = from_entries (map LString items)"

definition lp_push_front :: "listpack \<Rightarrow> ListPackEntry \<Rightarrow> listpack outcome" where
  "lp_push_front lp entry =
     obind (lp_entries lp) (\<lambda>es. Ret (from_entries (insert_at 0 entry es)))"

definition lp_insert :: "listpack \<Rightarrow> nat \<Rightarrow> ListPackEntry \<Rightarrow> listpack outcome" where
  "lp_insert lp index entry =
     obind (lp_entries lp)
       (\<lambda>es. Ret (from_entries
          (if index > length es then es @ [entry] else insert_at index entry es)))"

definition lp_remove :: "listpack \<Rightarrow> nat \<Rightarrow> (listpack \<times> ListPackEntry option) outcome" where
  "lp_remove lp index =
     obind (lp_entries lp)
       (\<lambda>es. if index < length es
              then Ret (from_entries (remove_at index es), Some (es ! index))
              else Ret (lp, None))"

subsection \<open>Counting the entries of foreign bytes\<close>

definition count_data_len :: "bytes \<Rightarrow> nat \<Rightarrow> nat option" where
  "count_data_len d data_start =
     (let first = d ! data_start; top2 = drop_bit 6 first in
      if top2 = 0 then Some 1
      else if top2 = 1 then Some 2
      else if top2 = 2 then
        (if first = 0x80 then Some 5 else if first = 0x81 then Some 9 else None)
      else map_option (\<lambda>(str_len, header). wrap_u64 (header + str_len)) (string_header d data_start))"

text \<open>One round of the loop: the next position, or \<open>None\<close> for \<^verbatim>\<open>break\<close>.\<close>

definition count_step :: "bytes \<Rightarrow> nat \<Rightarrow> nat option" where
  "count_step d pos =
     (case decode_prevlen d pos of
        None \<Rightarrow> None
      | Some (_, prevlen_sz) \<Rightarrow>
          (let data_start = pos + prevlen_sz in
           if length d \<le> data_start then None
           else case count_data_len d data_start of
             None \<Rightarrow> None
           | Some data_len \<Rightarrow>
               (let entry_total = wrap_u64 (prevlen_sz + data_len);
                    backlen_pos = wrap_u64 (pos + entry_total) in
                if length d \<le> backlen_pos then None
                else map_option (\<lambda>bl. backlen_pos + prevlen_size bl) (read_backlen d backlen_pos))))"

partial_function (option) count_entries :: "bytes \<Rightarrow> nat \<Rightarrow> nat \<Rightarrow> nat option" where
  "count_entries d pos count =
     (if pos < length d then
        (case count_step d pos of None \<Rightarrow> Some count | Some pos' \<Rightarrow> count_entries d pos' (count + 1))
      else Some count)"

definition lp_from_bytes :: "bytes \<Rightarrow> listpack option" where
  "lp_from_bytes d = map_option (\<lambda>n. \<lparr>lp_data = d, lp_count = n\<rparr>) (count_entries d 0 0)"

subsection \<open>Bit-level facts\<close>

lemma uint_top2: "uint (drop_bit 6 (w::byte)) = uint w div 64"
  by (simp add: drop_bit_eq_div uint_div)

lemma top2_eq: "drop_bit 6 (w::byte) = k \<longleftrightarrow> uint w div 64 = uint k"
  by (metis uint_top2 word_uint_eq_iff)

lemma uint_and_mask: "uint ((w::byte) AND 0x3F) = uint w mod 64" "uint (w AND 0x0F) = uint w mod 16"
proof -
  have m: "(0x3F::int) = mask 6" "(0x0F::int) = mask 4" by (simp_all add: mask_eq_exp_minus_1)
  show "uint (w AND 0x3F) = uint w mod 64" "uint (w AND 0x0F) = uint w mod 16"
    by (simp_all add: unsigned_and_eq m take_bit_eq_mask [symmetric] take_bit_eq_mod)
qed

lemma uint_or_disjoint: 
  assumes "uint a AND uint b = 0"
  shows "uint ((a::'a::len word) OR b) = uint a + uint b"
  by (simp add: unsigned_or_eq disjunctive_add_eq_or [OF assms])

lemma int_and_high: "(2 ^ n * a) AND (b::int) = 0" if "0 \<le> b" "b < 2 ^ n"
proof -
  have "take_bit n b = b" using that by (simp add: take_bit_int_eq_self)
  then have "bit b k \<Longrightarrow> k < n" for k by (metis bit_take_bit_iff)
  moreover have "bit (2 ^ n * a) k \<Longrightarrow> n \<le> k" for k
    by (metis bit_push_bit_iff push_bit_eq_mult mult.commute)
  ultimately show ?thesis by (intro bit_eqI) (auto simp: bit_and_iff, fastforce)
qed

lemma uint_or_high:
  assumes "uint (a::'a::len word) = 2 ^ n * c" "uint b < 2 ^ n"
  shows "uint (a OR b) = uint a + uint b"
  using assms int_and_high [of "uint b" n c] by (intro uint_or_disjoint) simp

lemma uint_hdr14: "uint ((0x40::byte) OR (w AND 0x3F)) = 64 + uint w mod 64"
  using uint_or_high [of "0x40::byte" 6 1 "w AND 0x3F"] by (simp add: uint_and_mask)

lemma uint_hdr_short: "uint ((0xE0::byte) OR (w AND 0x0F)) = 0xE0 + uint w mod 16"
  using uint_or_high [of "0xE0::byte" 4 14 "w AND 0x0F"] by (simp add: uint_and_mask)

lemma uint_raw14:
  fixes f l :: byte
  shows "uint (push_bit 8 (ucast (f AND 0x3F) :: 16 word) OR ucast l) = 256 * (uint f mod 64) + uint l"
proof -
  have a: "uint (push_bit 8 (ucast (f AND 0x3F) :: 16 word)) = 256 * (uint f mod 64)"
    unfolding unsigned_push_bit_eq unsigned_ucast_eq uint_and_mask
    by (simp add: push_bit_eq_mult take_bit_eq_mod)
  have "uint (ucast l :: 16 word) = uint l" 
    using uint_lt2p [of l] by (simp add: unsigned_ucast_eq take_bit_eq_mod)
  then show ?thesis using a uint_or_high [of "push_bit 8 (ucast (f AND 0x3F) :: 16 word)" 8 "uint f mod 64" "ucast l"]
      uint_lt2p [of l] by simp
qed

lemma sign14:
  assumes "uint (raw :: 16 word) < 16384"
  shows "raw AND 0x2000 \<noteq> 0 \<longleftrightarrow> 8192 \<le> uint raw"
proof -
  have "(0x2000 :: 16 word) = 2 ^ 13" by simp
  then have "raw AND 0x2000 \<noteq> 0 \<longleftrightarrow> bit raw 13"
    by (metis and_exp_eq_0_iff_not_bit)
  also have "\<dots> \<longleftrightarrow> odd (uint raw div 8192)" 
    using bit_iff_odd [of "uint raw" 13] by (simp add: bit_uint_iff)
  also have "\<dots> \<longleftrightarrow> 8192 \<le> uint raw"
  proof (cases "8192 \<le> uint raw")
    case True
    with assms have "uint raw div 8192 = 1" by (simp add: div_pos_geq)
    with True show ?thesis by simp
  next
    case False
    then show ?thesis by (simp add: div_pos_pos_trivial)
  qed
  finally show ?thesis .
qed
lemma nth_pre: "(pre @ ys) ! length pre = ys ! 0" "(pre @ ys) ! (length pre + k) = ys ! k"
  by (simp_all add: nth_append)

lemma nth_pre_Suc: "(pre @ y # ys) ! Suc (length pre) = ys ! 0"
  by (simp add: nth_append)

lemma sub_pre: "sub (pre @ y # ys) (Suc (length pre)) n = take n ys"
  by (simp add: sub_def)

lemma decode_prevlen_encode:
  "\<exists>v. decode_prevlen (pre @ encode_prevlen [] len @ rest) (length pre) = Some (v, prevlen_size len)"
proof (cases "len < 128")
  case True
  then have "(of_nat len :: byte) < 0xFE" by (simp add: word_less_nat_alt unat_of_nat)
  with True show ?thesis by (simp add: decode_prevlen_def encode_prevlen_def prevlen_size_def nth_pre)
next
  case False
  then show ?thesis by (simp add: decode_prevlen_def encode_prevlen_def prevlen_size_def nth_pre)
qed

lemma length_encode_prevlen: "length (encode_prevlen [] len) = prevlen_size len"
  by (simp add: encode_prevlen_def prevlen_size_def)

lemma read_backlen_encode:
  assumes "len < 2 ^ 32"
  shows "read_backlen (pre @ encode_prevlen [] len @ rest) (length pre) = Some len"
proof (cases "len < 128")
  case True
  then have "(of_nat len :: byte) < 0xFE" by (simp add: word_less_nat_alt unat_of_nat)
  with True show ?thesis by (simp add: read_backlen_def encode_prevlen_def nth_pre unat_of_nat)
next
  case False
  then show ?thesis using assms
    by (simp add: read_backlen_def encode_prevlen_def nth_pre read_u_def sub_pre le_uint_le_bytes)
qed

lemma decode_integer_14:
  assumes "drop_bit 6 f = (1::byte)"
  shows "decode_integer (pre @ [f, l] @ rest) (length pre) =
     Some (if (push_bit 8 (ucast (f AND 0x3F) :: 16 word) OR ucast l) AND 0x2000 \<noteq> 0
           then uint (push_bit 8 (ucast (f AND 0x3F) :: 16 word) OR ucast l) - 16384
           else uint (push_bit 8 (ucast (f AND 0x3F) :: 16 word) OR ucast l), 2)"
proof -
  define raw where "raw = (push_bit 8 (ucast (f AND 0x3F) :: 16 word) OR ucast l)"
  have n: "(pre @ [f, l] @ rest) ! length pre = f" "(pre @ [f, l] @ rest) ! (length pre + 1) = l"
    by (simp_all add: nth_append)
  show ?thesis
    unfolding decode_integer_def Let_def n assms raw_def [symmetric] by simp
qed

lemma mod14: "256 * (v mod 65536 div 256 mod 64) + v mod 256 = v mod (16384::int)"
proof -
  have "v mod 65536 = 256 * (v div 256 mod 256) + v mod 256"
    using zmod_zmult2_eq [of 256 v 256] by simp
  then have "v mod 65536 div 256 = v div 256 mod 256" by simp
  then have d: "v mod 65536 div 256 mod 64 = v div 256 mod 64" by (simp add: mod_mod_cancel)
  have "v mod 16384 = v mod (256 * 64)" by simp
  also have "\<dots> = 256 * (v div 256 mod 64) + v mod 256" by (rule zmod_zmult2_eq) simp
  finally show ?thesis by (simp only: d)
qed

lemma decode_integer_encode:
  assumes "i64_ok v"
  shows "decode_integer (pre @ encode_integer [] v @ rest) (length pre)
     = Some (v, length (encode_integer [] v))"
proof -
  consider "0 \<le> v" "v \<le> 63" | "\<not> (0 \<le> v \<and> v \<le> 63)" "-8192 \<le> v" "v \<le> 8191"
    | "\<not> (-8192 \<le> v \<and> v \<le> 8191)" "- (2 ^ 31) \<le> v" "v \<le> 2 ^ 31 - 1"
    | "\<not> (- (2 ^ 31) \<le> v \<and> v \<le> 2 ^ 31 - 1)" by linarith
  then show ?thesis
  proof cases
    case 1
    have u: "uint (word_of_int v :: byte) = v" using 1 by (simp add: uint_word_of_int)
    have t: "drop_bit 6 (word_of_int v :: byte) = 0" unfolding top2_eq u using 1 by simp
    show ?thesis using 1 by (simp add: decode_integer_def encode_integer_def nth_pre t u)
  next
    case 2
    define e where "e = (word_of_int v :: 16 word)"
    define f where "f = (0x40::byte) OR (ucast (drop_bit 8 e) AND 0x3F)"
    define l where "l = (ucast e :: byte)"
    have ue: "uint e = v mod 65536" by (simp add: e_def uint_word_of_int)
    have "uint (ucast (drop_bit 8 e) :: byte) = (uint e div 256) mod 256"
      unfolding unsigned_ucast_eq drop_bit_eq_div by (simp add: uint_div take_bit_eq_mod)
    then have uf: "uint f = 64 + (v mod 65536 div 256) mod 64"
      unfolding f_def uint_hdr14 ue by (simp add: mod_mod_cancel)
    have ul: "uint l = v mod 256"
      unfolding l_def unsigned_ucast_eq ue by (simp add: take_bit_eq_mod mod_mod_cancel)
    have t: "drop_bit 6 f = 1" unfolding top2_eq uf by (simp add: div_add1_eq)
    have "uint f mod 64 = (v mod 65536 div 256) mod 64" unfolding uf by simp
    then have r: "uint (push_bit 8 (ucast (f AND 0x3F) :: 16 word) OR ucast l) = v mod 16384"
      unfolding uint_raw14 ul by (simp add: mod14)
    have "v mod 16384 = (if v < 0 then v + 16384 else v)"
      using 2 mod_pos_pos_trivial [of "v + 16384" 16384] by simp
    with r have r': "uint (push_bit 8 (ucast (f AND 0x3F) :: 16 word) OR ucast l)
        = (if v < 0 then v + 16384 else v)" by simp
    then have s: "(push_bit 8 (ucast (f AND 0x3F) :: 16 word) OR ucast l) AND 0x2000 \<noteq> 0
        \<longleftrightarrow> v < 0"
      using 2 by (subst sign14) auto
    have "encode_integer [] v = [f, l]"
      unfolding encode_integer_def f_def l_def e_def Let_def using 2 by simp
    then show ?thesis using decode_integer_14 [OF t, of pre l rest] by (simp only: s r') simp
  next
    case 3
    have t: "drop_bit 6 (0x80 :: byte) = 2" by (simp add: top2_eq)
    have "le_sint (le_bytes 4 v) = v" by (rule le_sint_le_bytes) (use 3 in simp_all)
    moreover have "encode_integer [] v = 0x80 # le_bytes 4 v" unfolding encode_integer_def using 3 by auto
    ultimately show ?thesis
      by (simp add: decode_integer_def nth_pre t sub_pre)
  next
    case 4
    have t: "drop_bit 6 (0x81 :: byte) = 2" by (simp add: top2_eq)
    have "le_sint (le_bytes 8 v) = v"
      by (rule le_sint_le_bytes) (use assms in \<open>simp_all add: i64_ok_def i64_min_def i64_max_def\<close>)
    moreover have "encode_integer [] v = 0x81 # le_bytes 8 v" unfolding encode_integer_def using 4 by auto
    ultimately show ?thesis
      by (simp add: decode_integer_def nth_pre t sub_pre)
  qed
qed

subsection \<open>Round trips of bodies and entries\<close>

text \<open>Entries whose encoded length fits the 32-bit backward length.\<close>

primrec entry_ok :: "ListPackEntry \<Rightarrow> bool" where
  "entry_ok (LInteger i) = i64_ok i"
| "entry_ok (LString s) = (length s < 2 ^ 32 - 16)"

lemma top2_const: "drop_bit 6 (0xF0::byte) = 3" "drop_bit 6 (0xF1::byte) = 3"
    "drop_bit 6 (0xF2::byte) = 3"
  by (simp_all add: top2_eq)

lemma uint_short_len:
  assumes "n < 12"
  shows "uint ((0xE0::byte) OR (of_nat n AND 0x0F)) = 0xE0 + int n"
  using assms by (simp add: uint_hdr_short unsigned_of_nat take_bit_eq_mod)

lemma short_hdr:
  assumes "n < 12"
  defines "f \<equiv> (0xE0::byte) OR (of_nat n AND 0x0F)"
  shows "drop_bit 6 f = 3" "f \<noteq> 0xF0" "f \<noteq> 0xF1" "f \<noteq> 0xF2" "f \<noteq> 0xF3"
    "unat (f AND 0x0F) = n" "f AND 0x0F < 12"
proof -
  note u = uint_short_len [OF assms(1), folded f_def]
  have "uint (f AND 0x0F) = int n" unfolding uint_and_mask u
    using assms(1) int_mod_pos_eq [of "0xE0 + int n" 16 14 "int n"] by simp
  then show "unat (f AND 0x0F) = n" "f AND 0x0F < 12" using assms(1)
    by (simp_all add: unat_eq_nat_uint word_less_def)
  have "(0xE0 + int n) div 64 = 3"
    using assms(1) int_div_pos_eq [of "0xE0 + int n" 64 3 "32 + int n"] by simp
  then show "drop_bit 6 f = 3" unfolding top2_eq u by simp
  show "f \<noteq> 0xF0" "f \<noteq> 0xF1" "f \<noteq> 0xF2" "f \<noteq> 0xF3" using u assms(1) by auto
qed

lemma string_header_encode:
  assumes "length s < 2 ^ 32"
  shows "\<exists>h. string_header (pre @ encode_string [] s @ rest) (length pre) = Some (length s, h)
     \<and> length (encode_string [] s) = h + length s \<and> drop h (encode_string [] s) = s
     \<and> drop_bit 6 (encode_string [] s ! 0) = 3 \<and> encode_string [] s \<noteq> []"
proof -
  consider "length s < 12" | "\<not> length s < 12" "length s < 256" | "\<not> length s < 256" "length s < 65536"
    | "\<not> length s < 65536" by linarith
  then show ?thesis
  proof cases
    case 1
    then show ?thesis
      by (simp add: string_header_def encode_string_def Let_def nth_pre short_hdr)
  next
    case 2
    then show ?thesis
      by (simp add: string_header_def encode_string_def Let_def nth_pre nth_pre_Suc top2_const unat_of_nat)
  next
    case 3
    then show ?thesis
      by (simp add: string_header_def encode_string_def Let_def nth_pre top2_const read_u_def
          sub_pre le_uint_le_bytes)
  next
    case 4
    then show ?thesis using assms
      by (simp add: string_header_def encode_string_def Let_def nth_pre top2_const read_u_def
          sub_pre le_uint_le_bytes)
  qed
qed

lemma decode_string_encode:
  assumes "length s < 2 ^ 32" and "length (pre @ encode_string [] s @ rest) < 2 ^ 64"
  shows "decode_string (pre @ encode_string [] s @ rest) (length pre)
     = Ret (Some (s, length (encode_string [] s)))"
proof -
  obtain h where h: "string_header (pre @ encode_string [] s @ rest) (length pre) = Some (length s, h)"
    "length (encode_string [] s) = h + length s" "drop h (encode_string [] s) = s"
    "drop_bit 6 (encode_string [] s ! 0) = 3" "encode_string [] s \<noteq> []"
    using string_header_encode [OF assms(1)] by blast
  have w: "wrap_u64 (length pre + h + length s) = length pre + h + length s"
    using assms(2) h(2) by (simp add: wrap_u64_def)
  have "(pre @ encode_string [] s @ rest) ! length pre = encode_string [] s ! 0"
    using h(5) by (simp add: nth_append)
  moreover have "sub (pre @ encode_string [] s @ rest) (length pre + h) (length s) = s"
    using h(2,3) by (simp add: sub_def)
  moreover have "0 < h + length s" using h(2,5) by (metis length_greater_0_conv)
  ultimately show ?thesis using h(1,2,4) w by (auto simp: decode_string_def Let_def)
qed

text \<open>The bytes one \<^verbatim>\<open>push_back\<close> appends, and those of a sequence of them.\<close>

definition enc_entry :: "nat \<Rightarrow> ListPackEntry \<Rightarrow> bytes" where
  "enc_entry prev e =
     (let n = prevlen_size prev + length (entry_body e)
      in encode_prevlen [] prev @ entry_body e @ encode_prevlen [] (n + (if n + 1 < 128 then 1 else 5)))"

fun enc_all :: "nat \<Rightarrow> ListPackEntry list \<Rightarrow> bytes" where
  "enc_all p [] = []"
| "enc_all p (e # es) = enc_entry p e @ enc_all (p + length (enc_entry p e)) es"

lemma enc_entry_not_Nil: "enc_entry p e \<noteq> []"
  by (simp add: enc_entry_def Let_def encode_prevlen_def)

lemma encode_prevlen_app: "encode_prevlen buf n = buf @ encode_prevlen [] n"
  by (simp add: encode_prevlen_def)

lemma encode_backlen_app: "encode_backlen buf n = buf @ encode_prevlen [] n"
  by (simp add: encode_prevlen_def encode_backlen_def)

lemma push_back_data:
  "lp_data (lp_push_back lp e) = lp_data lp @ enc_entry (length (lp_data lp)) e"
  "lp_count (lp_push_back lp e) = Suc (lp_count lp)"
  unfolding lp_push_back_def encode_backlen_app encode_prevlen_app [of "lp_data lp"] enc_entry_def
  by (simp_all add: Let_def)

lemma foldl_push_back:
  "lp_data (foldl lp_push_back lp es) = lp_data lp @ enc_all (length (lp_data lp)) es"
  "lp_count (foldl lp_push_back lp es) = lp_count lp + length es"
  by (induction es arbitrary: lp) (simp_all add: push_back_data)

lemma from_entries_data: "lp_data (from_entries es) = enc_all 0 es" "lp_count (from_entries es) = length es"
  by (simp_all add: from_entries_def foldl_push_back lp_new_def)

lemma from_entries_snoc: "from_entries (es @ [e]) = lp_push_back (from_entries es) e"
  by (simp add: from_entries_def)

lemma entry_body_bounds:
  assumes "entry_ok e"
  shows "entry_body e \<noteq> []" and "length (entry_body e) + 11 < 2 ^ 32"
  using assms by (cases e; simp add: encode_integer_def encode_string_def Let_def)+

lemma top2_integer: "drop_bit 6 (encode_integer [] v ! 0) \<noteq> 3"
proof -
  have a: "drop_bit 6 ((0x40::byte) OR (w AND 0x3F)) \<noteq> 3" for w :: byte
  proof -
    have "(64 + uint w mod 64) div 64 = 1" by (simp add: div_add1_eq)
    then show ?thesis unfolding top2_eq uint_hdr14 by simp
  qed
  have b: "drop_bit 6 (0x80::byte) \<noteq> 3" "drop_bit 6 (0x81::byte) \<noteq> 3" by (simp_all add: top2_eq)
  have c: "drop_bit 6 (word_of_int v :: byte) \<noteq> 3" if "0 \<le> v" "v \<le> 63"
    using that unfolding top2_eq by (simp add: uint_word_of_int)
  show ?thesis unfolding encode_integer_def Let_def using a b c by auto
qed

lemma count_data_len_decode:
  assumes "decode_integer d pos = Some (v, n)"
  shows "count_data_len d pos = Some n"
proof -
  consider "drop_bit 6 (d ! pos) = 0" | "drop_bit 6 (d ! pos) = 1" | "drop_bit 6 (d ! pos) = 2"
    using assms by (auto simp: decode_integer_def Let_def split: if_splits)
  then show ?thesis
    using assms unfolding decode_integer_def count_data_len_def Let_def
    by cases (simp_all split: if_splits)
qed

lemma count_data_len_integer:
  assumes "i64_ok v"
  shows "count_data_len (pre @ encode_integer [] v @ rest) (length pre) = Some (length (encode_integer [] v))"
  by (rule count_data_len_decode) (rule decode_integer_encode [OF assms])

lemma count_data_len_string:
  assumes "length s < 2 ^ 32"
  shows "count_data_len (pre @ encode_string [] s @ rest) (length pre) = Some (length (encode_string [] s))"
proof -
  obtain h where h: "string_header (pre @ encode_string [] s @ rest) (length pre) = Some (length s, h)"
    "length (encode_string [] s) = h + length s"
    "drop_bit 6 (encode_string [] s ! 0) = 3" "encode_string [] s \<noteq> []"
    using string_header_encode [OF assms(1)] by blast
  have "(pre @ encode_string [] s @ rest) ! length pre = encode_string [] s ! 0"
    using h(4) by (simp add: nth_append)
  moreover have "wrap_u64 (h + length s) = h + length s"
    unfolding h(2) [symmetric] using assms by (simp add: wrap_u64_def encode_string_def Let_def)
  ultimately show ?thesis using h(1-3) by (simp add: count_data_len_def Let_def)
qed

lemma count_data_len_body:
  "entry_ok e \<Longrightarrow> count_data_len (pre @ entry_body e @ rest) (length pre) = Some (length (entry_body e))"
  by (cases e) (simp_all add: count_data_len_integer count_data_len_string)

lemma decode_body:
  assumes "entry_ok e" and "length (pre @ entry_body e @ rest) < 2 ^ 64"
  shows "(if drop_bit 6 ((pre @ entry_body e @ rest) ! length pre) = 3 then
            obind (decode_string (pre @ entry_body e @ rest) (length pre))
              (\<lambda>r. Ret (map_option (\<lambda>(b, n). (LString b, n)) r))
          else Ret (map_option (\<lambda>(i, n). (LInteger i, n)) (decode_integer (pre @ entry_body e @ rest) (length pre))))
     = Ret (Some (e, length (entry_body e)))"
proof (cases e)
  case (LInteger i)
  have "(pre @ entry_body e @ rest) ! length pre = encode_integer [] i ! 0"
    using entry_body_bounds(1) [OF assms(1)] LInteger by (simp add: nth_append)
  then show ?thesis using assms LInteger by (simp add: top2_integer decode_integer_encode)
next
  case (LString s)
  have "(pre @ entry_body e @ rest) ! length pre = encode_string [] s ! 0"
    using entry_body_bounds(1) [OF assms(1)] LString by (simp add: nth_append)
  moreover have "drop_bit 6 (encode_string [] s ! 0) = 3"
    using string_header_encode [of s] assms(1) LString by auto
  ultimately show ?thesis using assms LString by (simp add: decode_string_encode)
qed

lemma entry_split:
  obtains t where "enc_entry p e = encode_prevlen [] p @ entry_body e @ encode_prevlen [] t"
    and "length (enc_entry p e) = prevlen_size p + length (entry_body e) + prevlen_size t"
    and "entry_ok e \<Longrightarrow> t < 2 ^ 32"
proof
  let ?n = "prevlen_size p + length (entry_body e)"
  let ?t = "?n + (if ?n + 1 < 128 then 1 else 5)"
  show "enc_entry p e = encode_prevlen [] p @ entry_body e @ encode_prevlen [] ?t"
    by (simp add: enc_entry_def Let_def)
  then show "length (enc_entry p e) = ?n + prevlen_size ?t" by (simp add: length_encode_prevlen)
  show "entry_ok e \<Longrightarrow> ?t < 2 ^ 32"
    using entry_body_bounds(2) [of e] by (auto simp: prevlen_size_def)
qed

lemma entry_layout:
  assumes "entry_ok e" and d: "d = pre @ enc_entry p e @ rest"
  obtains t v where
    "d = (pre @ encode_prevlen [] p) @ entry_body e @ (encode_prevlen [] t @ rest)"
    and "length (pre @ encode_prevlen [] p) = length pre + prevlen_size p"
    and "length (enc_entry p e) = prevlen_size p + length (entry_body e) + prevlen_size t"
    and "decode_prevlen d (length pre) = Some (v, prevlen_size p)"
    and "read_backlen d (length pre + prevlen_size p + length (entry_body e)) = Some t"
    and "length pre < length d" and "length pre + prevlen_size p < length d"
    and "length pre + prevlen_size p + length (entry_body e) < length d"
proof -
  obtain t where t: "enc_entry p e = encode_prevlen [] p @ entry_body e @ encode_prevlen [] t"
    "length (enc_entry p e) = prevlen_size p + length (entry_body e) + prevlen_size t" "t < 2 ^ 32"
    using entry_split [of p e] assms(1) by metis
  obtain v where v: "decode_prevlen d (length pre) = Some (v, prevlen_size p)"
    using decode_prevlen_encode [of pre p "entry_body e @ encode_prevlen [] t @ rest"]
    by (auto simp: d t(1))
  have "read_backlen d (length pre + prevlen_size p + length (entry_body e)) = Some t"
    using read_backlen_encode [OF t(3), of "pre @ encode_prevlen [] p @ entry_body e" rest]
    by (simp add: d t(1) length_encode_prevlen add.assoc)
  moreover have "0 < prevlen_size t" "0 < prevlen_size p" by (simp_all add: prevlen_size_def)
  ultimately show thesis
    by (intro that [of t v] v t(2)) (simp_all add: d t(1) length_encode_prevlen)
qed

lemma lp_next_entry:
  assumes "entry_ok e" and l: "length (pre @ enc_entry p e @ rest) < 2 ^ 64"
  shows "lp_next (pre @ enc_entry p e @ rest) (length pre) (Suc n)
     = Ret (Some (e, length pre + length (enc_entry p e), n))"
proof -
  define d where "d = pre @ enc_entry p e @ rest"
  obtain t v where
    s: "d = (pre @ encode_prevlen [] p) @ entry_body e @ (encode_prevlen [] t @ rest)"
    and ps: "length (pre @ encode_prevlen [] p) = length pre + prevlen_size p"
    and len: "length (enc_entry p e) = prevlen_size p + length (entry_body e) + prevlen_size t"
    and v: "decode_prevlen d (length pre) = Some (v, prevlen_size p)"
    and bl: "read_backlen d (length pre + prevlen_size p + length (entry_body e)) = Some t"
    and c: "length pre < length d" "length pre + prevlen_size p < length d"
      "length pre + prevlen_size p + length (entry_body e) < length d"
    by (rule entry_layout [OF assms(1) d_def])
  have body: "(if drop_bit 6 (d ! (length pre + prevlen_size p)) = 3 then
            obind (decode_string d (length pre + prevlen_size p))
              (\<lambda>r. Ret (map_option (\<lambda>(b, n). (LString b, n)) r))
          else Ret (map_option (\<lambda>(i, n). (LInteger i, n))
             (decode_integer d (length pre + prevlen_size p))))
     = Ret (Some (e, length (entry_body e)))"
    using decode_body [OF assms(1), of "pre @ encode_prevlen [] p" "encode_prevlen [] t @ rest"] l
    unfolding d_def [symmetric] s [symmetric] ps by simp
  show ?thesis
    unfolding d_def [symmetric] lp_next_def v option.case prod.case Let_def
      if_not_P [OF c(2) [unfolded not_le [symmetric]]] body obind.simps
      if_not_P [OF c(3) [unfolded not_le [symmetric]]] bl
    using c(1) by (simp add: len)
qed

lemma count_step_entry:
  assumes "entry_ok e" and l: "length (pre @ enc_entry p e @ rest) < 2 ^ 64"
  shows "count_step (pre @ enc_entry p e @ rest) (length pre)
     = Some (length pre + length (enc_entry p e))"
proof -
  define d where "d = pre @ enc_entry p e @ rest"
  obtain t v where
    s: "d = (pre @ encode_prevlen [] p) @ entry_body e @ (encode_prevlen [] t @ rest)"
    and ps: "length (pre @ encode_prevlen [] p) = length pre + prevlen_size p"
    and len: "length (enc_entry p e) = prevlen_size p + length (entry_body e) + prevlen_size t"
    and v: "decode_prevlen d (length pre) = Some (v, prevlen_size p)"
    and bl: "read_backlen d (length pre + prevlen_size p + length (entry_body e)) = Some t"
    and c: "length pre < length d" "length pre + prevlen_size p < length d"
      "length pre + prevlen_size p + length (entry_body e) < length d"
    by (rule entry_layout [OF assms(1) d_def])
  have "count_data_len d (length pre + prevlen_size p) = Some (length (entry_body e))"
    using count_data_len_body [OF assms(1), of "pre @ encode_prevlen [] p" "encode_prevlen [] t @ rest"]
    unfolding s [symmetric] ps by simp
  moreover have "wrap_u64 (prevlen_size p + length (entry_body e)) = prevlen_size p + length (entry_body e)"
    "wrap_u64 (length pre + (prevlen_size p + length (entry_body e)))
       = length pre + prevlen_size p + length (entry_body e)"
    using c(3) l unfolding d_def [symmetric] wrap_u64_def by simp_all
  ultimately show ?thesis
    unfolding d_def [symmetric] count_step_def v option.case prod.case Let_def
    using c bl by (simp add: len)
qed

subsection \<open>Whole packs\<close>

lemma lp_iter_all:
  assumes "\<forall>e \<in> set es. entry_ok e" and "length (pre @ enc_all p es) < 2 ^ 64"
  shows "lp_iter (pre @ enc_all p es) (length pre) (length es) = Ret es"
  using assms
proof (induction es arbitrary: pre p)
  case Nil
  then show ?case by simp
next
  case (Cons e es)
  have "lp_next (pre @ enc_entry p e @ enc_all (p + length (enc_entry p e)) es) (length pre) (Suc (length es))
      = Ret (Some (e, length pre + length (enc_entry p e), length es))"
    by (rule lp_next_entry) (use Cons.prems in auto)
  then show ?case
    using Cons.IH [of "pre @ enc_entry p e" "p + length (enc_entry p e)"] Cons.prems by simp
qed

lemma lp_nth_all:
  assumes "\<forall>e \<in> set es. entry_ok e" and "length (pre @ enc_all p es) < 2 ^ 64"
  shows "lp_nth (pre @ enc_all p es) (length pre) (length es) i
    = Ret (if i < length es then Some (es ! i) else None)"
  using assms
proof (induction es arbitrary: pre p i)
  case Nil
  then show ?case by (cases i) (simp_all add: lp_next_def)
next
  case (Cons e es)
  have "lp_next (pre @ enc_entry p e @ enc_all (p + length (enc_entry p e)) es) (length pre) (Suc (length es))
      = Ret (Some (e, length pre + length (enc_entry p e), length es))"
    by (rule lp_next_entry) (use Cons.prems in auto)
  then show ?case
    using Cons.IH [of "pre @ enc_entry p e" "p + length (enc_entry p e)"] Cons.prems
    by (cases i) simp_all
qed

lemma count_entries_all:
  assumes "\<forall>e \<in> set es. entry_ok e" and "length (pre @ enc_all p es) < 2 ^ 64"
  shows "count_entries (pre @ enc_all p es) (length pre) c = Some (c + length es)"
  using assms
proof (induction es arbitrary: pre p c)
  case Nil
  then show ?case by (simp add: count_entries.simps)
next
  case (Cons e es)
  let ?d = "pre @ enc_entry p e @ enc_all (p + length (enc_entry p e)) es"
  have "count_step ?d (length pre) = Some (length pre + length (enc_entry p e))"
    by (rule count_step_entry) (use Cons.prems in auto)
  moreover have "length pre < length ?d"
    using enc_entry_not_Nil [of p e] by simp
  ultimately have "count_entries ?d (length pre) c
      = count_entries ?d (length pre + length (enc_entry p e)) (c + 1)"
    by (subst count_entries.simps) simp
  then show ?case
    using Cons.IH [of "pre @ enc_entry p e" "p + length (enc_entry p e)" "c + 1"] Cons.prems by simp
qed

primrec entry_weight :: "ListPackEntry \<Rightarrow> nat" where
  "entry_weight (LInteger i) = 19"
| "entry_weight (LString s) = 19 + length s"

lemma length_enc_entry: "length (enc_entry p e) \<le> entry_weight e"
proof -
  have "length (entry_body e) + 10 \<le> entry_weight e"
    by (cases e) (simp_all add: encode_integer_def encode_string_def Let_def)
  moreover obtain t where "length (enc_entry p e) = prevlen_size p + length (entry_body e) + prevlen_size t"
    using entry_split [of p e] by metis
  moreover have "prevlen_size p \<le> 5" "prevlen_size t \<le> 5" by (simp_all add: prevlen_size_def)
  ultimately show ?thesis by linarith
qed

lemma length_enc_all: "length (enc_all p es) \<le> sum_list (map entry_weight es)"
  by (induction es arbitrary: p) (simp_all add: add_mono length_enc_entry)

definition lp_rep :: "listpack \<Rightarrow> ListPackEntry list \<Rightarrow> bool" where
  "lp_rep lp es \<longleftrightarrow> lp = from_entries es \<and> (\<forall>e \<in> set es. entry_ok e)
     \<and> sum_list (map entry_weight es) < 2 ^ 63"

lemma lp_rep_length: "lp_rep lp es \<Longrightarrow> length (lp_data lp) < 2 ^ 63"
  using length_enc_all [of 0 es] by (auto simp: lp_rep_def from_entries_data)

lemma lp_rep_reads:
  assumes "lp_rep lp es"
  shows "lp_entries lp = Ret es" "lp_get lp i = Ret (if i < length es then Some (es ! i) else None)"
    "lp_from_bytes (lp_data lp) = Some lp" "lp_count lp = length es"
proof -
  have l: "length ([] @ enc_all 0 es) < 2 ^ 64" and ok: "\<forall>e \<in> set es. entry_ok e"
    using lp_rep_length [OF assms] assms by (simp_all add: lp_rep_def from_entries_data)
  have lp: "lp_data lp = enc_all 0 es" "lp_count lp = length es"
    using assms by (simp_all add: lp_rep_def from_entries_data)
  show "lp_entries lp = Ret es" using lp_iter_all [OF ok l] by (simp add: lp_entries_def lp)
  show "lp_get lp i = Ret (if i < length es then Some (es ! i) else None)"
    using lp_nth_all [OF ok l, of i] by (simp add: lp_get_def lp)
  show "lp_from_bytes (lp_data lp) = Some lp"
    using count_entries_all [OF ok l, of 0] lp by (simp add: lp_from_bytes_def)
  show "lp_count lp = length es" by (rule lp(2))
qed

subsection \<open>Operation sequences\<close>

datatype lp_op =
  PushBack ListPackEntry | PushFront ListPackEntry | InsertAt nat ListPackEntry | RemoveAt nat

primrec lp_step :: "lp_op \<Rightarrow> listpack \<Rightarrow> listpack outcome" where
  "lp_step (PushBack e) lp = Ret (lp_push_back lp e)"
| "lp_step (PushFront e) lp = lp_push_front lp e"
| "lp_step (InsertAt i e) lp = lp_insert lp i e"
| "lp_step (RemoveAt i) lp = obind (lp_remove lp i) (\<lambda>(lp', _). Ret lp')"

primrec lp_run :: "lp_op list \<Rightarrow> listpack \<Rightarrow> listpack outcome" where
  "lp_run [] lp = Ret lp"
| "lp_run (c # cs) lp = obind (lp_step c lp) (lp_run cs)"

primrec list_step :: "lp_op \<Rightarrow> ListPackEntry list \<Rightarrow> ListPackEntry list" where
  "list_step (PushBack e) es = es @ [e]"
| "list_step (PushFront e) es = e # es"
| "list_step (InsertAt i e) es = insert_at (min i (length es)) e es"
| "list_step (RemoveAt i) es = (if i < length es then remove_at i es else es)"

primrec op_entry_ok :: "lp_op \<Rightarrow> bool" where
  "op_entry_ok (PushBack e) = entry_ok e"
| "op_entry_ok (PushFront e) = entry_ok e"
| "op_entry_ok (InsertAt i e) = entry_ok e"
| "op_entry_ok (RemoveAt i) = True"

primrec op_weight :: "lp_op \<Rightarrow> nat" where
  "op_weight (PushBack e) = entry_weight e"
| "op_weight (PushFront e) = entry_weight e"
| "op_weight (InsertAt i e) = entry_weight e"
| "op_weight (RemoveAt i) = 0"

lemma weight_insert_at:
  "sum_list (map entry_weight (insert_at i e es)) = entry_weight e + sum_list (map entry_weight es)"
proof -
  have "sum_list (map entry_weight es)
      = sum_list (map entry_weight (take i es)) + sum_list (map entry_weight (drop i es))"
    by (metis append_take_drop_id map_append sum_list_append)
  then show ?thesis by (simp add: insert_at_def)
qed

lemma weight_remove_at:
  "sum_list (map entry_weight (remove_at i es)) \<le> sum_list (map entry_weight es)"
proof (cases "i < length es")
  case True
  have "sum_list (map entry_weight es)
      = sum_list (map entry_weight (take i es)) + (entry_weight (es ! i)
        + sum_list (map entry_weight (drop (Suc i) es)))"
    using id_take_nth_drop [OF True] by (metis list.simps(9) map_append sum_list.Cons sum_list_append)
  then show ?thesis by (simp add: remove_at_def)
next
  case False
  then show ?thesis by (simp add: remove_at_def)
qed

lemma set_remove_at: "set (remove_at i es) \<subseteq> set es"
  by (auto simp: remove_at_def dest: in_set_takeD in_set_dropD)

lemma lp_step_refines:
  assumes r: "lp_rep lp es" and "op_entry_ok c"
    and w: "op_weight c + sum_list (map entry_weight es) < 2 ^ 63"
  shows "\<exists>lp'. lp_step c lp = Ret lp' \<and> lp_rep lp' (list_step c es)
    \<and> sum_list (map entry_weight (list_step c es)) \<le> op_weight c + sum_list (map entry_weight es)"
proof (cases c)
  case (PushBack e)
  then show ?thesis using assms by (auto simp: lp_rep_def from_entries_snoc)
next
  case (PushFront e)
  then show ?thesis using assms
    by (simp add: lp_push_front_def lp_rep_reads(1) [OF r]) (simp add: lp_rep_def insert_at_def)
next
  case (InsertAt i e)
  have i: "(if length es < i then es @ [e] else insert_at i e es) = insert_at (min i (length es)) e es"
    by (simp add: insert_at_def)
  from InsertAt show ?thesis using assms
    by (simp add: lp_insert_def lp_rep_reads(1) [OF r] i del: if_split)
      (simp add: lp_rep_def weight_insert_at)
next
  case (RemoveAt i)
  show ?thesis
  proof (cases "i < length es")
    case True
    have "sum_list (map entry_weight (remove_at i es)) < 2 ^ 63"
      using weight_remove_at [of i es] w by simp
    moreover have "\<forall>e \<in> set (remove_at i es). entry_ok e"
      using r set_remove_at [of i es] by (auto simp: lp_rep_def)
    ultimately show ?thesis using True RemoveAt weight_remove_at [of i es]
      by (simp add: lp_remove_def lp_rep_reads(1) [OF r]) (simp add: lp_rep_def)
  next
    case False
    then show ?thesis using RemoveAt r by (simp add: lp_remove_def lp_rep_reads(1) [OF r])
  qed
qed

lemma lp_run_refines:
  assumes "lp_rep lp es" and "\<forall>c \<in> set cs. op_entry_ok c"
    and "sum_list (map op_weight cs) + sum_list (map entry_weight es) < 2 ^ 63"
  shows "\<exists>lp'. lp_run cs lp = Ret lp' \<and> lp_rep lp' (fold list_step cs es)"
  using assms
proof (induction cs arbitrary: lp es)
  case Nil
  then show ?case by simp
next
  case (Cons c cs)
  obtain lp' where l: "lp_step c lp = Ret lp'" "lp_rep lp' (list_step c es)"
    "sum_list (map entry_weight (list_step c es)) \<le> op_weight c + sum_list (map entry_weight es)"
    using lp_step_refines [OF Cons.prems(1), of c] Cons.prems(2,3) by auto
  from Cons.IH [OF l(2)] Cons.prems(2,3) l(1,3) show ?case by auto
qed

lemma lp_new_rep: "lp_rep lp_new []"
  by (simp add: lp_rep_def from_entries_def)

subsection \<open>Properties\<close>

text \<open>
  C8. Any sequence of pushes, insertions and removals on a list pack returns, and refines
  the same sequence on a list: iteration, indexing and the stored count read back exactly
  that list, and recounting the raw bytes rebuilds the same pack. The entries are 64-bit
  integers and strings shorter than \<open>2 ^ 32 - 16\<close> bytes, and the bytes ever written stay
  below \<open>2 ^ 63\<close>, the largest size of an allocation.
\<close>

theorem listpack_refines_list:
  assumes "\<forall>c \<in> set cs. op_entry_ok c" and "sum_list (map op_weight cs) < 2 ^ 63"
  shows "\<exists>lp. lp_run cs lp_new = Ret lp
    \<and> lp_entries lp = Ret (fold list_step cs [])
    \<and> lp_count lp = length (fold list_step cs [])
    \<and> (\<forall>i. lp_get lp i = Ret (if i < length (fold list_step cs [])
                               then Some (fold list_step cs [] ! i) else None))
    \<and> lp_from_bytes (lp_data lp) = Some lp"
proof -
  obtain lp where "lp_run cs lp_new = Ret lp" "lp_rep lp (fold list_step cs [])"
    using lp_run_refines [OF lp_new_rep assms(1)] assms(2) by auto
  then show ?thesis using lp_rep_reads [of lp "fold list_step cs []"] by auto
qed

theorem listpack_refines_list_witness:
  "\<exists>lp. lp_run [PushBack (LInteger (-5)), PushFront (LString (ascii ''ab'')),
               InsertAt 9 (LInteger 70000), RemoveAt 0] lp_new = Ret lp
    \<and> lp_entries lp = Ret [LInteger (-5), LInteger 70000]"
proof -
  define cs where "cs = [PushBack (LInteger (-5)), PushFront (LString (ascii ''ab'')),
               InsertAt 9 (LInteger 70000), RemoveAt 0]"
  have "fold list_step cs [] = [LInteger (-5), LInteger 70000]"
    by (simp add: cs_def insert_at_def remove_at_def)
  moreover have "\<forall>c \<in> set cs. op_entry_ok c" and "sum_list (map op_weight cs) < 2 ^ 63"
    by (simp_all add: cs_def i64_ok_def i64_min_def i64_max_def)
  ultimately show ?thesis
    unfolding cs_def [symmetric] using listpack_refines_list [of cs] by auto
qed

text \<open>The bytes of one small integer entry followed by a string whose 64-bit length wraps the offset.\<close>

definition lp_loop_bytes :: bytes where
  "lp_loop_bytes = [0, 0, 3, 0, 0xF3, 0xF5, 0xFF, 0xFF, 0xFF, 0xFF, 0xFF, 0xFF, 0xFF]"

definition lp_panic_bytes :: bytes where
  "lp_panic_bytes = [0, 0xF3, 0xF7, 0xFF, 0xFF, 0xFF, 0xFF, 0xFF, 0xFF, 0xFF]"

lemmas lp_eval = decode_prevlen_def count_data_len_def string_header_def read_backlen_def
  read_u_def sub_def prevlen_size_def wrap_u64_def top2_eq

lemma count_step_loop: "count_step lp_loop_bytes 0 = Some 3" "count_step lp_loop_bytes 3 = Some 3"
  unfolding count_step_def lp_loop_bytes_def Let_def by (simp_all add: lp_eval)

lemma count_entries_loop: "count_entries lp_loop_bytes 3 c = None"
proof -
  have l: "length lp_loop_bytes = 13" by (simp add: lp_loop_bytes_def)
  have "\<not> (p = 3 \<and> d = lp_loop_bytes)" if "count_entries d p c = Some r" for d p c r
    using that
  proof (rule count_entries.raw_induct [rotated])
    fix f d p c r
    assume ih: "\<And>d p c r. f d p c = Some r \<Longrightarrow> \<not> (p = 3 \<and> d = lp_loop_bytes)"
      and "(if p < length d then (case count_step d p of None \<Rightarrow> Some c | Some p' \<Rightarrow> f d p' (c + 1))
            else Some c) = Some (r :: nat)"
    then show "\<not> (p = 3 \<and> d = lp_loop_bytes)" by (auto simp: count_step_loop l dest: ih)
  qed
  then show ?thesis by (cases "count_entries lp_loop_bytes 3 c") auto
qed

text \<open>
  On bytes that were not written by the pack itself the reader is not robust: a 64-bit
  string length near \<open>2 ^ 64\<close> makes the offsets wrap, so that rebuilding a pack from
  \<open>lp_loop_bytes\<close> never returns, and a pack rebuilt from \<open>lp_panic_bytes\<close> panics as soon
  as it is iterated.
\<close>

theorem listpack_foreign_bytes:
  "lp_from_bytes lp_loop_bytes = None
   \<and> (\<exists>lp. lp_from_bytes lp_panic_bytes = Some lp \<and> lp_entries lp = Panic)"
proof
  have "count_entries lp_loop_bytes 0 0 = count_entries lp_loop_bytes 3 1"
    by (subst count_entries.simps) (simp add: count_step_loop, simp add: lp_loop_bytes_def)
  then show "lp_from_bytes lp_loop_bytes = None"
    by (simp add: lp_from_bytes_def count_entries_loop)
  have s: "count_step lp_panic_bytes 0 = Some 6" "count_step lp_panic_bytes 6 = None"
    unfolding count_step_def lp_panic_bytes_def Let_def by (simp_all add: lp_eval)
  have l: "length lp_panic_bytes = 10" by (simp add: lp_panic_bytes_def)
  have "count_entries lp_panic_bytes 6 1 = Some 1" by (subst count_entries.simps) (simp add: s)
  then have "count_entries lp_panic_bytes 0 0 = Some 1"
    by (subst count_entries.simps) (simp add: s l)
  then have "lp_from_bytes lp_panic_bytes = Some \<lparr>lp_data = lp_panic_bytes, lp_count = 1\<rparr>"
    by (simp add: lp_from_bytes_def)
  moreover have "lp_entries \<lparr>lp_data = lp_panic_bytes, lp_count = 1\<rparr> = Panic"
    by (simp add: lp_entries_def lp_next_def decode_string_def lp_panic_bytes_def lp_eval)
  ultimately show "\<exists>lp. lp_from_bytes lp_panic_bytes = Some lp \<and> lp_entries lp = Panic" by blast
qed

end
