(* ===== verification/Data_Types.thy ===== *)
theory Data_Types
  imports IntSet ListPack
begin

text \<open>
  The value types of \<^verbatim>\<open>crates/storage/src/lib.rs\<close>: \<^verbatim>\<open>DataType\<close> with its two compact encodings,
  sorted sets with their score index, streams with their identifiers and consumer groups.
  \<^verbatim>\<open>BTreeMap\<close> and \<^verbatim>\<open>HashMap\<close> are dictionaries, \<^verbatim>\<open>BTreeSet\<close> and \<^verbatim>\<open>HashSet\<close> lists without
  repetitions; ordered iteration sorts them. A score is an \<^verbatim>\<open>OrderedFloat\<close>, a third-party
  wrapper with a total order: the type variable \<open>'s\<close> of class \<open>linorder\<close>.
  Instants and durations are nanoseconds.
\<close>

type_synonym instant = nat
type_synonym duration = nat

subsection \<open>Sorted sets\<close>

record 's ZSetData =
  scores :: "('s, bytes list) dict"
  members :: "(bytes, 's) dict"

definition zset_new :: "'s ZSetData" where
  "zset_new = \<lparr>scores = [], members = []\<rparr>"

text \<open>Drop a member from the bucket of its old score, and the bucket when it is empty.\<close>

definition zset_unindex :: "bytes \<Rightarrow> 's \<Rightarrow> ('s, bytes list) dict \<Rightarrow> ('s, bytes list) dict" where
  "zset_unindex member old_score sc =
     (case dict_get sc old_score of
        None \<Rightarrow> sc
      | Some bucket \<Rightarrow>
          (let bucket' = fst (hset_remove member bucket)
           in if bucket' = [] then dict_del old_score sc else dict_put old_score bucket' sc))"

definition zset_add :: "bytes \<Rightarrow> 's \<Rightarrow> 's ZSetData \<Rightarrow> 's ZSetData" where
  "zset_add member score z =
     (let sc = (case dict_get (members z) member of
                  Some old_score \<Rightarrow> zset_unindex member old_score (scores z)
                | None \<Rightarrow> scores z);
          bucket = unwrap_or [] (dict_get sc score)
      in z\<lparr>members := dict_put member score (members z),
           scores := dict_put score (fst (hset_insert member bucket)) sc\<rparr>)"

definition zset_score :: "'s ZSetData \<Rightarrow> bytes \<Rightarrow> 's option" where
  "zset_score z member = dict_get (members z) member"

definition zset_len :: "'s ZSetData \<Rightarrow> nat" where
  "zset_len z = length (members z)"

subsection \<open>Streams\<close>

datatype StreamId = StreamId (sid_ms: nat) (sid_seq: nat)

instantiation StreamId :: linorder
begin

definition less_eq_StreamId :: "StreamId \<Rightarrow> StreamId \<Rightarrow> bool" where
  "less_eq_StreamId a b \<longleftrightarrow> sid_ms a < sid_ms b \<or> sid_ms a = sid_ms b \<and> sid_seq a \<le> sid_seq b"

definition less_StreamId :: "StreamId \<Rightarrow> StreamId \<Rightarrow> bool" where
  "less_StreamId a b \<longleftrightarrow> sid_ms a < sid_ms b \<or> sid_ms a = sid_ms b \<and> sid_seq a < sid_seq b"

instance
  by standard (auto simp: less_eq_StreamId_def less_StreamId_def intro: StreamId.expand)

end

definition sid_show :: "StreamId \<Rightarrow> bytes" where
  "sid_show i = show_nat (sid_ms i) @ [45] @ show_nat (sid_seq i)"

record PendingEntry =
  pe_consumer :: bytes
  pe_delivered_at :: instant
  pe_delivery_count :: nat

record Consumer =
  co_name :: bytes
  co_seen_time :: instant
  co_pending :: "(StreamId, PendingEntry) dict"

record ConsumerGroup =
  cg_name :: bytes
  cg_last_delivered_id :: StreamId
  cg_pending :: "(StreamId, PendingEntry) dict"
  cg_consumers :: "(bytes, Consumer) dict"
  cg_entries_read :: int

definition pending_new :: "instant \<Rightarrow> bytes \<Rightarrow> PendingEntry" where
  "pending_new now c = \<lparr>pe_consumer = c, pe_delivered_at = now, pe_delivery_count = 1\<rparr>"

definition consumer_new :: "instant \<Rightarrow> bytes \<Rightarrow> Consumer" where
  "consumer_new now n = \<lparr>co_name = n, co_seen_time = now, co_pending = []\<rparr>"

definition group_new :: "bytes \<Rightarrow> StreamId \<Rightarrow> int \<Rightarrow> ConsumerGroup" where
  "group_new n i r = \<lparr>cg_name = n, cg_last_delivered_id = i, cg_pending = [], cg_consumers = [],
     cg_entries_read = r\<rparr>"

record StreamData =
  st_entries :: "(StreamId, (bytes \<times> bytes) list) dict"
  st_groups :: "(bytes, ConsumerGroup) dict"
  st_last_id :: StreamId
  st_deleted_ids :: "StreamId list"

definition stream_new :: StreamData where
  "stream_new = \<lparr>st_entries = [], st_groups = [], st_last_id = StreamId 0 0, st_deleted_ids = []\<rparr>"

text \<open>The sequence number is a \<^verbatim>\<open>u64\<close>, so its successor wraps.\<close>

definition stream_add :: "StreamId \<Rightarrow> (bytes \<times> bytes) list \<Rightarrow> StreamData \<Rightarrow> StreamData" where
  "stream_add i flds s =
     (let last = st_last_id s;
          s' = (if sid_ms i > sid_ms last \<or> (sid_ms i = sid_ms last \<and> sid_seq i \<ge> sid_seq last)
                then s\<lparr>st_last_id := StreamId (sid_ms i) (wrap_u64 (sid_seq i + 1))\<rparr> else s)
      in s'\<lparr>st_entries := dict_put i flds (st_entries s')\<rparr>)"

definition stream_generate_id :: "nat \<Rightarrow> StreamId option \<Rightarrow> StreamData \<Rightarrow> bytes + StreamId" where
  "stream_generate_id now_ms requested s =
     (let last = st_last_id s in
      case requested of
        Some i \<Rightarrow>
          if sid_ms i = 0 \<and> sid_seq i = 0
          then Inl (ascii ''ERR The ID specified in XADD must be greater than 0-0'')
          else if sid_ms i < sid_ms last \<or> (sid_ms i = sid_ms last \<and> sid_seq i \<le> sid_seq last)
          then Inl (ascii ''ERR The ID specified in XADD is equal or smaller than the target stream top item'')
          else Inr i
      | None \<Rightarrow> Inr (StreamId now_ms (if now_ms = sid_ms last then sid_seq last else 0)))"

subsection \<open>Values\<close>

datatype 's DataType =
    DString bytes
  | DList "bytes list"
  | DHash "(bytes, bytes) dict"
  | DSet "bytes list"
  | DZSet "'s ZSetData"
  | DStream StreamData
  | DListPack listpack
  | DIntSet intset

text \<open>The textual members of a packed integer set, collected into a \<^verbatim>\<open>HashSet\<close>.\<close>

definition intset_members :: "intset \<Rightarrow> bytes list" where
  "intset_members s = remdups (map show_int (intset_to_vec s))"

fun upgrade_to_list :: "'s DataType \<Rightarrow> 's DataType outcome" where
  "upgrade_to_list (DListPack lp) = obind (lp_to_vec lp) (\<lambda>v. Ret (DList v))"
| "upgrade_to_list d = Ret d"

fun upgrade_to_set :: "'s DataType \<Rightarrow> 's DataType" where
  "upgrade_to_set (DIntSet s) = DSet (intset_members s)"
| "upgrade_to_set d = d"

fun maybe_upgrade_list :: "nat \<Rightarrow> 's DataType \<Rightarrow> 's DataType outcome" where
  "maybe_upgrade_list threshold (DListPack lp) =
     (if lp_count lp > threshold then upgrade_to_list (DListPack lp) else Ret (DListPack lp))"
| "maybe_upgrade_list threshold d = Ret d"

fun maybe_upgrade_intset :: "nat \<Rightarrow> 's DataType \<Rightarrow> 's DataType" where
  "maybe_upgrade_intset threshold (DIntSet s) =
     (if is_length s > threshold then upgrade_to_set (DIntSet s) else DIntSet s)"
| "maybe_upgrade_intset threshold d = d"

fun is_list_type :: "'s DataType \<Rightarrow> bool" where
  "is_list_type (DList _) = True"
| "is_list_type (DListPack _) = True"
| "is_list_type _ = False"

fun is_set_type :: "'s DataType \<Rightarrow> bool" where
  "is_set_type (DSet _) = True"
| "is_set_type (DIntSet _) = True"
| "is_set_type _ = False"

text \<open>
  \<^verbatim>\<open>as_list_mut\<close> and \<^verbatim>\<open>as_set_mut\<close> upgrade the value in place and lend its inner collection:
  the upgraded value together with the collection, which the caller writes back.
\<close>

definition as_list_mut :: "'s DataType \<Rightarrow> ('s DataType \<times> bytes list option) outcome" where
  "as_list_mut d = obind (upgrade_to_list d)
     (\<lambda>d'. Ret (d', case d' of DList l \<Rightarrow> Some l | _ \<Rightarrow> None))"

definition as_set_mut :: "'s DataType \<Rightarrow> 's DataType \<times> bytes list option" where
  "as_set_mut d = (let d' = upgrade_to_set d in (d', case d' of DSet s \<Rightarrow> Some s | _ \<Rightarrow> None))"

fun list_len :: "'s DataType \<Rightarrow> nat option" where
  "list_len (DList l) = Some (length l)"
| "list_len (DListPack lp) = Some (lp_count lp)"
| "list_len _ = None"

fun list_at :: "'s DataType \<Rightarrow> nat \<Rightarrow> bytes option outcome" where
  "list_at (DList l) i = Ret (if i < length l then Some (l ! i) else None)"
| "list_at (DListPack lp) i = obind (lp_get lp i) (\<lambda>e. Ret (map_option entry_to_bytes e))"
| "list_at _ i = Ret None"

definition list_get :: "'s DataType \<Rightarrow> int \<Rightarrow> bytes option outcome" where
  "list_get d index =
     (case list_len d of
        None \<Rightarrow> Ret None
      | Some n \<Rightarrow>
          (let len = int n; i = (if index < 0 then len + index else index) in
           if i < 0 \<or> i \<ge> len then Ret None else list_at d (nat i)))"

text \<open>The first \<open>k\<close> elements; a list pack decodes no entry beyond them.\<close>

fun list_prefix :: "'s DataType \<Rightarrow> nat \<Rightarrow> bytes list option outcome" where
  "list_prefix (DList l) k = Ret (Some (take k l))"
| "list_prefix (DListPack lp) k =
     obind (lp_iter (lp_data lp) 0 (min k (lp_count lp))) (\<lambda>es. Ret (Some (map entry_to_bytes es)))"
| "list_prefix _ k = Ret None"

definition list_range :: "'s DataType \<Rightarrow> int \<Rightarrow> int \<Rightarrow> bytes list option outcome" where
  "list_range d start stop =
     (case list_len d of
        None \<Rightarrow> Ret None
      | Some len \<Rightarrow>
          (let s = as_usize (if start < 0 then max (int len + start) 0 else start);
               e = as_usize (if stop < 0 then max (int len + stop) (-1) else min stop (int len - 1))
           in if s > e \<or> s \<ge> len then Ret (Some [])
              else let n = wrap_u64 (e - s + 1)
                   in obind (list_prefix d (s + n)) (\<lambda>r. Ret (map_option (drop s) r))))"

fun to_set_clone :: "'s DataType \<Rightarrow> bytes list option" where
  "to_set_clone (DSet s) = Some s"
| "to_set_clone (DIntSet s) = Some (intset_members s)"
| "to_set_clone _ = None"

fun set_len :: "'s DataType \<Rightarrow> nat option" where
  "set_len (DSet s) = Some (length s)"
| "set_len (DIntSet s) = Some (is_length s)"
| "set_len _ = None"

fun set_contains :: "'s DataType \<Rightarrow> bytes \<Rightarrow> bool option" where
  "set_contains (DSet s) member = Some (member \<in> set s)"
| "set_contains (DIntSet s) member = map_option (\<lambda>v. intset_contains v s) (bytes_i64 member)"
| "set_contains _ member = None"


subsection \<open>The score index\<close>

definition zset_inv :: "'s ZSetData \<Rightarrow> bool" where
  "zset_inv z \<longleftrightarrow> dict_wf (scores z) \<and> dict_wf (members z)
     \<and> (\<forall>s b. dict_get (scores z) s = Some b \<longrightarrow> b \<noteq> [] \<and> distinct b)
     \<and> (\<forall>m s. dict_get (members z) m = Some s
           \<longleftrightarrow> (\<exists>b. dict_get (scores z) s = Some b \<and> m \<in> set b))"

text \<open>Iteration over the score index: buckets by score, members in byte order.\<close>

definition zset_ranked :: "'s::linorder ZSetData \<Rightarrow> ('s \<times> bytes) list" where
  "zset_ranked z = concat (map (\<lambda>(s, b). map (\<lambda>m. (s, m)) (sort b)) (sort_key fst (scores z)))"

definition indexed :: "('s, bytes list) dict \<Rightarrow> 's \<Rightarrow> bytes \<Rightarrow> bool" where
  "indexed sc s m \<longleftrightarrow> (\<exists>b. dict_get sc s = Some b \<and> m \<in> set b)"

definition buckets_ok :: "('s, bytes list) dict \<Rightarrow> bool" where
  "buckets_ok sc \<longleftrightarrow> dict_wf sc \<and> (\<forall>s b. dict_get sc s = Some b \<longrightarrow> b \<noteq> [] \<and> distinct b)"

lemma unindex_ok: "buckets_ok sc \<Longrightarrow> buckets_ok (zset_unindex m s sc)"
  by (auto simp: buckets_ok_def zset_unindex_def Let_def hset_remove_def dict_simps hashmap.wf_put
      hashmap.wf_del distinct_removeAll split: option.splits if_splits)

lemma unindex_indexed:
  "indexed (zset_unindex m s sc) s' m' \<longleftrightarrow> indexed sc s' m' \<and> (s' = s \<longrightarrow> m' \<noteq> m)"
proof (cases "dict_get sc s")
  case None
  then show ?thesis by (auto simp: zset_unindex_def indexed_def)
next
  case (Some b)
  then show ?thesis
    by (auto simp: zset_unindex_def indexed_def Let_def hset_remove_def dict_simps
        removeAll_filter_not_eq filter_empty_conv)
qed

lemma insert_bucket_ok:
  assumes "buckets_ok sc"
  shows "buckets_ok (dict_put s (fst (hset_insert m (unwrap_or [] (dict_get sc s)))) sc)"
  using assms by (cases "dict_get sc s")
    (auto simp: buckets_ok_def hset_insert_def dict_simps hashmap.wf_put split: if_splits)

lemma insert_indexed:
  "indexed (dict_put s (fst (hset_insert m (unwrap_or [] (dict_get sc s)))) sc) s' m'
    \<longleftrightarrow> indexed sc s' m' \<or> (s' = s \<and> m' = m)"
  by (cases "dict_get sc s") (auto simp: indexed_def hset_insert_def dict_simps split: if_splits)

lemma zset_inv_alt: "zset_inv z \<longleftrightarrow> buckets_ok (scores z) \<and> dict_wf (members z)
    \<and> (\<forall>m s. dict_get (members z) m = Some s \<longleftrightarrow> indexed (scores z) s m)"
  by (auto simp: zset_inv_def buckets_ok_def indexed_def)

lemma zset_add_inv [inv_intros]:
  assumes "zset_inv z"
  shows "zset_inv (zset_add m s z)"
proof -
  note z = assms [unfolded zset_inv_alt]
  define sc where "sc = (case dict_get (members z) m of
      Some old \<Rightarrow> zset_unindex m old (scores z) | None \<Rightarrow> scores z)"
  have sc: "buckets_ok sc" using z unindex_ok by (auto simp: sc_def split: option.splits)
  have i: "indexed sc s' m' \<longleftrightarrow> indexed (scores z) s' m' \<and> m' \<noteq> m" for s' m'
  proof (cases "dict_get (members z) m")
    case None
    then have "\<not> indexed (scores z) s' m" using z by (metis option.distinct(1))
    then show ?thesis using None by (auto simp: sc_def)
  next
    case (Some old)
    then have "indexed (scores z) s' m \<longleftrightarrow> s' = old" using z by (metis option.inject)
    then show ?thesis using Some by (auto simp: sc_def unindex_indexed)
  qed
  define sc' where "sc' = dict_put s (fst (hset_insert m (unwrap_or [] (dict_get sc s)))) sc"
  have e: "zset_add m s z = z\<lparr>members := dict_put m s (members z), scores := sc'\<rparr>"
    by (simp add: zset_add_def sc_def sc'_def Let_def)
  have "dict_get (dict_put m s (members z)) m' = Some s' \<longleftrightarrow> indexed sc' s' m'" for m' s'
    unfolding sc'_def insert_indexed i using z by (auto simp: dict_get_put)
  then show ?thesis
    using z insert_bucket_ok [OF sc] by (simp add: e zset_inv_alt sc'_def hashmap.wf_put)
qed

lemma zset_new_inv: "zset_inv zset_new"
  by (simp add: zset_inv_def zset_new_def dict_wf_def)

lemma zset_add_members: "members (zset_add m s z) = dict_put m s (members z)"
  by (simp add: zset_add_def Let_def)

lemma zset_ranked_set:
  assumes "zset_inv z"
  shows "set (zset_ranked z) = {(s, m). dict_get (members z) m = Some s}"
proof -
  have wf: "distinct (map fst (scores z))" using assms by (simp add: zset_inv_def dict_wf_def)
  have "(s, m) \<in> set (zset_ranked z) \<longleftrightarrow> (\<exists>b. (s, b) \<in> set (scores z) \<and> m \<in> set b)" for s m
    by (auto simp: zset_ranked_def)
  then show ?thesis using assms wf by (auto simp: zset_inv_def)
qed

lemma sorted_wrt_concat_keyed:
  fixes kbs :: "('s::linorder \<times> bytes list) list"
  assumes "sorted (map fst kbs)" "distinct (map fst kbs)" "\<forall>(s, b) \<in> set kbs. distinct b"
  shows "sorted_wrt (\<lambda>(s, m) (s', m'). s < s' \<or> s = s' \<and> m < m')
    (concat (map (\<lambda>(s, b). map (\<lambda>m. (s, m)) (sort b)) kbs))"
  using assms
proof (induction kbs)
  case Nil
  then show ?case by simp
next
  case (Cons kb kbs)
  obtain s b where kb: "kb = (s, b)" by fastforce
  have lt: "s < s'" if "(s', b') \<in> set kbs" for s' b'
    using Cons.prems(1,2) that by (force simp: kb less_le)
  have "sorted_wrt (<) (sort b)" using Cons.prems(3) by (simp add: kb strict_sorted_iff)
  then have "sorted_wrt (\<lambda>(s, m) (s', m'). s < s' \<or> s = s' \<and> m < m') (map (\<lambda>m. (s, m)) (sort b))"
    by (simp add: sorted_wrt_map)
  then show ?case using Cons lt by (auto simp: kb sorted_wrt_append)
qed

lemma zset_ranked_sorted:
  assumes "zset_inv z"
  shows "sorted_wrt (\<lambda>(s, m) (s', m'). s < s' \<or> s = s' \<and> m < m') (zset_ranked z)"
proof -
  have wf: "distinct (map fst (scores z))" using assms by (simp add: zset_inv_def dict_wf_def)
  have "distinct (map fst (sort_key fst (scores z)))"
    using wf by (metis distinct_map distinct_sort set_sort)
  moreover have "\<forall>(s, b) \<in> set (sort_key fst (scores z)). distinct b"
    using assms wf by (auto simp: zset_inv_def)
  ultimately show ?thesis
    unfolding zset_ranked_def by (intro sorted_wrt_concat_keyed) simp_all
qed



subsection \<open>Stream identifiers\<close>

definition stream_inv :: "StreamData \<Rightarrow> bool" where
  "stream_inv s \<longleftrightarrow> dict_wf (st_entries s) \<and> (\<forall>i \<in> dom (dict_get (st_entries s)). i < st_last_id s)"

lemma stream_add_inv [inv_intros]:
  assumes "stream_inv s" and "sid_seq i < u64_max"
  shows "stream_inv (stream_add i f s)"
proof -
  have w: "wrap_u64 (Suc (sid_seq i)) = Suc (sid_seq i)"
    using assms(2) by (simp add: wrap_u64_def u64_max_def)
  have "j < st_last_id s \<Longrightarrow> j < StreamId (sid_ms i) (Suc (sid_seq i))"
    if "sid_ms i > sid_ms (st_last_id s) \<or> sid_ms i = sid_ms (st_last_id s) \<and> sid_seq i \<ge> sid_seq (st_last_id s)" for j
    using that by (auto simp: less_StreamId_def)
  then show ?thesis using assms w
    by (auto simp: stream_inv_def stream_add_def Let_def dict_simps hashmap.wf_put less_StreamId_def)
qed

subsection \<open>Lists and sets behind their encodings\<close>

text \<open>The list or the set a value stands for, whatever its encoding.\<close>

fun data_list :: "'s DataType \<Rightarrow> bytes list option" where
  "data_list (DList l) = Some l"
| "data_list (DListPack lp) =
     (case lp_entries lp of Ret es \<Rightarrow> Some (map entry_to_bytes es) | _ \<Rightarrow> None)"
| "data_list _ = None"

fun data_set :: "'s DataType \<Rightarrow> bytes set option" where
  "data_set (DSet s) = Some (set s)"
| "data_set (DIntSet s) = Some (show_int ` set (intset_to_vec s))"
| "data_set _ = None"

text \<open>Values the server builds: collections without repetitions, packs written by the pack.\<close>

fun data_wf :: "'s DataType \<Rightarrow> bool" where
  "data_wf (DHash h) = dict_wf h"
| "data_wf (DSet s) = distinct s"
| "data_wf (DZSet z) = zset_inv z"
| "data_wf (DStream s) = stream_inv s"
| "data_wf (DListPack lp) = (\<exists>es. lp_rep lp es)"
| "data_wf (DIntSet s) = intset_inv s"
| "data_wf _ = True"

lemma data_list_pack: "lp_rep lp es \<Longrightarrow> data_list (DListPack lp) = Some (map entry_to_bytes es)"
  by (simp add: lp_rep_reads)

lemma list_len_data: "data_wf d \<Longrightarrow> list_len d = map_option length (data_list d)"
  by (cases d) (auto simp: lp_rep_reads)

lemma list_at_data:
  "data_wf d \<Longrightarrow> data_list d = Some xs \<Longrightarrow> list_at d i = Ret (if i < length xs then Some (xs ! i) else None)"
  by (cases d) (auto simp: lp_rep_reads)

lemma upgrade_to_list_data:
  "data_wf d \<Longrightarrow> data_list d = Some xs \<Longrightarrow> upgrade_to_list d = Ret (DList xs)"
  by (cases d) (auto simp: lp_rep_reads lp_to_vec_def)

text \<open>The remaining count only bounds the iteration.\<close>

lemma lp_next_Suc:
  "lp_next d p (Suc k) = obind (lp_next d p 1) (\<lambda>r. Ret (map_option (\<lambda>(e, p', _). (e, p', k)) r))"
proof (cases "length d \<le> p \<or> decode_prevlen d p = None")
  case True
  then show ?thesis by (auto simp: lp_next_def)
next
  case False
  then obtain v sz where v: "decode_prevlen d p = Some (v, sz)" "\<not> length d \<le> p" by auto
  define X where "X = (if drop_bit 6 (d ! (p + sz)) = 3 then
                obind (decode_string d (p + sz)) (\<lambda>r. Ret (map_option (\<lambda>(b, n). (LString b, n)) r))
              else Ret (map_option (\<lambda>(i, n). (LInteger i, n)) (decode_integer d (p + sz))))"
  show ?thesis
  proof (cases X)
    case (Ret r)
    then show ?thesis
      unfolding lp_next_def v option.case prod.case Let_def X_def [symmetric]
      using v(2) by (cases r) (auto split: option.splits)
  qed (unfold lp_next_def v option.case prod.case Let_def X_def [symmetric], use v(2) in auto)
qed

lemma lp_iter_prefix:
  assumes "lp_iter d p n = Ret es" "length es = n" "k \<le> n"
  shows "lp_iter d p k = Ret (take k es)"
  using assms
proof (induction k arbitrary: p n es)
  case 0
  then show ?case by simp
next
  case (Suc k)
  then obtain n' where n: "n = Suc n'" by (cases n) auto
  then obtain e p' q es' where e: "lp_next d p 1 = Ret (Some (e, p', q))"
      "lp_iter d p' n' = Ret es'" "es = e # es'"
    using Suc.prems(1,2) by (auto simp: obind_Ret_iff lp_next_Suc [of d p n'] split: option.splits)
  have "lp_iter d p' k = Ret (take k es')" using Suc.IH [OF e(2)] Suc.prems(2,3) n e(3) by simp
  then show ?case using e(1,3) by (simp add: lp_next_Suc [of d p k])
qed

lemma list_prefix_data:
  assumes "data_wf d" "data_list d = Some xs"
  shows "list_prefix d k = Ret (Some (take k xs))"
proof (cases d)
  case (DListPack lp)
  then obtain es where r: "lp_rep lp es" using assms(1) by auto
  then have "lp_iter (lp_data lp) 0 (min k (lp_count lp)) = Ret (take (min k (lp_count lp)) es)"
    using lp_rep_reads(1,4) [OF r] lp_iter_prefix [of "lp_data lp" 0 "length es" es "min k (length es)"]
    by (simp add: lp_entries_def)
  moreover have "xs = map entry_to_bytes es" using assms(2) data_list_pack [OF r] DListPack by simp
  ultimately show ?thesis using lp_rep_reads(4) [OF r] DListPack
    by (cases "k \<le> length es") (simp_all add: take_map)
qed (use assms in auto)



lemma intset_members_eq: "intset_inv s \<Longrightarrow> intset_members s = map show_int (intset_to_vec s)"
  unfolding intset_members_def
  by (intro distinct_remdups_id)
    (auto simp: distinct_map rep_distinct [OF inv_rep] intro!: inj_onI show_int_inj dest: intset_to_vec_i64)

lemma data_set_clone: "data_wf d \<Longrightarrow> data_set d = map_option set (to_set_clone d)"
  by (cases d) (auto simp: intset_members_eq)

lemma to_set_clone_distinct: "data_wf d \<Longrightarrow> to_set_clone d = Some s \<Longrightarrow> distinct s"
  by (cases d) (auto simp: intset_members_def)

lemma upgrade_to_set_data: "data_wf d \<Longrightarrow> data_wf (upgrade_to_set d) \<and> data_set (upgrade_to_set d) = data_set d"
  by (cases d) (auto simp: intset_members_eq intset_members_def)

lemma set_len_data: "data_wf d \<Longrightarrow> set_len d = map_option card (data_set d)"
proof (cases d)
  case (DIntSet s)
  assume "data_wf d"
  then have i: "intset_inv s" using DIntSet by simp
  have "card (show_int ` set (intset_to_vec s)) = card (set (intset_members s))"
    using intset_members_eq [OF i] by simp
  also have "\<dots> = length (intset_members s)"
    by (rule distinct_card) (simp add: intset_members_def)
  also have "\<dots> = is_length s" using intset_members_eq [OF i] rep_length [OF inv_rep [OF i]] by simp
  finally show ?thesis using DIntSet by simp
qed (auto simp: distinct_card)

lemma set_contains_canonical:
  assumes "data_wf d" "data_set d = Some A" "i64_ok v"
  shows "set_contains d (show_int v) = Some (show_int v \<in> A)"
proof (cases d)
  case (DIntSet s)
  then have i: "intset_inv s" using assms(1) by simp
  have "intset_contains v s \<longleftrightarrow> v \<in> set (intset_to_vec s)"
    using intset_set.isin_abs [OF i assms(3)] .
  also have "\<dots> \<longleftrightarrow> show_int v \<in> A"
    using assms(2,3) DIntSet show_int_inj intset_to_vec_i64 [OF i] by (auto dest: show_int_inj)
  finally show ?thesis using DIntSet assms(3) by (simp add: bytes_i64_show_int)
qed (use assms in auto)

subsection \<open>Ranges\<close>

lemma list_range_data:
  assumes "data_wf d" "data_list d = Some xs"
  shows "list_range d start stop =
    (let n = length xs; s = as_usize (if start < 0 then max (int n + start) 0 else start);
         e = as_usize (if stop < 0 then max (int n + stop) (-1) else min stop (int n - 1))
     in Ret (Some (if s > e \<or> s \<ge> n then [] else take (wrap_u64 (e - s + 1)) (drop s xs))))"
  using list_len_data [OF assms(1)] list_prefix_data [OF assms]
  by (simp add: list_range_def assms(2) Let_def drop_take)

subsection \<open>Properties\<close>

text \<open>
  C7. After any sequence of additions a sorted set agrees with the map of the last score of
  each member, and its score index enumerates exactly these pairs, each once, in the order
  of score and then member.
\<close>

theorem zset_index_consistent:
  fixes ops :: "(bytes \<times> 's::linorder) list"
  defines "z \<equiv> fold (\<lambda>(m, s). zset_add m s) ops zset_new"
  shows "zset_score z = map_of (rev ops)
    \<and> zset_len z = card (dom (map_of (rev ops)))
    \<and> set (zset_ranked z) = {(s, m). map_of (rev ops) m = Some s}
    \<and> sorted_wrt (\<lambda>(s, m) (s', m'). s < s' \<or> s = s' \<and> m < m') (zset_ranked z)"
proof -
  have "zset_inv z \<and> members z = fold (\<lambda>(m, s). dict_put m s) ops []"
  proof -
    have "zset_inv y \<Longrightarrow> zset_inv (fold (\<lambda>(m, s). zset_add m s) ops y)
        \<and> members (fold (\<lambda>(m, s). zset_add m s) ops y) = fold (\<lambda>(m, s). dict_put m s) ops (members y)"
      for y :: "'s ZSetData"
      by (induction ops arbitrary: y) (auto simp: zset_add_inv zset_add_members)
    from this [OF zset_new_inv] show ?thesis by (simp add: z_def zset_new_def)
  qed
  then have i: "zset_inv z" and m: "dict_get (members z) = map_of (rev ops)"
    using hashmap.get_fold_put [of ops "[]"] by simp_all
  have "zset_len z = card (dom (map_of (rev ops)))"
    using i m hashmap.size_card [of "members z"] by (simp add: zset_len_def zset_inv_def)
  moreover have "zset_score z = map_of (rev ops)" using m by (auto simp: zset_score_def)
  ultimately show ?thesis
    using zset_ranked_set [OF i] zset_ranked_sorted [OF i] m by simp
qed

text \<open>
  C18. An automatically generated stream identifier is fresh and larger than every entry, and
  adding the entry keeps this so, provided the clock has not gone back behind the last
  identifier and its sequence number is not exhausted.
\<close>

theorem stream_auto_id_increases:
  assumes "stream_inv s" and "sid_ms (st_last_id s) \<le> now_ms" and "sid_seq (st_last_id s) < u64_max"
  shows "\<exists>i. stream_generate_id now_ms None s = Inr i
    \<and> (\<forall>j \<in> dom (dict_get (st_entries s)). j < i)
    \<and> stream_inv (stream_add i flds s)
    \<and> dict_get (st_entries (stream_add i flds s)) = (dict_get (st_entries s))(i \<mapsto> flds)
    \<and> length (st_entries (stream_add i flds s)) = Suc (length (st_entries s))"
proof -
  define i where "i = StreamId now_ms (if now_ms = sid_ms (st_last_id s) then sid_seq (st_last_id s) else 0)"
  have le: "st_last_id s \<le> i" using assms(2) by (auto simp: i_def less_eq_StreamId_def)
  have lt: "\<forall>j \<in> dom (dict_get (st_entries s)). j < i"
    using assms(1) le by (auto simp: stream_inv_def intro: less_le_trans)
  have "sid_seq i < u64_max" using assms(3) by (auto simp: i_def u64_max_def)
  then have "stream_inv (stream_add i flds s)" by (rule stream_add_inv [OF assms(1)])
  moreover have "st_entries (stream_add i flds s) = dict_put i flds (st_entries s)"
    by (simp add: stream_add_def Let_def)
  moreover have "dict_get (st_entries s) i = None" using lt by (auto simp: domIff)
  ultimately show ?thesis
    using lt assms(1) hashmap.size_put [of "st_entries s" i flds]
    by (intro exI [of _ i]) (simp add: stream_generate_id_def i_def Let_def dict_simps stream_inv_def)
qed

theorem stream_auto_id_increases_witness:
  "\<exists>i. stream_generate_id 7 None stream_new = Inr i
    \<and> dict_get (st_entries (stream_add i [] stream_new)) = [i \<mapsto> []]"
  using stream_auto_id_increases [of stream_new 7 "[]"]
  by (auto simp: stream_inv_def stream_new_def dict_wf_def u64_max_def)

text \<open>
  Explicit and automatic identifiers can go wrong. After an entry with identifier
  \<open>ms-seq\<close> the explicit identifier \<open>ms-(seq + 1)\<close>, although larger than every entry, is refused
  with the message that it is not; and when the clock is behind the last identifier, an
  automatic identifier can be one that exists, whose fields the new entry replaces.
\<close>

theorem stream_id_defects:
  assumes "seq + 1 \<le> u64_max" and "(ms, seq) \<noteq> (0, 0)"
  shows "(let s = stream_add (StreamId ms seq) f stream_new in
        stream_generate_id now_ms (Some (StreamId ms (seq + 1))) s
          = Inl (ascii ''ERR The ID specified in XADD is equal or smaller than the target stream top item''))
    \<and> (let s = stream_add (StreamId 9 0) f (stream_add (StreamId 5 0) f stream_new) in
        stream_generate_id 5 None s = Inr (StreamId 5 0)
        \<and> dict_get (st_entries s) (StreamId 5 0) = Some f
        \<and> dict_get (st_entries (stream_add (StreamId 5 0) g s)) (StreamId 5 0) = Some g)"
  using assms
  by (auto simp: Let_def stream_add_def stream_new_def stream_generate_id_def wrap_u64_def u64_max_def)

theorem stream_id_defects_witness:
  "stream_generate_id 0 (Some (StreamId 5 (1 + 1))) (stream_add (StreamId 5 1) [] stream_new)
     = Inl (ascii ''ERR The ID specified in XADD is equal or smaller than the target stream top item'')"
proof -
  have "1 + 1 \<le> u64_max" "(5 :: nat, 1 :: nat) \<noteq> (0, 0)" by (simp_all add: u64_max_def)
  from stream_id_defects [OF this, where now_ms = 0 and f = "[]" and g = "[]"] show ?thesis
    unfolding Let_def by (rule conjunct1)
qed

text \<open>
  A list range is the inclusive slice between the two indices, negative ones counted from
  the end and both clipped to the list, whichever encoding the list has; this holds as long
  as the stop index does not lie before the first element.
\<close>

theorem list_range_spec:
  fixes d :: "'s DataType"
  assumes "data_wf d" and "data_list d = Some xs" and "int (length xs) \<le> i64_max"
    and "i64_ok start" and "i64_ok stop" and "- int (length xs) \<le> stop"
  shows "list_range d start stop =
    (let n = int (length xs);
         lo = max 0 (if start < 0 then n + start else start);
         hi = min (n - 1) (if stop < 0 then n + stop else stop)
     in Ret (Some (if lo \<le> hi then take (nat (hi - lo + 1)) (drop (nat lo) xs) else [])))"
proof -
  define n where "n = length xs"
  define lo where "lo = max 0 (if start < 0 then int n + start else start)"
  define hi where "hi = min (int n - 1) (if stop < 0 then int n + stop else stop)"
  define e where "e = (if stop < 0 then max (int n + stop) (-1) else min stop (int n - 1))"
  have s: "as_usize (if start < 0 then max (int n + start) 0 else start) = nat lo"
    using assms(3,4) by (auto simp: lo_def n_def as_usize_def i64_ok_def i64_max_def i64_min_def max_def)
  show ?thesis
  proof (cases "n = 0 \<or> int n \<le> lo")
    case True
    then have "\<not> lo \<le> hi" "n \<le> nat lo" by (auto simp: hi_def lo_def)
    then show ?thesis
      unfolding list_range_data [OF assms(1,2)] Let_def n_def [symmetric] s lo_def [symmetric] hi_def [symmetric]
      by simp
  next
    case False
    then have e: "e = hi" "0 \<le> hi" "hi < int n"
      using assms(6) by (auto simp: e_def hi_def n_def)
    then have eu: "as_usize e = nat hi"
      using assms(3) by (simp add: as_usize_def n_def i64_max_def)
    have w: "wrap_u64 (nat hi - nat lo + 1) = nat (hi - lo + 1)" if "lo \<le> hi"
      using that e assms(3) by (simp add: wrap_u64_def n_def i64_max_def nat_diff_distrib' lo_def nat_add_distrib)
    have "lo \<le> hi \<longleftrightarrow> \<not> nat lo > nat hi" "nat lo < n" using e False by (auto simp: lo_def)
    then show ?thesis
      unfolding list_range_data [OF assms(1,2)] Let_def n_def [symmetric] s e_def [symmetric] eu
        lo_def [symmetric] hi_def [symmetric]
      using w by simp
  qed
qed

theorem list_range_spec_witness:
  "list_range (DList [[1], [2], [3]] :: nat DataType) (-2) 9 = Ret (Some [[2], [3]])"
  using list_range_spec [of "DList [[1], [2], [3]] :: nat DataType" "[[1], [2], [3]]" "-2" 9]
  by (simp add: i64_ok_def i64_min_def i64_max_def Let_def)

text \<open>
  When the stop index lies before the first element the range should be empty, but the
  stop wraps to the largest \<^verbatim>\<open>usize\<close>: the range runs from the start to the end of the list,
  except for a start of zero, where the length of the range wraps back to zero.
\<close>

theorem list_range_stop_underflow:
  fixes d :: "'s DataType"
  assumes "data_wf d" and "data_list d = Some xs" and "int (length xs) \<le> i64_max"
    and "0 \<le> start" and "i64_ok start" and "stop < - int (length xs)"
  shows "list_range d start stop = Ret (Some (if start = 0 then [] else drop (nat start) xs))"
proof -
  have s: "as_usize start = nat start" using assms(4,5) by (rule as_usize_nonneg)
  have e: "as_usize (-1) = 2 ^ 64 - 1" by (simp add: as_usize_def)
  have "max (int (length xs) + stop) (- 1) = -1" using assms(6) by simp
  moreover have "nat start \<le> 2 ^ 63" using assms(4,5) by (simp add: i64_ok_def i64_max_def nat_le_iff)
  moreover have "length xs \<le> wrap_u64 (2 ^ 64 - 1 - nat start + 1)" if "0 < nat start" "nat start < length xs"
    using that assms(3) by (simp add: wrap_u64_def i64_max_def)
  moreover have "wrap_u64 (2 ^ 64 - 1 - nat 0 + 1) = 0" by (simp add: wrap_u64_def)
  ultimately show ?thesis
    using assms(4,6) unfolding list_range_data [OF assms(1,2)] Let_def
    by (auto simp: s e as_usize_def [of 0])
qed

theorem list_range_stop_underflow_witness:
  "list_range (DList [[1], [2], [3]] :: nat DataType) 1 (-100) = Ret (Some [[2], [3]])"
  using list_range_stop_underflow [of "DList [[1], [2], [3]] :: nat DataType" "[[1], [2], [3]]" 1 "-100"]
  by (simp add: i64_ok_def i64_min_def i64_max_def)

text \<open>
  The two encodings of a set answer alike on canonical integers and on cardinality, and
  upgrading keeps the set; but membership of other texts depends on the encoding: the packed
  form knows \<open>007\<close> when it holds \<open>7\<close> and gives no answer for a text that is not a number,
  the unpacked form says no to both.
\<close>

theorem set_encodings:
  fixes d :: "'s DataType"
  assumes "data_wf d" and "data_set d = Some A"
  shows "data_set (upgrade_to_set d) = Some A
    \<and> set_len d = Some (card A) \<and> set_len (upgrade_to_set d) = Some (card A)
    \<and> (\<forall>v. i64_ok v \<longrightarrow> set_contains d (show_int v) = Some (show_int v \<in> A)
           \<and> set_contains (upgrade_to_set d) (show_int v) = Some (show_int v \<in> A))
    \<and> (let p = DIntSet (fst (intset_add 7 intset_new)) :: 's DataType in
         set_contains p (ascii ''007'') = Some True \<and> set_contains (upgrade_to_set p) (ascii ''007'') = Some False
         \<and> set_contains p (ascii ''a'') = None \<and> set_contains (upgrade_to_set p) (ascii ''a'') = Some False)"
proof -
  define p where "p = (DIntSet (fst (intset_add 7 intset_new)) :: 's DataType)"
  have 7: "i64_ok 7" by (simp add: i64_ok_def i64_min_def i64_max_def)
  note i = intset_set.inv_add [OF intset_new_inv 7] intset_set.abs_add [OF intset_new_inv 7]
    intset_set.isin_abs [OF intset_set.inv_add [OF intset_new_inv 7] 7]
  have v: "set (intset_to_vec (fst (intset_add 7 intset_new))) = {7}"
    using i(2) by (simp add: rep_to_vec [OF intset_new_rep])
  have n: "bytes_i64 (ascii ''007'') = Some 7" "bytes_i64 (ascii ''a'') = None"
    by (simp_all add: bytes_i64_def utf8_or_empty_def parse_i64_def parse_signed_def parse_digits_def
        is_digit_def digits_val_def digit_val_def i64_min_def i64_max_def)
  have "set_contains p (ascii ''007'') = Some True" "set_contains p (ascii ''a'') = None"
    using i(3) v by (simp_all add: p_def n del: ascii_Cons)
  moreover have "show_int 7 = [55]" by (simp add: show_int_def show_nat.simps)
  then have "upgrade_to_set p = DSet (intset_members (fst (intset_add 7 intset_new)))"
    "set (intset_members (fst (intset_add 7 intset_new))) = {[55]}"
    using v by (simp_all add: p_def intset_members_def)
  then have "set_contains (upgrade_to_set p) (ascii ''007'') = Some False"
    "set_contains (upgrade_to_set p) (ascii ''a'') = Some False" by simp_all
  ultimately show ?thesis
    unfolding p_def [symmetric] Let_def
    using upgrade_to_set_data [OF assms(1)] set_len_data [OF assms(1)] assms(2)
      set_len_data [of "upgrade_to_set d"] set_contains_canonical [OF assms]
      set_contains_canonical [of "upgrade_to_set d" A]
    by (simp del: ascii_Cons)
qed

theorem set_encodings_witness:
  "set_len (DSet [[1], [2]] :: nat DataType) = Some (card {[1 :: byte], [2]})"
  using set_encodings [of "DSet [[1], [2]] :: nat DataType" "{[1], [2]}"] by simp

end
