(* ===== verification/Store.thy ===== *)
theory Store
  imports Data_Types
begin

text \<open>
  The keyspace of \<^verbatim>\<open>crates/storage/src/lib.rs\<close>: entries with expiry, the store operations with
  lazy and periodic expiry, key watchers, memory accounting and eviction. The clock is an
  argument: every operation reads it as one snapshot \<open>now\<close>. Random numbers (\<^verbatim>\<open>fastrand\<close>, a
  third-party package) and the compiled sizes of \<^verbatim>\<open>ZSetData\<close> and \<^verbatim>\<open>StreamData\<close> are arguments of the
  operations that use them. A watch channel is a number; the messages sent to channels are a
  list of such numbers.
\<close>

declare ascii_Cons [simp del]

subsection \<open>Eviction policies\<close>

datatype EvictionPolicy =
    Noeviction | AllKeysLru | AllKeysLfu | VolatileLru | VolatileLfu | VolatileTtl
  | AllKeysRandom | VolatileRandom

fun policy_as_str :: "EvictionPolicy \<Rightarrow> bytes" where
  "policy_as_str Noeviction = ascii ''noeviction''"
| "policy_as_str AllKeysLru = ascii ''allkeys-lru''"
| "policy_as_str AllKeysLfu = ascii ''allkeys-lfu''"
| "policy_as_str VolatileLru = ascii ''volatile-lru''"
| "policy_as_str VolatileLfu = ascii ''volatile-lfu''"
| "policy_as_str VolatileTtl = ascii ''volatile-ttl''"
| "policy_as_str AllKeysRandom = ascii ''allkeys-random''"
| "policy_as_str VolatileRandom = ascii ''volatile-random''"

definition from_policy_str :: "bytes \<Rightarrow> EvictionPolicy option" where
  "from_policy_str s =
     (let l = to_lower s in
      if l = ascii ''noeviction'' then Some Noeviction
      else if l = ascii ''allkeys-lru'' then Some AllKeysLru
      else if l = ascii ''allkeys-lfu'' then Some AllKeysLfu
      else if l = ascii ''volatile-lru'' then Some VolatileLru
      else if l = ascii ''volatile-lfu'' then Some VolatileLfu
      else if l = ascii ''volatile-ttl'' then Some VolatileTtl
      else if l = ascii ''allkeys-random'' then Some AllKeysRandom
      else if l = ascii ''volatile-random'' then Some VolatileRandom
      else None)"

fun is_volatile :: "EvictionPolicy \<Rightarrow> bool" where
  "is_volatile VolatileLru = True"
| "is_volatile VolatileLfu = True"
| "is_volatile VolatileTtl = True"
| "is_volatile VolatileRandom = True"
| "is_volatile _ = False"

text \<open>\<open>r\<close> is the random number drawn when one is needed.\<close>

definition lfu_log_incr :: "nat \<Rightarrow> nat \<Rightarrow> nat" where
  "lfu_log_incr r counter =
     (if counter < 255 then
        (if counter = 0 then 1
         else let threshold = min (counter * 10) u64_max
              in if r mod threshold = 0 then counter + 1 else counter)
      else counter)"

record EvictionConfig =
  maxmemory :: nat
  policy :: EvictionPolicy
  maxmemory_samples :: nat

definition default_eviction :: EvictionConfig where
  "default_eviction = \<lparr>maxmemory = 0, policy = Noeviction, maxmemory_samples = 5\<rparr>"

subsection \<open>Entries\<close>

record 's entry =
  data :: "'s DataType"
  expires_at :: "instant option"
  last_access :: instant
  access_count :: nat
  lfu_counter :: nat

text \<open>An \<^verbatim>\<open>Instant\<close> counts seconds in an \<^verbatim>\<open>i64\<close>; adding a duration beyond that panics.\<close>

definition instant_max :: nat where
  "instant_max = 2 ^ 63 * 10 ^ 9 - 1"

definition instant_add :: "instant \<Rightarrow> duration \<Rightarrow> instant outcome" where
  "instant_add t d = (if t + d \<le> instant_max then Ret (t + d) else Panic)"

definition entry_new :: "instant \<Rightarrow> 's DataType \<Rightarrow> duration option \<Rightarrow> 's entry outcome" where
  "entry_new now d ttl =
     obind (case ttl of None \<Rightarrow> Ret None | Some t \<Rightarrow> obind (instant_add now t) (\<lambda>at. Ret (Some at)))
       (\<lambda>ea. Ret \<lparr>data = d, expires_at = ea, last_access = now, access_count = 1, lfu_counter = 1\<rparr>)"

definition is_expired :: "instant \<Rightarrow> ('s, 'x) entry_scheme \<Rightarrow> bool" where
  "is_expired now e \<longleftrightarrow> (case expires_at e of None \<Rightarrow> False | Some t \<Rightarrow> t < now)"

definition entry_touch :: "instant \<Rightarrow> nat \<Rightarrow> 's entry \<Rightarrow> 's entry" where
  "entry_touch now r e =
     e\<lparr>last_access := now, access_count := min (access_count e + 1) u64_max,
       lfu_counter := lfu_log_incr r (lfu_counter e)\<rparr>"

fun data_size :: "nat \<Rightarrow> nat \<Rightarrow> 's DataType \<Rightarrow> nat" where
  "data_size zsz ssz (DString s) = length s"
| "data_size zsz ssz (DList v) = sum_list (map length v)"
| "data_size zsz ssz (DHash h) = sum_list (map (\<lambda>(k, v). length k + length v) h)"
| "data_size zsz ssz (DSet s) = sum_list (map length s)"
| "data_size zsz ssz (DZSet z) = zsz"
| "data_size zsz ssz (DStream s) = ssz"
| "data_size zsz ssz (DListPack lp) = length (lp_data lp)"
| "data_size zsz ssz (DIntSet s) = length (is_data s)"

definition entry_memory :: "nat \<Rightarrow> nat \<Rightarrow> 's entry \<Rightarrow> nat \<Rightarrow> nat" where
  "entry_memory zsz ssz e key_len = key_len + data_size zsz ssz (data e) + 64"

subsection \<open>The store\<close>

record 's store =
  keyspace :: "(bytes, 's entry) dict"
  evicted_keys :: nat
  evict_config :: EvictionConfig
  watchers :: "(bytes, nat list) dict"
  dirty_count :: nat
  sent :: "nat list"
  next_chan :: nat

definition store_new :: "'s store" where
  "store_new = \<lparr>keyspace = [], evicted_keys = 0, evict_config = default_eviction, watchers = [],
     dirty_count = 0, sent = [], next_chan = 0\<rparr>"

definition store_drop :: "bytes \<Rightarrow> 's store \<Rightarrow> 's store" where
  "store_drop key st = st\<lparr>keyspace := dict_del key (keyspace st)\<rparr>"

definition bump_dirty :: "'s store \<Rightarrow> 's store" where
  "bump_dirty st = st\<lparr>dirty_count := wrap_u64 (dirty_count st + 1)\<rparr>"

definition evict_expired :: "instant \<Rightarrow> 's store \<Rightarrow> 's store" where
  "evict_expired now st =
     st\<lparr>keyspace := filter (\<lambda>(k, e). \<not> is_expired now e) (keyspace st)\<rparr>"

definition store_get :: "instant \<Rightarrow> bytes \<Rightarrow> 's store \<Rightarrow> 's entry option \<times> 's store" where
  "store_get now key st =
     (case dict_get (keyspace st) key of
        None \<Rightarrow> (None, st)
      | Some e \<Rightarrow> if is_expired now e then (None, store_drop key st) else (Some e, st))"

definition notify_watchers :: "bytes \<Rightarrow> 's store \<Rightarrow> 's store" where
  "notify_watchers key st =
     (case dict_get (watchers st) key of
        None \<Rightarrow> st
      | Some senders \<Rightarrow> st\<lparr>watchers := dict_del key (watchers st), sent := sent st @ senders\<rparr>)"

definition store_set :: "instant \<Rightarrow> bytes \<Rightarrow> 's DataType \<Rightarrow> duration option \<Rightarrow> 's store \<Rightarrow> 's store outcome" where
  "store_set now key d ttl st =
     (let st1 = notify_watchers key st in
      obind (entry_new now d ttl)
        (\<lambda>e. Ret (bump_dirty (st1\<lparr>keyspace := dict_put key e (keyspace st1)\<rparr>))))"

definition store_del :: "bytes \<Rightarrow> 's store \<Rightarrow> bool \<times> 's store" where
  "store_del key st =
     (let st1 = notify_watchers key st; result = (dict_get (keyspace st1) key \<noteq> None);
          st2 = store_drop key st1
      in (result, if result then bump_dirty st2 else st2))"

definition store_expire :: "bytes \<Rightarrow> instant \<Rightarrow> 's store \<Rightarrow> bool \<times> 's store" where
  "store_expire key at st =
     (let st1 = notify_watchers key st in
      case dict_get (keyspace st1) key of
        None \<Rightarrow> (False, st1)
      | Some e \<Rightarrow>
          (True, bump_dirty (st1\<lparr>keyspace := dict_put key (e\<lparr>expires_at := Some at\<rparr>) (keyspace st1)\<rparr>)))"

definition store_exists :: "instant \<Rightarrow> bytes \<Rightarrow> 's store \<Rightarrow> bool \<times> 's store" where
  "store_exists now key st =
     (case dict_get (keyspace st) key of
        Some e \<Rightarrow> if is_expired now e then (False, store_drop key st) else (True, st)
      | None \<Rightarrow> (False, st))"

definition store_ttl :: "instant \<Rightarrow> bytes \<Rightarrow> 's store \<Rightarrow> duration option \<times> 's store" where
  "store_ttl now key st =
     (case dict_get (keyspace st) key of
        Some e \<Rightarrow>
          if is_expired now e then (None, store_drop key st)
          else (case expires_at e of
                  None \<Rightarrow> None
                | Some at \<Rightarrow> if now \<le> at then Some (at - now) else None, st)
      | None \<Rightarrow> (None, st))"

fun type_name :: "'s DataType \<Rightarrow> bytes" where
  "type_name (DString _) = ascii ''string''"
| "type_name (DList _) = ascii ''list''"
| "type_name (DHash _) = ascii ''hash''"
| "type_name (DSet _) = ascii ''set''"
| "type_name (DZSet _) = ascii ''zset''"
| "type_name (DStream _) = ascii ''stream''"
| "type_name (DListPack _) = ascii ''list''"
| "type_name (DIntSet _) = ascii ''set''"

definition store_type_of :: "instant \<Rightarrow> bytes \<Rightarrow> 's store \<Rightarrow> bytes option \<times> 's store" where
  "store_type_of now key st =
     (case dict_get (keyspace st) key of
        Some e \<Rightarrow>
          if is_expired now e then (None, store_drop key st) else (Some (type_name (data e)), st)
      | None \<Rightarrow> (None, st))"

text \<open>\<^verbatim>\<open>str::split_once('*')\<close>, \<^verbatim>\<open>starts_with\<close> and \<^verbatim>\<open>ends_with\<close>.\<close>

fun split_once :: "byte \<Rightarrow> bytes \<Rightarrow> (bytes \<times> bytes) option" where
  "split_once c [] = None"
| "split_once c (b # r) =
     (if b = c then Some ([], r) else map_option (\<lambda>(p, s). (b # p, s)) (split_once c r))"

definition starts_with :: "bytes \<Rightarrow> bytes \<Rightarrow> bool" where
  "starts_with s p \<longleftrightarrow> take (length p) s = p"

definition ends_with :: "bytes \<Rightarrow> bytes \<Rightarrow> bool" where
  "ends_with s p \<longleftrightarrow> starts_with (rev s) (rev p)"

definition live_keys :: "instant \<Rightarrow> 's store \<Rightarrow> bytes list" where
  "live_keys now st = map fst (filter (\<lambda>(k, e). \<not> is_expired now e) (keyspace st))"

definition store_keys :: "instant \<Rightarrow> bytes \<Rightarrow> 's store \<Rightarrow> bytes list \<times> 's store" where
  "store_keys now pattern st =
     (if pattern = [42] then (live_keys now st, st)
      else case split_once 42 pattern of
        Some (prefix, suffix) \<Rightarrow>
          (filter (\<lambda>k. starts_with (utf8_or_empty k) prefix \<and> ends_with (utf8_or_empty k) suffix)
             (live_keys now st), st)
      | None \<Rightarrow> (case store_exists now pattern st of (b, st') \<Rightarrow> (if b then [pattern] else [], st')))"

definition store_dbsize :: "'s store \<Rightarrow> nat" where
  "store_dbsize st = length (keyspace st)"

definition store_flush :: "'s store \<Rightarrow> 's store" where
  "store_flush st = st\<lparr>keyspace := [], watchers := []\<rparr>"

definition store_watch :: "bytes \<Rightarrow> 's store \<Rightarrow> nat \<times> 's store" where
  "store_watch key st =
     (let rx = next_chan st
      in (rx, st\<lparr>watchers := dict_put key (unwrap_or [] (dict_get (watchers st) key) @ [rx]) (watchers st),
                 next_chan := rx + 1\<rparr>))"

definition memory_usage_bytes :: "nat \<Rightarrow> nat \<Rightarrow> 's store \<Rightarrow> nat" where
  "memory_usage_bytes zsz ssz st =
     wrap_u64 (sum_list (map (\<lambda>(k, e). entry_memory zsz ssz e (length k)) (keyspace st)))"

definition key_memory_usage :: "nat \<Rightarrow> nat \<Rightarrow> bytes \<Rightarrow> 's store \<Rightarrow> nat option" where
  "key_memory_usage zsz ssz key st =
     map_option (\<lambda>e. entry_memory zsz ssz e (length key)) (dict_get (keyspace st) key)"

definition set_eviction_config :: "EvictionConfig \<Rightarrow> 's store \<Rightarrow> 's store" where
  "set_eviction_config c st = st\<lparr>evict_config := c\<rparr>"

definition reset_dirty_count :: "'s store \<Rightarrow> nat \<times> 's store" where
  "reset_dirty_count st = (dirty_count st, st\<lparr>dirty_count := 0\<rparr>)"

subsection \<open>Eviction\<close>

text \<open>\<^verbatim>\<open>Vec::swap_remove\<close>.\<close>

definition swap_remove :: "nat \<Rightarrow> 'a list \<Rightarrow> 'a list" where
  "swap_remove i xs = butlast (xs[i := last xs])"

text \<open>\<open>pick i n\<close> is the \<open>i\<close>-th index drawn below \<open>n\<close>.\<close>

fun sample_keys :: "(nat \<Rightarrow> nat \<Rightarrow> nat) \<Rightarrow> nat \<Rightarrow> bytes list \<Rightarrow> bytes list" where
  "sample_keys pick 0 ks = []"
| "sample_keys pick (Suc n) ks =
     (if ks = [] then []
      else let idx = pick n (length ks) in (ks ! idx) # sample_keys pick n (swap_remove idx ks))"

definition evict_score :: "instant \<Rightarrow> int \<Rightarrow> EvictionPolicy \<Rightarrow> 's entry \<Rightarrow> int" where
  "evict_score now rnd p e =
     (if p = AllKeysLru \<or> p = VolatileLru then min (int (now - last_access e)) i64_max
      else if p = AllKeysLfu \<or> p = VolatileLfu then i64_max - int (min (lfu_counter e) 255)
      else if p = VolatileTtl then
        (case expires_at e of
           Some at \<Rightarrow> i64_max - min (int (at - now)) i64_max
         | None \<Rightarrow> -1)
      else rnd)"

text \<open>\<open>rnd key\<close> is the random number drawn for a candidate.\<close>

fun evict_victim :: "instant \<Rightarrow> (bytes \<Rightarrow> int) \<Rightarrow> EvictionPolicy \<Rightarrow> 's store \<Rightarrow>
    bytes list \<Rightarrow> (bytes \<times> int) option \<Rightarrow> (bytes \<times> int) option" where
  "evict_victim now rnd p st [] victim = victim"
| "evict_victim now rnd p st (key # ks) victim =
     (case dict_get (keyspace st) key of
        None \<Rightarrow> evict_victim now rnd p st ks victim
      | Some e \<Rightarrow>
          if is_volatile p \<and> expires_at e = None then evict_victim now rnd p st ks victim
          else let score = evict_score now (rnd key) p e in
            evict_victim now rnd p st ks
              (if (case victim of None \<Rightarrow> True | Some (_, s) \<Rightarrow> score > s)
               then Some (key, score) else victim))"

definition evict_candidates :: "(nat \<Rightarrow> nat \<Rightarrow> nat) \<Rightarrow> 's store \<Rightarrow> bytes list" where
  "evict_candidates pick st =
     (let samples = max (maxmemory_samples (evict_config st)) 1;
          all_keys = map fst (keyspace st)
      in if length all_keys \<le> samples then all_keys else sample_keys pick samples all_keys)"

definition maybe_evict :: "nat \<Rightarrow> nat \<Rightarrow> (nat \<Rightarrow> nat \<Rightarrow> nat) \<Rightarrow> (bytes \<Rightarrow> int) \<Rightarrow> instant \<Rightarrow> 's store \<Rightarrow>
    (bytes + unit) \<times> 's store" where
  "maybe_evict zsz ssz pick rnd now st =
     (let config = evict_config st in
      if maxmemory config = 0 then (Inr (), st)
      else if memory_usage_bytes zsz ssz st \<le> maxmemory config then (Inr (), st)
      else if policy config = Noeviction then
        (Inl (ascii ''ERR OOM command not allowed when used memory > 'maxmemory'.''), st)
      else if keyspace st = [] then (Inr (), st)
      else
        case evict_victim now rnd (policy config) st (evict_candidates pick st) None of
          None \<Rightarrow> (Inr (), st)
        | Some (key, _) \<Rightarrow>
            (Inr (), (store_drop key st)\<lparr>evicted_keys := wrap_u64 (evicted_keys st + 1)\<rparr>))"

subsection \<open>What a client can see\<close>

text \<open>An entry is live at a time when it is there and not expired.\<close>

definition live :: "instant \<Rightarrow> (bytes \<rightharpoonup> 's entry) \<Rightarrow> bytes \<Rightarrow> 's entry option" where
  "live now m key = (case m key of None \<Rightarrow> None | Some e \<Rightarrow> if is_expired now e then None else Some e)"

abbreviation kmap :: "'s store \<Rightarrow> bytes \<rightharpoonup> 's entry" where
  "kmap st \<equiv> dict_get (keyspace st)"

lemma expired_later: "is_expired t e \<Longrightarrow> t \<le> t' \<Longrightarrow> is_expired t' e"
  by (auto simp: is_expired_def split: option.splits)

lemma keyspace_notify [simp]: "keyspace (notify_watchers key st) = keyspace st"
  by (simp add: notify_watchers_def split: option.splits)

lemma keyspace_bump [simp]: "keyspace (bump_dirty st) = keyspace st"
  by (simp add: bump_dirty_def)

lemma kmap_drop [simp]: "kmap (store_drop key st) = (kmap st)(key := None)"
  by (simp add: store_drop_def dict_simps)

lemma live_drop: "is_expired now e \<Longrightarrow> kmap st key = Some e \<Longrightarrow> now \<le> t \<Longrightarrow>
    live t ((kmap st)(key := None)) k = live t (kmap st) k"
  by (auto simp: live_def dest: expired_later)

lemma kmap_filter:
  "dict_wf m \<Longrightarrow> dict_get (filter (\<lambda>(k, e). P e) m) k
    = (case dict_get m k of None \<Rightarrow> None | Some e \<Rightarrow> if P e then Some e else None)"
  unfolding dict_wf_def
  by (induction m) (auto simp: map_of_eq_None_iff rev_image_eqI split: option.splits)

subsection \<open>Lazy expiry is invisible\<close>

datatype 's sop =
    SGet bytes | SExists bytes | STtl bytes | SType bytes | STick
  | SSet bytes "'s DataType" "duration option" | SDel bytes

datatype 's obs =
    OEntry "'s entry option" | OBool bool | ODur "duration option" | OType "bytes option" | ONone

fun store_step :: "instant \<Rightarrow> 's sop \<Rightarrow> 's store \<Rightarrow> ('s obs \<times> 's store) outcome" where
  "store_step now (SGet k) st = Ret (map_prod OEntry id (store_get now k st))"
| "store_step now (SExists k) st = Ret (map_prod OBool id (store_exists now k st))"
| "store_step now (STtl k) st = Ret (map_prod ODur id (store_ttl now k st))"
| "store_step now (SType k) st = Ret (map_prod OType id (store_type_of now k st))"
| "store_step now STick st = Ret (ONone, evict_expired now st)"
| "store_step now (SSet k d ttl) st = obind (store_set now k d ttl st) (\<lambda>st'. Ret (ONone, st'))"
| "store_step now (SDel k) st = Ret (ONone, snd (store_del k st))"

text \<open>The specification: entries are never removed by expiry, they just stop being visible.\<close>

fun spec_step :: "instant \<Rightarrow> 's sop \<Rightarrow> (bytes \<rightharpoonup> 's entry) \<Rightarrow> ('s obs \<times> (bytes \<rightharpoonup> 's entry)) outcome" where
  "spec_step now (SGet k) m = Ret (OEntry (live now m k), m)"
| "spec_step now (SExists k) m = Ret (OBool (live now m k \<noteq> None), m)"
| "spec_step now (STtl k) m =
     Ret (ODur (case live now m k of
            None \<Rightarrow> None | Some e \<Rightarrow> map_option (\<lambda>at. at - now) (expires_at e)), m)"
| "spec_step now (SType k) m = Ret (OType (map_option (\<lambda>e. type_name (data e)) (live now m k)), m)"
| "spec_step now STick m = Ret (ONone, m)"
| "spec_step now (SSet k d ttl) m = obind (entry_new now d ttl) (\<lambda>e. Ret (ONone, m(k \<mapsto> e)))"
| "spec_step now (SDel k) m = Ret (ONone, m(k := None))"

fun run_steps :: "(instant \<Rightarrow> 'c \<Rightarrow> 'm \<Rightarrow> ('o \<times> 'm) outcome) \<Rightarrow> (instant \<times> 'c) list \<Rightarrow> 'm \<Rightarrow> 'o list outcome" where
  "run_steps step [] m = Ret []"
| "run_steps step ((now, c) # cs) m =
     obind (step now c m) (\<lambda>(ob, m'). obind (run_steps step cs m') (\<lambda>obs. Ret (ob # obs)))"

definition sees_same :: "instant \<Rightarrow> 's store \<Rightarrow> (bytes \<rightharpoonup> 's entry) \<Rightarrow> bool" where
  "sees_same now st m \<longleftrightarrow> dict_wf (keyspace st) \<and> (\<forall>t \<ge> now. live t (kmap st) = live t m)"

lemma sees_same_later: "sees_same now st m \<Longrightarrow> now \<le> now' \<Longrightarrow> sees_same now' st m"
  by (simp add: sees_same_def)

lemma sees_same_drop:
  assumes "sees_same now st m" "kmap st key = Some e" "is_expired now e"
  shows "sees_same now (store_drop key st) m"
  using assms live_drop [OF assms(3,2)]
  by (auto simp: sees_same_def fun_eq_iff) (simp add: store_drop_def hashmap.wf_del)

lemma sees_same_now: "sees_same now st m \<Longrightarrow> live now (kmap st) k = live now m k"
  by (simp add: sees_same_def)

lemma is_expired_at: "\<not> is_expired now e \<Longrightarrow> expires_at e = Some at \<Longrightarrow> now \<le> at"
  by (simp add: is_expired_def)

lemma live_cases:
  assumes "sees_same now st m"
  obtains (none) "kmap st k = None" "live now m k = None"
  | (dead) e where "kmap st k = Some e" "is_expired now e" "live now m k = None"
      "sees_same now (store_drop k st) m"
  | (alive) e where "kmap st k = Some e" "\<not> is_expired now e" "live now m k = Some e"
  using sees_same_now [OF assms, of k] sees_same_drop [OF assms, of k]
  by (auto simp: live_def split: option.splits if_splits)

lemma sees_same_put:
  assumes "sees_same now st m" and "kmap st' = (kmap st)(k := x)" and "dict_wf (keyspace st')"
  shows "sees_same now st' (m(k := x))"
proof -
  have "live t ((kmap st)(k := x)) k' = live t (m(k := x)) k'" if "now \<le> t" for t k'
    using assms(1) that by (cases "k' = k") (auto simp: sees_same_def live_def fun_eq_iff)
  then show ?thesis using assms(2,3) by (auto simp: sees_same_def)
qed

lemma sees_same_tick:
  assumes "sees_same now st m"
  shows "sees_same now (evict_expired now st) m"
proof -
  have wf: "dict_wf (keyspace st)" using assms by (simp add: sees_same_def)
  have k: "kmap (evict_expired now st) k
      = (case kmap st k of None \<Rightarrow> None | Some e \<Rightarrow> if \<not> is_expired now e then Some e else None)" for k
    unfolding evict_expired_def using kmap_filter [OF wf, of "\<lambda>e. \<not> is_expired now e"] by simp
  have "live t (kmap (evict_expired now st)) k = live t (kmap st) k" if "now \<le> t" for t k
    using that by (auto simp: live_def k dest: expired_later split: option.splits)
  moreover have "dict_wf (keyspace (evict_expired now st))"
    using wf by (simp add: dict_wf_def evict_expired_def distinct_map_filter)
  ultimately show ?thesis using assms by (auto simp: sees_same_def fun_eq_iff)
qed

lemma step_sim:
  assumes r: "sees_same now st m"
  shows "(store_step now c st = Panic \<and> spec_step now c m = Panic)
    \<or> (\<exists>ob st' m'. store_step now c st = Ret (ob, st') \<and> spec_step now c m = Ret (ob, m')
         \<and> sees_same now st' m')"
proof (cases c)
  case (SGet k)
  show ?thesis
    by (rule live_cases [OF r, of k]) (use r in \<open>auto simp: SGet store_get_def\<close>)
next
  case (SExists k)
  show ?thesis
    by (rule live_cases [OF r, of k]) (use r in \<open>auto simp: SExists store_exists_def\<close>)
next
  case (STtl k)
  show ?thesis
    by (rule live_cases [OF r, of k])
      (use r in \<open>auto simp: STtl store_ttl_def dest: is_expired_at split: option.splits\<close>)
next
  case (SType k)
  show ?thesis
    by (rule live_cases [OF r, of k]) (use r in \<open>auto simp: SType store_type_of_def\<close>)
next
  case STick
  then show ?thesis using sees_same_tick [OF r] by simp
next
  case (SSet k d ttl)
  have wf: "dict_wf (keyspace st)" using r by (simp add: sees_same_def)
  show ?thesis
  proof (cases "entry_new now d ttl")
    case (Ret e)
    then have "sees_same now (bump_dirty ((notify_watchers k st)\<lparr>keyspace := dict_put k e (keyspace st)\<rparr>))
        (m(k \<mapsto> e))"
      by (intro sees_same_put [OF r]) (simp_all add: dict_simps hashmap.wf_put wf)
    then show ?thesis using Ret by (simp add: SSet store_set_def Let_def)
  next
    case Panic
    then show ?thesis by (simp add: SSet store_set_def Let_def)
  next
    case Deadlock
    then show ?thesis
      by (auto simp: entry_new_def instant_add_def split: option.splits if_splits)
  qed
next
  case (SDel k)
  have wf: "dict_wf (keyspace st)" using r by (simp add: sees_same_def)
  have "keyspace (snd (store_del k st)) = dict_del k (keyspace st)"
    by (simp add: store_del_def Let_def store_drop_def)
  then have "sees_same now (snd (store_del k st)) (m(k := None))"
    by (intro sees_same_put [OF r]) (simp_all add: dict_simps hashmap.wf_del wf)
  then show ?thesis by (simp add: SDel)
qed

lemma run_sim:
  assumes "sees_same now st m" and "sorted (now # map fst cs)"
  shows "run_steps store_step cs st = run_steps spec_step cs m"
  using assms
proof (induction cs arbitrary: now st m)
  case Nil
  then show ?case by simp
next
  case (Cons nc cs)
  obtain t c where nc: "nc = (t, c)" by fastforce
  have r: "sees_same t st m" using Cons.prems sees_same_later by (auto simp: nc)
  have s: "sorted (t # map fst cs)" using Cons.prems by (auto simp: nc)
  from step_sim [OF r, of c] show ?case
    using Cons.IH [OF _ s] by (auto simp: nc)
qed

subsection \<open>Watchers\<close>

datatype 's mop = MSet bytes "'s DataType" "duration option" | MDel bytes | MExpire bytes instant

fun mop_key :: "'s mop \<Rightarrow> bytes" where
  "mop_key (MSet k d ttl) = k"
| "mop_key (MDel k) = k"
| "mop_key (MExpire k at) = k"

fun mop_step :: "instant \<Rightarrow> 's mop \<Rightarrow> 's store \<Rightarrow> 's store outcome" where
  "mop_step now (MSet k d ttl) st = store_set now k d ttl st"
| "mop_step now (MDel k) st = Ret (snd (store_del k st))"
| "mop_step now (MExpire k at) st = Ret (snd (store_expire k at st))"

fun mop_run :: "(instant \<times> 's mop) list \<Rightarrow> 's store \<Rightarrow> 's store outcome" where
  "mop_run [] st = Ret st"
| "mop_run ((now, c) # cs) st = obind (mop_step now c st) (mop_run cs)"

text \<open>Every registered channel, and every channel a message was sent to, was handed out.\<close>

definition watch_wf :: "'s store \<Rightarrow> bool" where
  "watch_wf st \<longleftrightarrow> (\<forall>rx \<in> set (sent st). rx < next_chan st)
     \<and> (\<forall>k cs. dict_get (watchers st) k = Some cs \<longrightarrow> (\<forall>rx \<in> set cs. rx < next_chan st))"

text \<open>The channel waits on exactly this key.\<close>

definition waiting :: "nat \<Rightarrow> bytes \<Rightarrow> 's store \<Rightarrow> bool" where
  "waiting rx key st \<longleftrightarrow> rx \<notin> set (sent st)
     \<and> (\<forall>k. (\<exists>cs. dict_get (watchers st) k = Some cs \<and> rx \<in> set cs) \<longleftrightarrow> k = key)"

lemma mop_step_watch:
  assumes "mop_step now c st = Ret st'"
  shows "watchers st' = watchers (notify_watchers (mop_key c) st)
    \<and> sent st' = sent (notify_watchers (mop_key c) st)"
  using assms
  by (cases c) (auto simp: store_set_def store_del_def store_expire_def store_drop_def bump_dirty_def
      Let_def obind_Ret_iff split: option.splits)

lemma notify_other: "waiting rx key st \<Longrightarrow> k \<noteq> key \<Longrightarrow> waiting rx key (notify_watchers k st)"
  by (auto simp: waiting_def notify_watchers_def dict_simps split: option.splits)

lemma notify_self:
  assumes "waiting rx key st"
  shows "rx \<in> set (sent (notify_watchers key st))"
proof -
  obtain cs where "dict_get (watchers st) key = Some cs" "rx \<in> set cs"
    using assms unfolding waiting_def by blast
  then show ?thesis by (simp add: notify_watchers_def)
qed

lemma notify_sent_mono: "set (sent st) \<subseteq> set (sent (notify_watchers key st))"
  by (auto simp: notify_watchers_def split: option.splits)

lemma waiting_cong: "waiting rx key st \<Longrightarrow> watchers st' = watchers st \<Longrightarrow> sent st' = sent st \<Longrightarrow> waiting rx key st'"
  by (simp add: waiting_def)

lemma mop_run_sent_mono: "mop_run cs st = Ret st' \<Longrightarrow> set (sent st) \<subseteq> set (sent st')"
proof (induction cs arbitrary: st)
  case Nil
  then show ?case by simp
next
  case (Cons nc cs)
  obtain t c where nc: "nc = (t, c)" by fastforce
  from Cons.prems obtain st1 where st1: "mop_step t c st = Ret st1" "mop_run cs st1 = Ret st'"
    by (auto simp: nc obind_Ret_iff)
  show ?case
    using Cons.IH [OF st1(2)] mop_step_watch [OF st1(1)] notify_sent_mono [of st "mop_key c"] by auto
qed

lemma mop_run_waiting:
  assumes "waiting rx key st" "mop_run cs st = Ret st'"
  shows "rx \<in> set (sent st') \<longleftrightarrow> key \<in> mop_key ` snd ` set cs"
  using assms
proof (induction cs arbitrary: st)
  case Nil
  then show ?case by (simp add: waiting_def)
next
  case (Cons nc cs)
  obtain t c where nc: "nc = (t, c)" by fastforce
  from Cons.prems obtain st1 where st1: "mop_step t c st = Ret st1" "mop_run cs st1 = Ret st'"
    by (auto simp: nc obind_Ret_iff)
  note w = mop_step_watch [OF st1(1)]
  show ?case
  proof (cases "mop_key c = key")
    case True
    then have "rx \<in> set (sent st1)" using w notify_self [OF Cons.prems(1)] by simp
    then show ?thesis using mop_run_sent_mono [OF st1(2)] True by (auto simp: nc)
  next
    case False
    then have "waiting rx key st1"
      using w by (intro waiting_cong [OF notify_other [OF Cons.prems(1)]]) auto
    then show ?thesis using Cons.IH [OF _ st1(2)] False by (auto simp: nc)
  qed
qed

lemma store_watch_waiting:
  assumes "watch_wf st" "store_watch key st = (rx, st')"
  shows "waiting rx key st'"
proof -
  have rx: "rx = next_chan st" "sent st' = sent st"
    "watchers st' = dict_put key (unwrap_or [] (dict_get (watchers st) key) @ [rx]) (watchers st)"
    using assms(2) by (auto simp: store_watch_def Let_def)
  have "rx \<notin> set cs" if "dict_get (watchers st) k = Some cs" for k cs
    using assms(1) that rx(1) unfolding watch_wf_def by (metis less_irrefl)
  moreover have "rx \<notin> set (sent st)" using assms(1) rx(1) by (auto simp: watch_wf_def)
  ultimately show ?thesis
    unfolding waiting_def rx(2,3) by (auto simp: dict_simps)
qed

subsection \<open>Eviction\<close>

lemma swap_remove_set:
  assumes "i < length xs"
  shows "set (swap_remove i xs) \<subseteq> set xs"
proof
  fix x assume "x \<in> set (swap_remove i xs)"
  then have "x \<in> set (xs[i := last xs])" by (auto simp: swap_remove_def dest: in_set_butlastD)
  then have "x \<in> insert (last xs) (set xs)" using set_update_subset_insert by fastforce
  moreover have "last xs \<in> set xs" using assms by (intro last_in_set) auto
  ultimately show "x \<in> set xs" by auto
qed

lemma sample_keys_subset:
  assumes "\<forall>i n. 0 < n \<longrightarrow> pick i n < n"
  shows "set (sample_keys pick n ks) \<subseteq> set ks"
proof (induction n arbitrary: ks)
  case 0
  then show ?case by simp
next
  case (Suc n)
  show ?case
  proof (cases "ks = []")
    case False
    then have i: "pick n (length ks) < length ks" using assms by simp
    show ?thesis
      using Suc.IH [of "swap_remove (pick n (length ks)) ks"] swap_remove_set [OF i] i False
      by (auto simp: Let_def)
  qed simp
qed

definition eligible :: "EvictionPolicy \<Rightarrow> 's store \<Rightarrow> bytes \<Rightarrow> bool" where
  "eligible p st key \<longleftrightarrow> (\<exists>e. kmap st key = Some e \<and> (is_volatile p \<longrightarrow> expires_at e \<noteq> None))"

definition key_score :: "instant \<Rightarrow> (bytes \<Rightarrow> int) \<Rightarrow> EvictionPolicy \<Rightarrow> 's store \<Rightarrow> bytes \<Rightarrow> int" where
  "key_score now rnd p st key = evict_score now (rnd key) p (the (kmap st key))"

lemma evict_victim_spec:
  assumes "\<forall>v s. victim = Some (v, s) \<longrightarrow> v \<in> K \<and> eligible p st v \<and> s = key_score now rnd p st v
      \<and> (\<forall>k \<in> K. eligible p st k \<longrightarrow> key_score now rnd p st k \<le> s)"
    and "victim = None \<longrightarrow> (\<forall>k \<in> K. \<not> eligible p st k)"
  shows "(\<forall>v s. evict_victim now rnd p st ks victim = Some (v, s) \<longrightarrow> v \<in> K \<union> set ks \<and> eligible p st v
      \<and> s = key_score now rnd p st v
      \<and> (\<forall>k \<in> K \<union> set ks. eligible p st k \<longrightarrow> key_score now rnd p st k \<le> s))
    \<and> (evict_victim now rnd p st ks victim = None \<longrightarrow> (\<forall>k \<in> K \<union> set ks. \<not> eligible p st k))"
  using assms
proof (induction ks arbitrary: victim K)
  case Nil
  then show ?case by simp
next
  case (Cons key ks)
  show ?case
  proof (cases "eligible p st key")
    case False
    then have "evict_victim now rnd p st (key # ks) victim = evict_victim now rnd p st ks victim"
      by (auto simp: eligible_def split: option.splits)
    moreover have K: "insert key K \<union> set ks = K \<union> set (key # ks)" by auto
    ultimately show ?thesis
      using Cons.IH [of victim "insert key K"] Cons.prems False unfolding K by auto
  next
    case True
    then obtain e where e: "kmap st key = Some e" "is_volatile p \<longrightarrow> expires_at e \<noteq> None"
      by (auto simp: eligible_def)
    define sc where "sc = key_score now rnd p st key"
    define v' where "v' = (if (case victim of None \<Rightarrow> True | Some (_, s) \<Rightarrow> sc > s) then Some (key, sc) else victim)"
    have sc: "sc = evict_score now (rnd key) p e" using e(1) by (simp add: sc_def key_score_def)
    have "\<not> (is_volatile p \<and> expires_at e = None)" using e(2) by auto
    then have A: "evict_victim now rnd p st (key # ks) victim = evict_victim now rnd p st ks v'"
      using e(1) by (simp only: evict_victim.simps option.case if_False Let_def v'_def sc)
    have K: "K \<union> set (key # ks) = insert key K \<union> set ks" by auto
    have B: "\<forall>v s. v' = Some (v, s) \<longrightarrow> v \<in> insert key K \<and> eligible p st v \<and> s = key_score now rnd p st v
        \<and> (\<forall>k \<in> insert key K. eligible p st k \<longrightarrow> key_score now rnd p st k \<le> s)"
    proof (cases victim)
      case None
      then show ?thesis using Cons.prems(2) True by (auto simp: v'_def sc_def)
    next
      case (Some vs)
      obtain v0 s0 where "vs = (v0, s0)" by fastforce
      then show ?thesis using Cons.prems(1) Some True by (auto simp: v'_def sc_def split: if_splits)
    qed
    have "v' \<noteq> None" by (auto simp: v'_def split: option.splits)
    then have "v' = None \<longrightarrow> (\<forall>k \<in> insert key K. \<not> eligible p st k)" by blast
    from Cons.IH [OF B this] show ?thesis unfolding A K .
  qed
qed

lemma evict_candidates_subset:
  assumes "\<forall>i n. 0 < n \<longrightarrow> pick i n < n"
  shows "set (evict_candidates pick st) \<subseteq> dom (kmap st)"
proof -
  have "dom (kmap st) = set (map fst (keyspace st))" by (simp add: dom_map_of_conv_image_fst)
  moreover have "set (sample_keys pick n (map fst (keyspace st))) \<subseteq> set (map fst (keyspace st))" for n
    by (rule sample_keys_subset [OF assms])
  ultimately show ?thesis unfolding evict_candidates_def Let_def by (simp del: set_map)
qed

lemma evict_victim_best:
  "(\<forall>v s. evict_victim now rnd p st ks None = Some (v, s) \<longrightarrow> v \<in> set ks \<and> eligible p st v
      \<and> (\<forall>k \<in> set ks. eligible p st k \<longrightarrow> key_score now rnd p st k \<le> key_score now rnd p st v))
    \<and> (evict_victim now rnd p st ks None = None \<longrightarrow> (\<forall>k \<in> set ks. \<not> eligible p st k))"
  using evict_victim_spec [of None "{}" p st now rnd ks] by auto

subsection \<open>Key patterns\<close>

lemma split_once_star: "42 \<notin> set p \<Longrightarrow> split_once 42 (p @ 42 # s) = Some (p, s)"
  by (induction p) auto

lemma starts_with_iff: "starts_with k p \<longleftrightarrow> (\<exists>r. k = p @ r)"
  by (metis append_eq_conv_conj append_take_drop_id starts_with_def)

lemma ends_with_iff: "ends_with k s \<longleftrightarrow> (\<exists>r. k = r @ s)"
  unfolding ends_with_def starts_with_iff
  by (metis rev_append rev_rev_ident)

lemma affix_glob:
  "starts_with k p \<and> ends_with k s \<and> length p + length s \<le> length k \<longleftrightarrow> (\<exists>m. k = p @ m @ s)"
proof
  assume a: "starts_with k p \<and> ends_with k s \<and> length p + length s \<le> length k"
  then obtain r where r1: "k = p @ r" unfolding starts_with_iff by blast
  from a obtain q where "k = q @ s" unfolding ends_with_iff by blast
  note r = r1 this
  then have "length s \<le> length r" using a by simp
  moreover have "drop (length k - length s) k = s" using r(2) by simp
  ultimately have "drop (length r - length s) r = s" unfolding r(1) by simp
  then have "r = take (length r - length s) r @ s" by (metis append_take_drop_id)
  then show "\<exists>m. k = p @ m @ s" using r(1) by metis
qed (auto simp: starts_with_iff ends_with_iff)

lemma live_keys_set:
  assumes "dict_wf (keyspace st)"
  shows "set (live_keys now st) = {k. live now (kmap st) k \<noteq> None}"
proof -
  have "(k, e) \<in> set (keyspace st) \<longleftrightarrow> kmap st k = Some e" for k e
    using assms by (simp add: dict_wf_def)
  then have "k \<in> set (live_keys now st) \<longleftrightarrow> (\<exists>e. kmap st k = Some e \<and> \<not> is_expired now e)" for k
    by (auto simp: live_keys_def image_iff)
  then show ?thesis by (auto simp: live_def split: option.splits if_splits)
qed

subsection \<open>Properties\<close>



text \<open>
  C19. A watch fires exactly for its key. After registering a watch, and after any sequence
  of sets, deletions and expiry changes, the channel has received a message if and only if
  one of them was on the watched key.
\<close>

theorem watch_fires_iff:
  assumes "watch_wf st" and "store_watch key st = (rx, st1)" and "mop_run cs st1 = Ret st2"
  shows "rx \<in> set (sent st2) \<longleftrightarrow> key \<in> mop_key ` snd ` set cs"
  by (rule mop_run_waiting [OF store_watch_waiting [OF assms(1,2)] assms(3)])

theorem watch_fires_iff_witness:
  "\<exists>st2. mop_run [(0, MDel [2])] (snd (store_watch [1] (store_new :: nat store))) = Ret st2
     \<and> 0 \<notin> set (sent st2)"
proof -
  define st where "st = (store_new :: nat store)"
  have w: "watch_wf st" by (simp add: watch_wf_def st_def store_new_def)
  have "store_watch [1] st = (0, snd (store_watch [1] st))"
    by (simp add: store_watch_def st_def store_new_def Let_def)
  moreover have "mop_run [(0, MDel [2])] (snd (store_watch [1] st))
      = Ret (snd (store_del [2] (snd (store_watch [1] st))))" by simp
  ultimately show ?thesis using watch_fires_iff [OF w] unfolding st_def [symmetric] by fastforce
qed

text \<open>
  C20. Eviction above the memory limit, under any policy but \<^verbatim>\<open>noeviction\<close>, removes exactly one
  key if some sampled key is eligible and none otherwise. The victim is a sampled key of
  highest score, never one without expiry under a volatile policy; every other key keeps its
  entry and the eviction counter advances by one. Below the limit nothing changes, and
  \<^verbatim>\<open>noeviction\<close> reports an error. The random index source returns an index below its bound.
\<close>

theorem eviction_picks_worst:
  fixes pick :: "nat \<Rightarrow> nat \<Rightarrow> nat" and st :: "'s store" and zsz ssz :: nat
  assumes "\<forall>i n. 0 < n \<longrightarrow> pick i n < n"
  defines "C \<equiv> set (evict_candidates pick st)" and "p \<equiv> policy (evict_config st)"
    and "over \<equiv> maxmemory (evict_config st) \<noteq> 0
           \<and> memory_usage_bytes zsz ssz st > maxmemory (evict_config st)"
  shows "C \<subseteq> dom (kmap st)
    \<and> (case maybe_evict zsz ssz pick rnd now st of
         (Inl _, st') \<Rightarrow> over \<and> p = Noeviction \<and> st' = st
       | (Inr _, st') \<Rightarrow>
           if over \<and> (\<exists>k \<in> C. eligible p st k) then
             p \<noteq> Noeviction \<and>
             (\<exists>v \<in> C. eligible p st v
                \<and> (\<forall>k \<in> C. eligible p st k \<longrightarrow> key_score now rnd p st k \<le> key_score now rnd p st v)
                \<and> kmap st' = (kmap st)(v := None)
                \<and> evicted_keys st' = wrap_u64 (evicted_keys st + 1))
           else st' = st)"
proof
  show c: "C \<subseteq> dom (kmap st)" unfolding C_def by (rule evict_candidates_subset [OF assms(1)])
  show "case maybe_evict zsz ssz pick rnd now st of
         (Inl _, st') \<Rightarrow> over \<and> p = Noeviction \<and> st' = st
       | (Inr _, st') \<Rightarrow>
           if over \<and> (\<exists>k \<in> C. eligible p st k) then
             p \<noteq> Noeviction \<and>
             (\<exists>v \<in> C. eligible p st v
                \<and> (\<forall>k \<in> C. eligible p st k \<longrightarrow> key_score now rnd p st k \<le> key_score now rnd p st v)
                \<and> kmap st' = (kmap st)(v := None)
                \<and> evicted_keys st' = wrap_u64 (evicted_keys st + 1))
           else st' = st"
  proof (cases "\<not> over \<or> p = Noeviction \<or> keyspace st = []")
    case True
    then show ?thesis using c by (auto simp: maybe_evict_def Let_def over_def p_def)
  next
    case False
    then have m: "maybe_evict zsz ssz pick rnd now st =
        (case evict_victim now rnd p st (evict_candidates pick st) None of None \<Rightarrow> (Inr (), st)
          | Some (key, _) \<Rightarrow> (Inr (), (store_drop key st)\<lparr>evicted_keys := wrap_u64 (evicted_keys st + 1)\<rparr>))"
      unfolding maybe_evict_def Let_def p_def [symmetric] by (auto simp: over_def)
    note b = evict_victim_best [of now rnd p st "evict_candidates pick st", folded C_def]
    show ?thesis
    proof (cases "evict_victim now rnd p st (evict_candidates pick st) None")
      case None
      then show ?thesis using b m by simp
    next
      case (Some vs)
      obtain v s where vs: "vs = (v, s)" by fastforce
      have v: "v \<in> C" "eligible p st v"
        "\<forall>k \<in> C. eligible p st k \<longrightarrow> key_score now rnd p st k \<le> key_score now rnd p st v"
        using b Some vs by auto
      have "over" "p \<noteq> Noeviction" using False by auto
      then show ?thesis using v by (auto simp: m Some vs intro!: bexI [of _ v])
    qed
  qed
qed

theorem eviction_picks_worst_witness:
  "let e = \<lparr>data = DString [], expires_at = None, last_access = 0, access_count = 1, lfu_counter = 1\<rparr>;
       st = (store_new :: nat store)\<lparr>keyspace := [([1], e), ([2], e\<lparr>last_access := 5\<rparr>)],
              evict_config := \<lparr>maxmemory = 1, policy = AllKeysLru, maxmemory_samples = 5\<rparr>\<rparr>
   in kmap (snd (maybe_evict 0 0 (\<lambda>_ _. 0) (\<lambda>_. 0) 9 st)) [1] = None"
proof -
  define e where "e = (\<lparr>data = DString [], expires_at = None, last_access = 0, access_count = 1,
    lfu_counter = 1\<rparr> :: nat entry)"
  define st where "st = (store_new :: nat store)\<lparr>keyspace := [([1], e), ([2], e\<lparr>last_access := 5\<rparr>)],
              evict_config := \<lparr>maxmemory = 1, policy = AllKeysLru, maxmemory_samples = 5\<rparr>\<rparr>"
  have c: "set (evict_candidates (\<lambda>_ _. 0) st) = {[1], [2]}"
    by (auto simp: st_def evict_candidates_def)
  have s: "key_score 9 (\<lambda>_. 0) AllKeysLru st [1] = 9" "key_score 9 (\<lambda>_. 0) AllKeysLru st [2] = 4"
    "eligible AllKeysLru st [1]" "policy (evict_config st) = AllKeysLru"
    by (simp_all add: st_def e_def key_score_def eligible_def evict_score_def i64_max_def)
  have o: "maxmemory (evict_config st) \<noteq> 0" "memory_usage_bytes 0 0 st > maxmemory (evict_config st)"
    by (simp_all add: st_def e_def memory_usage_bytes_def entry_memory_def wrap_u64_def)
  have "\<exists>st'. maybe_evict 0 0 (\<lambda>_ _. 0) (\<lambda>_. 0) 9 st = (Inr (), st')"
    by (simp add: maybe_evict_def Let_def s(4) split: option.splits)
  then obtain st' where st': "maybe_evict 0 0 (\<lambda>_ _. 0) (\<lambda>_. 0) 9 st = (Inr (), st')" ..
  have "\<forall>k \<in> {[1], [2]}. eligible AllKeysLru st k"
    by (simp add: st_def e_def eligible_def)
  then have "kmap st' [1] = None"
    using eviction_picks_worst [where pick = "\<lambda>_ _. 0" and st = st and zsz = 0 and ssz = 0
      and rnd = "\<lambda>_. 0" and now = 9] unfolding c s(4) st'
    using s o by auto
  then show ?thesis using st' by (simp add: st_def e_def Let_def)
qed

text \<open>
  A key pattern with one star selects the live keys that start with its first part and end
  with its second; this is the expected match when the key is at least as long as both
  parts together, but shorter keys in which the parts overlap are selected too: the pattern
  \<open>ab*ba\<close> selects \<open>aba\<close>.
\<close>

theorem key_pattern_overlap:
  assumes "dict_wf (keyspace st)" and "42 \<notin> set p" and "p \<noteq> [] \<or> s \<noteq> []"
  shows "(\<forall>k. k \<in> set (fst (store_keys now (p @ 42 # s) st)) \<and> length p + length s \<le> length k \<and> utf8_valid k
           \<longleftrightarrow> live now (kmap st) k \<noteq> None \<and> (\<exists>m. k = p @ m @ s) \<and> utf8_valid k)
    \<and> (live now (kmap st) (ascii ''aba'') \<noteq> None \<longrightarrow>
         ascii ''aba'' \<in> set (fst (store_keys now (ascii ''ab*ba'') st)))"
proof -
  have k: "set (fst (store_keys now (p @ 42 # s) st))
      = {k. live now (kmap st) k \<noteq> None \<and> starts_with (utf8_or_empty k) p \<and> ends_with (utf8_or_empty k) s}"
    if "42 \<notin> set p" "p \<noteq> [] \<or> s \<noteq> []" for p s
  proof -
    have "p @ 42 # s \<noteq> [42]" using that(2) by (cases p) auto
    then show ?thesis
      using live_keys_set [OF assms(1), of now] by (auto simp: store_keys_def split_once_star [OF that(1)])
  qed
  have "ascii ''ab*ba'' = [97, 98] @ 42 # [98, 97]" "ascii ''aba'' = [97, 98, 97]"
    by (simp_all add: ascii_def)
  then show ?thesis
    using k [OF assms(2,3)] k [of "[97, 98]" "[98, 97]"] affix_glob [of _ p s]
    by (auto simp: utf8_or_empty_def starts_with_def ends_with_def)
qed

theorem key_pattern_overlap_witness:
  "let e = \<lparr>data = DString [], expires_at = None, last_access = 0, access_count = 1, lfu_counter = 1\<rparr>
   in ascii ''aba'' \<in> set (fst (store_keys 0 (ascii ''ab*ba'')
        ((store_new :: nat store)\<lparr>keyspace := [(ascii ''aba'', e)]\<rparr>)))"
  using key_pattern_overlap [of "(store_new :: nat store)\<lparr>keyspace := [(ascii ''aba'',
      \<lparr>data = DString [], expires_at = None, last_access = 0, access_count = 1, lfu_counter = 1\<rparr>)]\<rparr>" "[1]" "[]" 0]
  by (simp add: dict_wf_def live_def is_expired_def Let_def)

text \<open>
  Changing the expiry of an expired entry that has not been swept yet brings it back:
  it was not visible before, and it is visible with its old value afterwards. The result
  reported is success.
\<close>

theorem expire_revives:
  assumes "kmap st key = Some e" and "is_expired now e" and "now \<le> at"
  shows "live now (kmap st) key = None
    \<and> fst (store_expire key at st)
    \<and> live now (kmap (snd (store_expire key at st))) key = Some (e\<lparr>expires_at := Some at\<rparr>)"
  using assms by (simp add: live_def store_expire_def Let_def dict_simps is_expired_def)

theorem expire_revives_witness:
  "let e = \<lparr>data = DString [7], expires_at = Some 1, last_access = 0, access_count = 1, lfu_counter = 1\<rparr>;
       st = (store_new :: nat store)\<lparr>keyspace := [([1], e)]\<rparr>
   in live 2 (kmap (snd (store_expire [1] 9 st))) [1] = Some (e\<lparr>expires_at := Some 9\<rparr>)"
  using expire_revives [of "(store_new :: nat store)\<lparr>keyspace := [([1],
      \<lparr>data = DString [7], expires_at = Some 1, last_access = 0, access_count = 1, lfu_counter = 1\<rparr>)]\<rparr>" "[1]"
      "\<lparr>data = DString [7], expires_at = Some 1, last_access = 0, access_count = 1, lfu_counter = 1\<rparr>" 2 9]
  by (simp add: is_expired_def Let_def)

end
