(* ===== verification/Rust_Text.thy ===== *)
theory Rust_Text
  imports Rust_Std
begin

text \<open>
  Text operations of the Rust standard library on UTF-8 byte strings: lossy decoding, splitting
  into lines and at white space, trimming, splitting at a character, joining.
\<close>

subsection \<open>Lossy decoding\<close>

text \<open>\<^verbatim>\<open>String::from_utf8_lossy\<close>: every maximal ill-formed part becomes U+FFFD.\<close>

abbreviation replacement :: bytes where
  "replacement \<equiv> [0xEF, 0xBF, 0xBD]"

fun utf8_lossy :: "bytes \<Rightarrow> bytes" where
  "utf8_lossy [] = []"
| "utf8_lossy (b0 # r) =
     (if b0 < 0x80 then b0 # utf8_lossy r
      else if 0xC2 \<le> b0 \<and> b0 \<le> 0xDF then
        (case r of
           b1 # r' \<Rightarrow> if cont b1 then b0 # b1 # utf8_lossy r' else replacement @ utf8_lossy r
         | [] \<Rightarrow> replacement)
      else if 0xE0 \<le> b0 \<and> b0 \<le> 0xEF then
        (case r of
           b1 # r' \<Rightarrow>
             if second3 b0 b1 then
               (case r' of
                  b2 # r'' \<Rightarrow> if cont b2 then b0 # b1 # b2 # utf8_lossy r'' else replacement @ utf8_lossy r'
                | [] \<Rightarrow> replacement)
             else replacement @ utf8_lossy r
         | [] \<Rightarrow> replacement)
      else if 0xF0 \<le> b0 \<and> b0 \<le> 0xF4 then
        (case r of
           b1 # r' \<Rightarrow>
             if second4 b0 b1 then
               (case r' of
                  b2 # r'' \<Rightarrow>
                    if cont b2 then
                      (case r'' of
                         b3 # r''' \<Rightarrow>
                           if cont b3 then b0 # b1 # b2 # b3 # utf8_lossy r''' else replacement @ utf8_lossy r''
                       | [] \<Rightarrow> replacement)
                    else replacement @ utf8_lossy r'
                | [] \<Rightarrow> replacement)
             else replacement @ utf8_lossy r
         | [] \<Rightarrow> replacement)
      else replacement @ utf8_lossy r)"

declare utf8_lossy.simps(2) [simp del]

lemma utf8_lossy_valid: "utf8_valid s \<Longrightarrow> utf8_lossy s = s"
proof (induction s rule: utf8_valid.induct)
  case (2 b0 r)
  consider (one) "b0 < 0x80" | (two) "\<not> b0 < 0x80" "0xC2 \<le> b0 \<and> b0 \<le> 0xDF"
    | (three) "\<not> b0 < 0x80" "\<not> (0xC2 \<le> b0 \<and> b0 \<le> 0xDF)" "0xE0 \<le> b0 \<and> b0 \<le> 0xEF"
    | (four) "\<not> b0 < 0x80" "\<not> (0xC2 \<le> b0 \<and> b0 \<le> 0xDF)" "\<not> (0xE0 \<le> b0 \<and> b0 \<le> 0xEF)"
        "0xF0 \<le> b0 \<and> b0 \<le> 0xF4"
    | (bad) "\<not> b0 < 0x80" "\<not> (0xC2 \<le> b0 \<and> b0 \<le> 0xDF)" "\<not> (0xE0 \<le> b0 \<and> b0 \<le> 0xEF)"
        "\<not> (0xF0 \<le> b0 \<and> b0 \<le> 0xF4)"
    by argo
  then show ?case
  proof cases
    case one
    then show ?thesis using "2.IH"(1) "2.prems" by (simp add: utf8_lossy.simps(2) [of b0])
  next
    case two
    then obtain b1 r' where r: "r = b1 # r'" "cont b1" "utf8_valid r'"
      using "2.prems" by (cases r) simp_all
    then show ?thesis using "2.IH"(2) [OF two r(1,3)] two by (simp add: utf8_lossy.simps(2) [of b0])
  next
    case three
    then obtain b1 b2 r' where r: "r = b1 # b2 # r'" "second3 b0 b1" "cont b2" "utf8_valid r'"
      using "2.prems" by (cases r; cases "tl r") simp_all
    then show ?thesis using "2.IH"(3) [OF three r(1) refl r(4)] three by (auto simp: utf8_lossy.simps(2) [of b0])
  next
    case four
    then obtain b1 b2 b3 r' where r: "r = b1 # b2 # b3 # r'" "second4 b0 b1" "cont b2" "cont b3" "utf8_valid r'"
      using "2.prems" by (cases r; cases "tl r"; cases "tl (tl r)") simp_all
    then show ?thesis using "2.IH"(4) [OF four r(1) refl refl r(5)] four by (auto simp: utf8_lossy.simps(2) [of b0])
  next
    case bad
    then show ?thesis using "2.prems" by (simp only: utf8_valid.simps if_False)
  qed
qed simp

subsection \<open>White space and lines\<close>

text \<open>The length in bytes of a white-space character (Unicode \<^verbatim>\<open>White_Space\<close>) at the front, or 0.\<close>

fun ws_len :: "bytes \<Rightarrow> nat" where
  "ws_len [] = 0"
| "ws_len (b0 # r) =
     (if (9 \<le> b0 \<and> b0 \<le> 13) \<or> b0 = 32 then 1
      else if b0 = 0xC2 then (case r of b1 # _ \<Rightarrow> if b1 = 0x85 \<or> b1 = 0xA0 then 2 else 0 | [] \<Rightarrow> 0)
      else if b0 = 0xE1 then (case r of b1 # b2 # _ \<Rightarrow> if b1 = 0x9A \<and> b2 = 0x80 then 3 else 0 | _ \<Rightarrow> 0)
      else if b0 = 0xE2 then
        (case r of b1 # b2 # _ \<Rightarrow>
           if (b1 = 0x80 \<and> (0x80 \<le> b2 \<and> b2 \<le> 0x8A \<or> b2 = 0xA8 \<or> b2 = 0xA9 \<or> b2 = 0xAF))
              \<or> (b1 = 0x81 \<and> b2 = 0x9F) then 3 else 0
         | _ \<Rightarrow> 0)
      else if b0 = 0xE3 then (case r of b1 # b2 # _ \<Rightarrow> if b1 = 0x80 \<and> b2 = 0x80 then 3 else 0 | _ \<Rightarrow> 0)
      else 0)"

declare ws_len.simps(2) [simp del]

lemma ws_len_le: "ws_len bs \<le> length bs"
  by (cases bs) (auto simp: ws_len.simps(2) split: list.splits)

text \<open>\<^verbatim>\<open>str::split_whitespace\<close>: \<open>acc\<close> is the field read so far.\<close>

function split_ws :: "bytes \<Rightarrow> bytes \<Rightarrow> bytes list" where
  "split_ws acc bs =
     (case bs of
        [] \<Rightarrow> (if acc = [] then [] else [acc])
      | b # r \<Rightarrow>
          if ws_len bs = 0 then split_ws (acc @ [b]) r
          else (if acc = [] then [] else [acc]) @ split_ws [] (drop (ws_len bs) bs))"
  by pat_completeness auto
termination
  by (relation "measure (\<lambda>(acc, bs). length bs)") auto

declare split_ws.simps [simp del]

definition split_whitespace :: "bytes \<Rightarrow> bytes list" where
  "split_whitespace s = split_ws [] s"

text \<open>\<^verbatim>\<open>str::split(c)\<close> and \<^verbatim>\<open>str::lines\<close>.\<close>

fun split_at :: "byte \<Rightarrow> bytes \<Rightarrow> bytes list" where
  "split_at c [] = [[]]"
| "split_at c (b # r) =
     (if b = c then [] # split_at c r
      else case split_at c r of x # xs \<Rightarrow> (b # x) # xs | [] \<Rightarrow> [[b]])"

definition strip_cr :: "bytes \<Rightarrow> bytes" where
  "strip_cr s = (if s \<noteq> [] \<and> last s = 13 then butlast s else s)"

definition str_lines :: "bytes \<Rightarrow> bytes list" where
  "str_lines s =
     (let ls = split_at 10 s in map strip_cr (if last ls = [] then butlast ls else ls))"

text \<open>\<^verbatim>\<open>slice::join\<close>.\<close>

fun join :: "bytes \<Rightarrow> bytes list \<Rightarrow> bytes" where
  "join sep [] = []"
| "join sep [s] = s"
| "join sep (s # t # r) = s @ sep @ join sep (t # r)"

subsection \<open>Laws\<close>

text \<open>A word: not empty and without white space, even across its own boundaries.\<close>

definition ws_free :: "bytes \<Rightarrow> bool" where
  "ws_free s \<longleftrightarrow> (\<forall>b \<in> set s. 32 < b \<and> b < 0x80)"

lemma ws_len_ascii: "32 < b \<Longrightarrow> b < 0x80 \<Longrightarrow> ws_len (b # r) = 0"
  by (auto simp: ws_len.simps(2) word_le_nat_alt word_less_nat_alt)

lemma split_ws_word: "ws_free w \<Longrightarrow> split_ws acc (w @ r) = split_ws (acc @ w) r"
proof (induction w arbitrary: acc)
  case Nil
  then show ?case by simp
next
  case (Cons b w)
  then show ?case by (simp add: split_ws.simps [of acc] ws_len_ascii ws_free_def)
qed

lemma split_ws_blank: "split_ws acc (32 # r) = (if acc = [] then [] else [acc]) @ split_ws [] r"
  by (subst split_ws.simps) (simp add: ws_len.simps(2))

lemma split_ws_end: "split_ws acc [] = (if acc = [] then [] else [acc])"
  by (subst split_ws.simps) simp

lemma split_whitespace_join:
  assumes "\<forall>w \<in> set ws. ws_free w"
  shows "split_whitespace (join [32] ws) = filter (\<lambda>w. w \<noteq> []) ws"
proof -
  have "split_ws [] (join [32] ws) = filter (\<lambda>w. w \<noteq> []) ws"
    using assms
  proof (induction ws rule: induct_list012)
    case (2 w)
    then show ?case using split_ws_word [of w "[]" "[]"] by (simp add: split_ws_end)
  next
    case (3 w v ws)
    then show ?case using split_ws_word [of w "[]" "32 # join [32] (v # ws)"] by (simp add: split_ws_blank)
  qed (simp add: split_ws_end)
  then show ?thesis by (simp add: split_whitespace_def)
qed

lemma split_at_not_Nil [simp]: "split_at c s \<noteq> []"
  by (induction s) (auto split: list.splits)

lemma split_at_none: "c \<notin> set s \<Longrightarrow> split_at c s = [s]"
  by (induction s) auto

lemma split_at_append: "c \<notin> set s \<Longrightarrow> split_at c (s @ c # r) = s # split_at c r"
  by (induction s) auto

lemma split_at_join:
  "ws \<noteq> [] \<Longrightarrow> \<forall>w \<in> set ws. c \<notin> set w \<Longrightarrow> split_at c (join [c] ws) = ws"
  by (induction "[c]" ws rule: join.induct) (auto simp: split_at_none split_at_append)

lemma str_lines_concat:
  assumes "\<forall>l \<in> set ls. 10 \<notin> set l \<and> 13 \<notin> set l"
  shows "str_lines (concat (map (\<lambda>l. l @ [10]) ls)) = ls"
proof -
  have "split_at 10 (concat (map (\<lambda>l. l @ [10]) ls)) = ls @ [[]]"
    using assms by (induction ls) (auto simp: split_at_append)
  moreover have "map strip_cr ls = ls"
    using assms last_in_set by (fastforce intro!: map_idI simp: strip_cr_def)
  ultimately show ?thesis by (simp add: str_lines_def)
qed

text \<open>\<^verbatim>\<open>str::trim\<close>.\<close>

function all_ws :: "bytes \<Rightarrow> bool" where
  "all_ws s = (if s = [] then True else if ws_len s = 0 then False else all_ws (drop (ws_len s) s))"
  by pat_completeness auto
termination
  by (relation "measure length") auto

function trim_start_ws :: "bytes \<Rightarrow> bytes" where
  "trim_start_ws s = (if s = [] \<or> ws_len s = 0 then s else trim_start_ws (drop (ws_len s) s))"
  by pat_completeness auto
termination
  by (relation "measure length") auto

declare all_ws.simps [simp del] trim_start_ws.simps [simp del]

fun trim_end_ws :: "bytes \<Rightarrow> bytes" where
  "trim_end_ws [] = []"
| "trim_end_ws (b # r) = (if all_ws (b # r) then [] else b # trim_end_ws r)"

definition trim :: "bytes \<Rightarrow> bytes" where
  "trim s = trim_end_ws (trim_start_ws s)"

lemma ws_len_pure_ascii: "b < 0x80 \<Longrightarrow> ws_len (b # r) = (if (9 \<le> b \<and> b \<le> 13) \<or> b = 32 then 1 else 0)"
  by (auto simp: ws_len.simps(2) word_le_nat_alt word_less_nat_alt)

lemma split_ws_step:
  "split_ws acc (b # r) =
     (if ws_len (b # r) = 0 then split_ws (acc @ [b]) r
      else (if acc = [] then [] else [acc]) @ split_ws [] (drop (ws_len (b # r)) (b # r)))"
  by (subst split_ws.simps) simp

lemma split_ws_all_ws: "all_ws s \<Longrightarrow> split_ws acc s = (if acc = [] then [] else [acc])"
proof (induction s arbitrary: acc rule: all_ws.induct)
  case (1 s)
  show ?case
  proof (cases s)
    case Nil
    then show ?thesis by (simp add: split_ws_end)
  next
    case (Cons b r)
    then have *: "s \<noteq> []" by simp
    then have "ws_len s \<noteq> 0" "all_ws (drop (ws_len s) s)"
      using "1.prems" all_ws.simps [of s] by (auto split: if_splits)
    then show ?thesis using "1.IH" [OF * _, of "[]"] Cons by (simp add: split_ws_step)
  qed
qed

lemma split_ws_trim_end_ws:
  "\<forall>b \<in> set s. b < 0x80 \<Longrightarrow> split_ws acc (trim_end_ws s) = split_ws acc s"
proof (induction s arbitrary: acc)
  case (Cons b r)
  show ?case
  proof (cases "all_ws (b # r)")
    case True
    then show ?thesis by (simp add: split_ws_all_ws split_ws_end)
  next
    case False
    have "ws_len (b # trim_end_ws r) = ws_len (b # r)" "ws_len (b # r) \<le> 1"
      using Cons.prems by (simp_all add: ws_len_pure_ascii)
    then show ?thesis using False Cons by (auto simp: split_ws_step le_Suc_eq)
  qed
qed simp

lemma trim_word:
  assumes "b # r = w @ r'" "ws_free w" "w \<noteq> []"
  shows "trim_start_ws (b # r) = b # r" and "trim_end_ws (b # r) \<noteq> []" and "hd (trim_end_ws (b # r)) = b"
proof -
  have "ws_len (b # r) = 0"
    using assms by (cases w) (auto simp: ws_free_def ws_len_ascii)
  then show "trim_start_ws (b # r) = b # r" "trim_end_ws (b # r) \<noteq> []" "hd (trim_end_ws (b # r)) = b"
    by (simp_all add: trim_start_ws.simps [of "b # r"] all_ws.simps [of "b # r"])
qed

end
