(* ===== verification/Cluster_Slots.thy ===== *)
theory Cluster_Slots
  imports Resp Rust_Text
begin

text \<open>
  Hash slots: the table-driven CRC-16 and the hash-tag rule of \<^verbatim>\<open>crates/cluster/src/slots.rs\<close>, and
  the CLUSTER command of a server without cluster mode (\<^verbatim>\<open>crates/commands/src/cluster.rs\<close>), which
  has its own bitwise CRC-16. A slot is a \<^verbatim>\<open>u16\<close>, here a natural number; the CRC works on
  16-bit words.
\<close>

unbundle bit_operations_syntax

subsection \<open>The slot of a key\<close>

definition CRC16_TAB :: "16 word list" where
  "CRC16_TAB = [
     0x0000, 0x1021, 0x2042, 0x3063, 0x4084, 0x50a5, 0x60c6, 0x70e7, 0x8108, 0x9129, 0xa14a, 0xb16b,
     0xc18c, 0xd1ad, 0xe1ce, 0xf1ef, 0x1231, 0x0210, 0x3273, 0x2252, 0x52b5, 0x4294, 0x72f7, 0x62d6,
     0x9339, 0x8318, 0xb37b, 0xa35a, 0xd3bd, 0xc39c, 0xf3ff, 0xe3de, 0x2462, 0x3443, 0x0420, 0x1401,
     0x64e6, 0x74c7, 0x44a4, 0x5485, 0xa56a, 0xb54b, 0x8528, 0x9509, 0xe5ee, 0xf5cf, 0xc5ac, 0xd58d,
     0x3653, 0x2672, 0x1611, 0x0630, 0x76d7, 0x66f6, 0x5695, 0x46b4, 0xb75b, 0xa77a, 0x9719, 0x8738,
     0xf7df, 0xe7fe, 0xd79d, 0xc7bc, 0x48c4, 0x58e5, 0x6886, 0x78a7, 0x0840, 0x1861, 0x2802, 0x3823,
     0xc9cc, 0xd9ed, 0xe98e, 0xf9af, 0x8948, 0x9969, 0xa90a, 0xb92b, 0x5af5, 0x4ad4, 0x7ab7, 0x6a96,
     0x1a71, 0x0a50, 0x3a33, 0x2a12, 0xdbfd, 0xcbdc, 0xfbbf, 0xeb9e, 0x9b79, 0x8b58, 0xbb3b, 0xab1a,
     0x6ca6, 0x7c87, 0x4ce4, 0x5cc5, 0x2c22, 0x3c03, 0x0c60, 0x1c41, 0xedae, 0xfd8f, 0xcdec, 0xddcd,
     0xad2a, 0xbd0b, 0x8d68, 0x9d49, 0x7e97, 0x6eb6, 0x5ed5, 0x4ef4, 0x3e13, 0x2e32, 0x1e51, 0x0e70,
     0xff9f, 0xefbe, 0xdfdd, 0xcffc, 0xbf1b, 0xaf3a, 0x9f59, 0x8f78, 0x9188, 0x81a9, 0xb1ca, 0xa1eb,
     0xd10c, 0xc12d, 0xf14e, 0xe16f, 0x1080, 0x00a1, 0x30c2, 0x20e3, 0x5004, 0x4025, 0x7046, 0x6067,
     0x83b9, 0x9398, 0xa3fb, 0xb3da, 0xc33d, 0xd31c, 0xe37f, 0xf35e, 0x02b1, 0x1290, 0x22f3, 0x32d2,
     0x4235, 0x5214, 0x6277, 0x7256, 0xb5ea, 0xa5cb, 0x95a8, 0x8589, 0xf56e, 0xe54f, 0xd52c, 0xc50d,
     0x34e2, 0x24c3, 0x14a0, 0x0481, 0x7466, 0x6447, 0x5424, 0x4405, 0xa7db, 0xb7fa, 0x8799, 0x97b8,
     0xe75f, 0xf77e, 0xc71d, 0xd73c, 0x26d3, 0x36f2, 0x0691, 0x16b0, 0x6657, 0x7676, 0x4615, 0x5634,
     0xd94c, 0xc96d, 0xf90e, 0xe92f, 0x99c8, 0x89e9, 0xb98a, 0xa9ab, 0x5844, 0x4865, 0x7806, 0x6827,
     0x18c0, 0x08e1, 0x3882, 0x28a3, 0xcb7d, 0xdb5c, 0xeb3f, 0xfb1e, 0x8bf9, 0x9bd8, 0xabbb, 0xbb9a,
     0x4a75, 0x5a54, 0x6a37, 0x7a16, 0x0af1, 0x1ad0, 0x2ab3, 0x3a92, 0xfd2e, 0xed0f, 0xdd6c, 0xcd4d,
     0xbdaa, 0xad8b, 0x9de8, 0x8dc9, 0x7c26, 0x6c07, 0x5c64, 0x4c45, 0x3ca2, 0x2c83, 0x1ce0, 0x0cc1,
     0xef1f, 0xff3e, 0xcf5d, 0xdf7c, 0xaf9b, 0xbfba, 0x8fd9, 0x9ff8, 0x6e17, 0x7e36, 0x4e55, 0x5e74,
     0x2e93, 0x3eb2, 0x0ed1, 0x1ef0]"

definition crc16_step :: "16 word \<Rightarrow> byte \<Rightarrow> 16 word" where
  "crc16_step crc b =
     (let idx = (drop_bit 8 crc XOR ucast b) AND 0xFF
      in (CRC16_TAB ! unat idx) XOR push_bit 8 crc)"

definition crc16 :: "bytes \<Rightarrow> 16 word" where
  "crc16 d = foldl crc16_step 0 d"

text \<open>\<^verbatim>\<open>{\<close> is byte 123 and \<^verbatim>\<open>}\<close> byte 125.\<close>

definition extract_hashtag :: "bytes \<Rightarrow> bytes" where
  "extract_hashtag key =
     (case position (\<lambda>b. b = 123) key of
        None \<Rightarrow> []
      | Some i \<Rightarrow>
          (let rest = drop (i + 1) key in
           case position (\<lambda>b. b = 125) rest of
             Some e \<Rightarrow> (let tag = take e rest in if tag \<noteq> [] then tag else [])
           | None \<Rightarrow> []))"

definition key_hash_slot :: "bytes \<Rightarrow> nat" where
  "key_hash_slot key =
     (let tag = extract_hashtag key; d = (if tag \<noteq> [] then tag else key)
      in unat (crc16 d) mod 16384)"

subsection \<open>The CLUSTER command without cluster mode\<close>

text \<open>One round of the inner loop, and the whole bitwise CRC.\<close>

definition crc_shift :: "16 word \<Rightarrow> 16 word" where
  "crc_shift crc = (if crc AND 0x8000 \<noteq> 0 then push_bit 1 crc XOR 0x1021 else push_bit 1 crc)"

definition crc16_xmodem :: "bytes \<Rightarrow> 16 word" where
  "crc16_xmodem d = foldl (\<lambda>crc b. (crc_shift ^^ 8) (crc XOR push_bit 8 (ucast b))) 0 d"

definition stub_disabled :: RespValue where
  "stub_disabled = Error (ascii ''ERR This instance has cluster support disabled'')"

definition stub_info :: RespValue where
  "stub_info = BulkString (Some (concat (map (\<lambda>l. ascii l @ [13, 10])
     [''cluster_state:fail'', ''cluster_slots_assigned:0'', ''cluster_slots_ok:0'',
      ''cluster_slots_pfail:0'', ''cluster_slots_fail:0'', ''cluster_known_nodes:0'',
      ''cluster_size:0'', ''cluster_current_epoch:0'', ''cluster_my_epoch:0'',
      ''cluster_stats_messages_ping_sent:0'', ''cluster_stats_messages_pong_sent:0'',
      ''cluster_stats_messages_sent:0'', ''cluster_stats_messages_ping_received:0'',
      ''cluster_stats_messages_pong_received:0'', ''cluster_stats_messages_meet_received:0'',
      ''cluster_stats_messages_received:0''])))"

definition stub_meet :: "bytes list \<Rightarrow> RespValue" where
  "stub_meet args =
     (if length args < 2 then Error (ascii ''ERR wrong number of arguments for 'CLUSTER MEET' command'')
      else stub_disabled)"

definition stub_keyslot :: "bytes list \<Rightarrow> RespValue" where
  "stub_keyslot args =
     (case args of
        [] \<Rightarrow> Error (ascii ''ERR wrong number of arguments for 'CLUSTER KEYSLOT' command'')
      | key # _ \<Rightarrow> Integer (int (unat (crc16_xmodem key) mod 16384)))"

definition stub_getkeysinslot :: "bytes list \<Rightarrow> RespValue" where
  "stub_getkeysinslot args =
     (if length args < 2
      then Error (ascii ''ERR wrong number of arguments for 'CLUSTER GETKEYSINSLOT' command'')
      else Array (Some []))"

definition stub_countkeysinslot :: "bytes list \<Rightarrow> RespValue" where
  "stub_countkeysinslot args =
     (if args = []
      then Error (ascii ''ERR wrong number of arguments for 'CLUSTER COUNTKEYSINSLOT' command'')
      else Integer 0)"

definition stub_setslot :: "bytes list \<Rightarrow> RespValue" where
  "stub_setslot args =
     (if length args < 2
      then Error (ascii ''ERR wrong number of arguments for 'CLUSTER SETSLOT' command'')
      else stub_disabled)"

definition stub_handle :: "bytes list \<Rightarrow> RespValue" where
  "stub_handle args =
     (case args of
        [] \<Rightarrow> Error (ascii ''ERR wrong number of arguments for 'cluster' command'')
      | sub # sub_args \<Rightarrow>
          (case from_utf8 sub of
             None \<Rightarrow> Error (ascii ''ERR invalid subcommand'')
           | Some s \<Rightarrow>
               (let subcmd = to_upper s in
                if subcmd = ascii ''INFO'' then stub_info
                else if subcmd = ascii ''NODES'' then BulkString None
                else if subcmd = ascii ''MEET'' then stub_meet sub_args
                else if subcmd = ascii ''RESET'' then stub_disabled
                else if subcmd = ascii ''KEYSLOT'' then stub_keyslot sub_args
                else if subcmd = ascii ''MYID'' then BulkString None
                else if subcmd = ascii ''SLOTS'' then Array (Some [])
                else if subcmd = ascii ''SAVECONFIG'' then SimpleString (ascii ''OK'')
                else if subcmd = ascii ''GETKEYSINSLOT'' then stub_getkeysinslot sub_args
                else if subcmd = ascii ''COUNTKEYSINSLOT'' then stub_countkeysinslot sub_args
                else if subcmd = ascii ''ADDSLOTS'' then stub_disabled
                else if subcmd = ascii ''DELSLOTS'' then stub_disabled
                else if subcmd = ascii ''SETSLOT'' then stub_setslot sub_args
                else if subcmd = ascii ''REPLICATE'' then stub_disabled
                else if subcmd = ascii ''FAILOVER'' then stub_disabled
                else if subcmd = ascii ''BUMPEPOCH'' then Integer 0
                else Error (ascii ''ERR unknown CLUSTER subcommand '' @ [39] @ subcmd @ [39]))))"

text \<open>\<^verbatim>\<open>crates/commands/src/asking.rs\<close>: the command is acknowledged and nothing else.\<close>

definition asking_handle :: "bytes list \<Rightarrow> RespValue" where
  "asking_handle args = SimpleString (ascii ''OK'')"

subsection \<open>The table is eight shifts\<close>

lemma funpow8: "(f ^^ 8) x = f (f (f (f (f (f (f (f x)))))))"
  by (simp add: numeral_eq_Suc)

lemmas crc_shift_eval = crc_shift_def [of 0] crc_shift_def [of 1] crc_shift_def [of "numeral n" for n]

lemma CRC16_TAB_shift: "CRC16_TAB = map (\<lambda>i. (crc_shift ^^ 8) (push_bit 8 (of_nat i))) [0..<256]"
  unfolding CRC16_TAB_def funpow8
  by (simp add: upt_rec [of 0 256] upt_rec [of "Suc 0" 256] numeral_2_eq_2 [symmetric]
      upt_rec_numeral crc_shift_eval)

lemma top_bit: "crc AND 0x8000 \<noteq> 0 \<longleftrightarrow> bit crc 15" for crc :: "16 word"
  using and_exp_eq_0_iff_not_bit [of crc 15] by simp

lemma crc_shift_linear: "crc_shift (a XOR b) = crc_shift a XOR crc_shift b"
  unfolding crc_shift_def top_bit bit_xor_iff by (auto simp: push_bit_xor ac_simps)

lemma crc_shift_pow_linear: "(crc_shift ^^ n) (a XOR b) = (crc_shift ^^ n) a XOR (crc_shift ^^ n) b"
  by (induction n) (simp_all add: crc_shift_linear)

lemma mask8: "(0xFF :: 16 word) = mask 8"
  by (simp add: mask_eq_exp_minus_1)

lemma crc_shift_low: "n \<le> 8 \<Longrightarrow> (crc_shift ^^ n) (c AND 0xFF) = push_bit n (c AND 0xFF)"
proof (induction n)
  case (Suc n)
  have "\<not> bit (push_bit n (c AND 0xFF)) 15" using Suc.prems by (auto simp: bit_simps mask8)
  then show ?case using Suc by (simp add: crc_shift_def top_bit)
qed simp

lemma crc_byte_table: "(crc_shift ^^ 8) (crc XOR push_bit 8 (ucast b)) = crc16_step crc b"
proof -
  define idx :: "16 word" where "idx = (drop_bit 8 crc XOR ucast b) AND 0xFF"
  have split: "crc XOR push_bit 8 (ucast b) = push_bit 8 idx XOR (crc AND 0xFF)"
    unfolding idx_def mask8 by (rule bit_eqI) (auto simp: bit_simps)
  have "unat idx < 256"
    unfolding idx_def mask8 take_bit_eq_mask [symmetric]
    by (simp add: take_bit_eq_mod unat_mod_distrib)
  then have hi: "(crc_shift ^^ 8) (push_bit 8 idx) = CRC16_TAB ! unat idx"
    by (simp add: CRC16_TAB_shift)
  have "(crc_shift ^^ 8) (crc AND 0xFF) = push_bit 8 (crc AND 0xFF)"
    by (rule crc_shift_low) simp
  also have "\<dots> = push_bit 8 crc"
    unfolding mask8 by (rule bit_eqI) (auto simp: bit_simps)
  finally have lo: "(crc_shift ^^ 8) (crc AND 0xFF) = push_bit 8 crc" .
  show ?thesis
    by (simp only: split crc_shift_pow_linear hi lo crc16_step_def idx_def [symmetric] Let_def)
qed

lemma crc16_bitwise: "crc16 d = crc16_xmodem d"
  by (simp add: crc16_def crc16_xmodem_def crc_byte_table)

subsection \<open>Hash tags\<close>

lemma position_append: "\<forall>x \<in> set xs. \<not> P x \<Longrightarrow> P y \<Longrightarrow> position P (xs @ y # ys) = Some (length xs)"
  by (induction xs) auto

lemma extract_hashtag_tag:
  assumes "123 \<notin> set p" "125 \<notin> set t"
  shows "extract_hashtag (p @ 123 # t @ 125 # s) = t"
proof -
  have "position (\<lambda>b. b = 123) (p @ 123 # t @ 125 # s) = Some (length p)"
    using assms(1) by (intro position_append) auto
  moreover have "position (\<lambda>b. b = 125) (t @ 125 # s) = Some (length t)"
    using assms(2) by (intro position_append) auto
  ultimately show ?thesis by (simp add: extract_hashtag_def)
qed

lemma extract_hashtag_none:
  assumes "123 \<notin> set key"
  shows "extract_hashtag key = []"
proof -
  have "position (\<lambda>b. b = 123) key = None" using assms by (auto simp: position_None_iff)
  then show ?thesis by (simp add: extract_hashtag_def)
qed

subsection \<open>Properties\<close>

text \<open>
  C21. The two implementations of the slot checksum agree: on every byte string the
  table-driven CRC-16 of the cluster crate equals the bit-by-bit CRC-16 of the CLUSTER command,
  so on a key without an opening brace CLUSTER KEYSLOT answers the slot the cluster router uses,
  and that slot is below 16384.
\<close>

theorem crc16_implementations_agree:
  "crc16 d = crc16_xmodem d
   \<and> (123 \<notin> set key \<longrightarrow> stub_keyslot [key] = Integer (int (key_hash_slot key)))
   \<and> key_hash_slot key < 16384"
  by (simp add: crc16_bitwise key_hash_slot_def stub_keyslot_def extract_hashtag_none Let_def)

theorem crc16_implementations_agree_witness:
  "stub_keyslot [ascii ''foo''] = Integer (int (key_hash_slot (ascii ''foo'')))
   \<and> key_hash_slot (ascii ''foo'') < 16384"
  using crc16_implementations_agree [where d = "[]" and key = "ascii ''foo''"] by simp

text \<open>
  C22. A key with a non-empty tag in braces is placed by the tag alone: keys that share the
  tag share the slot. An empty tag is ignored and the whole key is hashed. The CLUSTER KEYSLOT of
  a server without cluster mode ignores tags: it answers different slots for \<^verbatim>\<open>{user}1000\<close> and
  \<^verbatim>\<open>{user}2000\<close>, which the router places together.
\<close>

theorem hash_tag_placement:
  assumes "123 \<notin> set p" "125 \<notin> set t" "t \<noteq> []" "123 \<notin> set p'"
  shows "key_hash_slot (p @ 123 # t @ 125 # s) = key_hash_slot (p' @ 123 # t @ 125 # s')
    \<and> key_hash_slot (p @ 123 # t @ 125 # s) = unat (crc16 t) mod 16384
    \<and> key_hash_slot (p @ 123 # 125 # s) = unat (crc16 (p @ 123 # 125 # s)) mod 16384
    \<and> stub_keyslot [ascii ''{user}1000''] \<noteq> stub_keyslot [ascii ''{user}2000'']"
proof (intro conjI)
  show "key_hash_slot (p @ 123 # t @ 125 # s) = key_hash_slot (p' @ 123 # t @ 125 # s')"
    and "key_hash_slot (p @ 123 # t @ 125 # s) = unat (crc16 t) mod 16384"
    using assms by (simp_all add: key_hash_slot_def extract_hashtag_tag Let_def)
  show "key_hash_slot (p @ 123 # 125 # s) = unat (crc16 (p @ 123 # 125 # s)) mod 16384"
    using extract_hashtag_tag [OF assms(1), of "[]"] by (simp add: key_hash_slot_def Let_def)
  show "stub_keyslot [ascii ''{user}1000''] \<noteq> stub_keyslot [ascii ''{user}2000'']"
    by (simp add: stub_keyslot_def crc16_xmodem_def funpow8 crc_shift_eval ascii_def)
qed

theorem hash_tag_placement_witness:
  "key_hash_slot (ascii ''{user}1000'') = key_hash_slot (ascii ''{user}2000'')"
  using hash_tag_placement [where p = "[]" and p' = "[]" and t = "ascii ''user''"
      and s = "ascii ''1000''" and s' = "ascii ''2000''"] by (simp add: ascii_def)

end
