(* ===== verification/Cluster_State.thy ===== *)
theory Cluster_State
  imports Cluster_Slots
begin

text \<open>
  The cluster topology of \<^verbatim>\<open>crates/cluster/src/state.rs\<close>: slot migration states, node flags and
  node records with their text form, and \<^verbatim>\<open>ClusterState\<close> with its operations. The \<^verbatim>\<open>RwLock\<close>s are
  held within one call only, so a call is atomic on the fields it locks; what the model keeps of
  them is poisoning: a panic while a write guard is held poisons its lock, and every later
  \<open>unwrap\<close> of an acquisition of it panics. Only four locks can be held across a panic. The field
  \<open>cs_nodes_conf\<close> is the content of the nodes.conf file.
\<close>

definition NUM_SLOTS :: nat where "NUM_SLOTS = 16384"

subsection \<open>Slot states\<close>

datatype SlotState = Normal | Migrating bytes | Importing bytes

fun ss_is_migrating :: "SlotState \<Rightarrow> bool" where
  "ss_is_migrating (Migrating _) = True"
| "ss_is_migrating _ = False"

fun ss_is_importing :: "SlotState \<Rightarrow> bool" where
  "ss_is_importing (Importing _) = True"
| "ss_is_importing _ = False"

fun migrating_target :: "SlotState \<Rightarrow> bytes option" where
  "migrating_target (Migrating t) = Some t"
| "migrating_target _ = None"

fun importing_source :: "SlotState \<Rightarrow> bytes option" where
  "importing_source (Importing t) = Some t"
| "importing_source _ = None"

text \<open>The error texts of the source are the two constructors, with the values they print.\<close>

datatype slot_error = OutOfRange nat | InvalidTransition SlotState SlotState

fun transition :: "SlotState \<Rightarrow> SlotState \<Rightarrow> slot_error + unit" where
  "transition Normal _ = Inr ()"
| "transition (Migrating _) Normal = Inr ()"
| "transition (Migrating _) (Migrating _) = Inr ()"
| "transition (Importing _) Normal = Inr ()"
| "transition (Importing _) (Importing _) = Inr ()"
| "transition old new = Inl (InvalidTransition old new)"

subsection \<open>Nodes\<close>

datatype NodeRole = Master | Slave

fun role_str :: "NodeRole \<Rightarrow> bytes" where
  "role_str Master = ascii ''master''"
| "role_str Slave = ascii ''slave''"

record NodeFlags =
  nf_myself :: bool
  nf_master :: bool
  nf_slave :: bool
  nf_pfail :: bool
  nf_fail :: bool
  nf_noaddr :: bool
  nf_handshake :: bool
  nf_noflags :: bool

definition flags_default :: NodeFlags where
  "flags_default = \<lparr>nf_myself = False, nf_master = False, nf_slave = False, nf_pfail = False,
     nf_fail = False, nf_noaddr = False, nf_handshake = False, nf_noflags = False\<rparr>"

definition flag_words :: "NodeFlags \<Rightarrow> bytes list" where
  "flag_words f =
     (if nf_myself f then [ascii ''myself''] else [])
     @ (if nf_master f then [ascii ''master''] else [])
     @ (if nf_slave f then [ascii ''slave''] else [])
     @ (if nf_pfail f then [ascii ''pfail''] else [])
     @ (if nf_fail f then [ascii ''fail''] else [])
     @ (if nf_noaddr f then [ascii ''noaddr''] else [])
     @ (if nf_handshake f then [ascii ''handshake''] else [])
     @ (if nf_noflags f then [ascii ''noflags''] else [])"

definition flags_to_str :: "NodeFlags \<Rightarrow> bytes" where
  "flags_to_str f = join [44] (flag_words f)"

datatype SlotRange = SlotRange (sr_start: nat) (sr_end: nat)

definition range_contains :: "SlotRange \<Rightarrow> nat \<Rightarrow> bool" where
  "range_contains r slot \<longleftrightarrow> sr_start r \<le> slot \<and> slot \<le> sr_end r"

record NodeInfo =
  ni_id :: bytes
  ni_addr :: bytes
  ni_role :: NodeRole
  ni_epoch :: nat
  ni_flags :: NodeFlags
  ni_slots :: "SlotRange list"

definition node_new :: "bytes \<Rightarrow> bytes \<Rightarrow> NodeRole \<Rightarrow> NodeInfo" where
  "node_new i a r = \<lparr>ni_id = i, ni_addr = a, ni_role = r, ni_epoch = 0, ni_flags = flags_default,
     ni_slots = []\<rparr>"

definition range_str :: "SlotRange \<Rightarrow> bytes" where
  "range_str r =
     (if sr_start r = sr_end r then show_nat (sr_start r)
      else show_nat (sr_start r) @ [45] @ show_nat (sr_end r))"

definition slots_str :: "SlotRange list \<Rightarrow> bytes" where
  "slots_str rs = join [32] (map range_str rs)"

definition to_nodes_line :: "NodeInfo \<Rightarrow> bytes" where
  "to_nodes_line n =
     (let master_id = (if ni_role n = Slave then ascii '' -'' else []); e = show_nat (ni_epoch n)
      in join [32] [ni_id n, ni_addr n, flags_to_str (ni_flags n), master_id, e, e, e,
           slots_str (ni_slots n)])"

subsection \<open>The cluster state\<close>

datatype cluster_lock = LSlots | LSlotStates | LMigrating | LImporting

record ClusterState =
  cs_myself :: NodeInfo
  cs_nodes :: "(bytes, NodeInfo) dict"
  cs_slots :: "bytes option list"
  cs_slot_states :: "SlotState list"
  cs_migrating :: "(nat, bytes) dict"
  cs_importing :: "(nat, bytes) dict"
  cs_current_epoch :: nat
  cs_poisoned :: "cluster_lock list"
  cs_nodes_conf :: "bytes option"

definition cluster_new :: "bytes option \<Rightarrow> NodeInfo \<Rightarrow> ClusterState" where
  "cluster_new conf me = \<lparr>cs_myself = me, cs_nodes = dict_put (ni_id me) me [],
     cs_slots = replicate NUM_SLOTS None, cs_slot_states = replicate NUM_SLOTS Normal,
     cs_migrating = [], cs_importing = [], cs_current_epoch = 0, cs_poisoned = [],
     cs_nodes_conf = conf\<rparr>"

definition lock_ok :: "cluster_lock \<Rightarrow> ClusterState \<Rightarrow> bool" where
  "lock_ok l s \<longleftrightarrow> l \<notin> set (cs_poisoned s)"

definition poison :: "cluster_lock list \<Rightarrow> ClusterState \<Rightarrow> ClusterState" where
  "poison ls s = s\<lparr>cs_poisoned := ls @ cs_poisoned s\<rparr>"

definition slot_owner :: "nat \<Rightarrow> ClusterState \<Rightarrow> bytes option outcome" where
  "slot_owner slot s =
     (if slot \<ge> NUM_SLOTS then Ret None
      else if lock_ok LSlots s then Ret (cs_slots s ! slot) else Panic)"

definition is_migrating :: "nat \<Rightarrow> ClusterState \<Rightarrow> bytes option outcome" where
  "is_migrating slot s =
     (if lock_ok LMigrating s then Ret (dict_get (cs_migrating s) slot) else Panic)"

definition is_importing :: "nat \<Rightarrow> ClusterState \<Rightarrow> bytes option outcome" where
  "is_importing slot s =
     (if lock_ok LImporting s then Ret (dict_get (cs_importing s) slot) else Panic)"

definition slot_state :: "nat \<Rightarrow> ClusterState \<Rightarrow> SlotState option outcome" where
  "slot_state slot s =
     (if slot \<ge> NUM_SLOTS then Ret None
      else if lock_ok LSlotStates s then Ret (Some (cs_slot_states s ! slot)) else Panic)"

definition set_slot_state :: "nat \<Rightarrow> SlotState \<Rightarrow> ClusterState \<Rightarrow> (slot_error + unit) outcome \<times> ClusterState" where
  "set_slot_state slot new s =
     (if slot \<ge> NUM_SLOTS then (Ret (Inl (OutOfRange slot)), s)
      else if \<not> lock_ok LSlotStates s then (Panic, s)
      else case transition (cs_slot_states s ! slot) new of
             Inl e \<Rightarrow> (Ret (Inl e), s)
           | Inr _ \<Rightarrow> (Ret (Inr ()), s\<lparr>cs_slot_states := (cs_slot_states s)[slot := new]\<rparr>))"

definition own_range :: "bytes \<Rightarrow> SlotRange \<Rightarrow> bytes option list \<Rightarrow> bytes option list" where
  "own_range i r v =
     fold (\<lambda>slot v. if slot < NUM_SLOTS then v[slot := Some i] else v) [sr_start r..<sr_end r + 1] v"

definition assign_slots :: "bytes \<Rightarrow> SlotRange list \<Rightarrow> ClusterState \<Rightarrow> unit outcome \<times> ClusterState" where
  "assign_slots node_id ranges s =
     (if \<not> lock_ok LSlots s then (Panic, s)
      else let s1 = s\<lparr>cs_slots := fold (own_range node_id) ranges (cs_slots s)\<rparr> in
        (Ret (), case dict_get (cs_nodes s1) node_id of
           None \<Rightarrow> s1
         | Some node \<Rightarrow> s1\<lparr>cs_nodes := dict_put node_id (node\<lparr>ni_slots := ranges\<rparr>) (cs_nodes s1)\<rparr>))"

definition merge_node :: "NodeInfo \<Rightarrow> ClusterState \<Rightarrow> ClusterState" where
  "merge_node info s =
     (case dict_get (cs_nodes s) (ni_id info) of
        Some existing \<Rightarrow>
          if ni_epoch info < ni_epoch existing then s
          else s\<lparr>cs_nodes := dict_put (ni_id info) info (cs_nodes s)\<rparr>
      | None \<Rightarrow> s\<lparr>cs_nodes := dict_put (ni_id info) info (cs_nodes s)\<rparr>)"

text \<open>Write the own record and copy it into the node table.\<close>

definition put_self :: "NodeInfo \<Rightarrow> ClusterState \<Rightarrow> ClusterState" where
  "put_self me s = s\<lparr>cs_myself := me, cs_nodes := dict_put (ni_id me) me (cs_nodes s)\<rparr>"

definition set_self_role :: "NodeRole \<Rightarrow> ClusterState \<Rightarrow> ClusterState" where
  "set_self_role role s =
     (let me = cs_myself s; f = ni_flags me;
          f' = (case role of
                  Master \<Rightarrow> f\<lparr>nf_master := True, nf_slave := False\<rparr>
                | Slave \<Rightarrow> f\<lparr>nf_slave := True, nf_master := False\<rparr>)
      in put_self (me\<lparr>ni_role := role, ni_flags := f'\<rparr>) s)"

definition set_self_epoch :: "nat \<Rightarrow> ClusterState \<Rightarrow> ClusterState" where
  "set_self_epoch epoch s = put_self ((cs_myself s)\<lparr>ni_epoch := epoch\<rparr>) s"

definition add_node :: "bytes \<Rightarrow> bytes \<Rightarrow> NodeRole \<Rightarrow> NodeFlags \<Rightarrow> ClusterState \<Rightarrow> ClusterState" where
  "add_node node_id addr role flags s =
     s\<lparr>cs_nodes := dict_put node_id ((node_new node_id addr role)\<lparr>ni_flags := flags\<rparr>) (cs_nodes s)\<rparr>"

definition cluster_info :: "ClusterState \<Rightarrow> bytes outcome" where
  "cluster_info s =
     (if \<not> lock_ok LSlots s then Panic
      else
        let assigned = length (filter (\<lambda>x. x \<noteq> None) (cs_slots s));
            masters = length (filter (\<lambda>(k, n). ni_role n = Master) (cs_nodes s))
        in Ret (join [13, 10]
             [ascii ''cluster_state:'' @ (if assigned > 0 then ascii ''ok'' else ascii ''fail''),
              ascii ''cluster_slots_assigned:'' @ show_nat assigned,
              ascii ''cluster_slots_ok:'' @ show_nat assigned,
              ascii ''cluster_slots_pfail:0'',
              ascii ''cluster_slots_fail:0'',
              ascii ''cluster_known_nodes:'' @ show_nat (length (cs_nodes s)),
              ascii ''cluster_size:'' @ show_nat masters,
              ascii ''cluster_current_epoch:'' @ show_nat (cs_current_epoch s),
              ascii ''cluster_my_epoch:'' @ show_nat (ni_epoch (cs_myself s)),
              ascii ''cluster_stats_messages_sent:0'',
              ascii ''cluster_stats_messages_received:0''] @ [13, 10]))"

definition cluster_nodes :: "ClusterState \<Rightarrow> bytes" where
  "cluster_nodes s = join [13, 10] (map (\<lambda>(k, n). to_nodes_line n) (cs_nodes s)) @ [13, 10]"

text \<open>The seed is the clock in nanoseconds, a \<^verbatim>\<open>u128\<close>.\<close>

definition hex_digit :: "nat \<Rightarrow> byte" where
  "hex_digit n = (if n < 10 then 48 + of_nat n else 87 + of_nat n)"

definition lcg_next :: "128 word \<Rightarrow> 128 word" where
  "lcg_next st = st * 6364136223846793005 + 1442695040888963407"

definition nibble :: "128 word \<Rightarrow> nat" where
  "nibble st = unat (drop_bit 32 st AND 0xF)"

fun gen_nibbles :: "nat \<Rightarrow> 128 word \<Rightarrow> bytes" where
  "gen_nibbles 0 st = []"
| "gen_nibbles (Suc n) st = (let st' = lcg_next st in hex_digit (nibble st') # gen_nibbles n st')"

definition generate_node_id :: "128 word \<Rightarrow> bytes" where
  "generate_node_id seed = gen_nibbles 40 seed"

subsection \<open>The invariant\<close>

text \<open>
  Both slot vectors have one element per slot; the node table is a dictionary in which every
  record sits under its own identifier and this node is present; the legacy migration tables
  are dictionaries over valid slots, and a slot in state \<open>Importing\<close> or \<open>Migrating\<close> has its entry
  in them (a panic may break the last two, but only together with poisoning their lock).
\<close>

definition nodes_ok :: "NodeInfo \<Rightarrow> (bytes, NodeInfo) dict \<Rightarrow> bool" where
  "nodes_ok me ns \<longleftrightarrow> dict_wf ns \<and> dict_get ns (ni_id me) \<noteq> None
     \<and> (\<forall>k n. dict_get ns k = Some n \<longrightarrow> ni_id n = k)"

definition table_ok :: "(bytes \<Rightarrow> SlotState) \<Rightarrow> SlotState list \<Rightarrow> (nat, bytes) dict \<Rightarrow> bool" where
  "table_ok C states d \<longleftrightarrow> (\<forall>i. dict_get d i \<noteq> None \<longrightarrow> i < NUM_SLOTS)
     \<and> (\<forall>i x. i < NUM_SLOTS \<longrightarrow> states ! i = C x \<longrightarrow> dict_get d i = Some x)"

definition cluster_inv :: "ClusterState \<Rightarrow> bool" where
  "cluster_inv s \<longleftrightarrow>
     length (cs_slots s) = NUM_SLOTS \<and> length (cs_slot_states s) = NUM_SLOTS
   \<and> dict_wf (cs_migrating s) \<and> dict_wf (cs_importing s) \<and> nodes_ok (cs_myself s) (cs_nodes s)
   \<and> (lock_ok LImporting s \<longrightarrow> table_ok Importing (cs_slot_states s) (cs_importing s))
   \<and> (lock_ok LMigrating s \<longrightarrow> table_ok Migrating (cs_slot_states s) (cs_migrating s))"

lemma cluster_new_inv [inv_intros]: "cluster_inv (cluster_new conf me)"
  by (auto simp: cluster_inv_def cluster_new_def nodes_ok_def table_ok_def dict_wf_def)

lemma nodes_ok_put: "nodes_ok me ns \<Longrightarrow> ni_id n = k \<Longrightarrow> nodes_ok me (dict_put k n ns)"
  by (auto simp: nodes_ok_def dict_simps hashmap.wf_put)

lemma nodes_ok_put_self: "nodes_ok me ns \<Longrightarrow> nodes_ok n (dict_put (ni_id n) n ns)"
  by (auto simp: nodes_ok_def dict_simps hashmap.wf_put)

lemma put_self_inv [inv_intros]: "cluster_inv s \<Longrightarrow> cluster_inv (put_self me s)"
  by (simp add: cluster_inv_def put_self_def lock_ok_def nodes_ok_put_self [of "cs_myself s"])

lemma set_self_role_inv [inv_intros]: "cluster_inv s \<Longrightarrow> cluster_inv (set_self_role r s)"
  by (simp add: set_self_role_def Let_def put_self_inv)

lemma set_self_epoch_inv [inv_intros]: "cluster_inv s \<Longrightarrow> cluster_inv (set_self_epoch e s)"
  by (simp add: set_self_epoch_def put_self_inv)

lemma insert_node_inv:
  "cluster_inv s \<Longrightarrow> ni_id n = k \<Longrightarrow> cluster_inv (s\<lparr>cs_nodes := dict_put k n (cs_nodes s)\<rparr>)"
  by (simp add: cluster_inv_def lock_ok_def nodes_ok_put)

lemma add_node_inv [inv_intros]: "cluster_inv s \<Longrightarrow> cluster_inv (add_node i a r f s)"
  by (simp add: add_node_def insert_node_inv node_new_def)

lemma merge_node_inv [inv_intros]: "cluster_inv s \<Longrightarrow> cluster_inv (merge_node n s)"
  by (auto simp: merge_node_def insert_node_inv split: option.split)

lemma slots_update_inv:
  "cluster_inv s \<Longrightarrow> length v = NUM_SLOTS \<Longrightarrow> cluster_inv (s\<lparr>cs_slots := v\<rparr>)"
  by (simp add: cluster_inv_def lock_ok_def)

lemma length_own_range [simp]: "length (own_range i r v) = length v"
proof -
  have "length (fold (\<lambda>slot v. if slot < NUM_SLOTS then v[slot := Some i] else v) xs v) = length v" for xs
    by (induction xs arbitrary: v) auto
  then show ?thesis by (simp add: own_range_def)
qed

lemma length_fold_own_range [simp]: "length (fold (own_range i) rs v) = length v"
  by (induction rs arbitrary: v) auto

lemma assign_slots_inv [inv_intros]: "cluster_inv s \<Longrightarrow> cluster_inv (snd (assign_slots i rs s))"
proof -
  assume inv: "cluster_inv s"
  define s1 where "s1 = s\<lparr>cs_slots := fold (own_range i) rs (cs_slots s)\<rparr>"
  have 1: "cluster_inv s1"
    unfolding s1_def by (rule slots_update_inv [OF inv]) (use inv in \<open>simp add: cluster_inv_def\<close>)
  have ids: "dict_get (cs_nodes s1) k = Some n \<Longrightarrow> ni_id n = k" for k n
    using 1 by (simp add: cluster_inv_def nodes_ok_def)
  show ?thesis
  proof (cases "dict_get (cs_nodes s1) i")
    case None
    then show ?thesis using inv 1 by (simp add: assign_slots_def Let_def s1_def [symmetric])
  next
    case (Some n)
    then have "cluster_inv (s1\<lparr>cs_nodes := dict_put i (n\<lparr>ni_slots := rs\<rparr>) (cs_nodes s1)\<rparr>)"
      by (intro insert_node_inv [OF 1]) (simp add: ids)
    then show ?thesis using inv Some by (simp add: assign_slots_def Let_def s1_def [symmetric])
  qed
qed

lemma lock_ok_upd [simp]:
  "lock_ok l (s\<lparr>cs_importing := a\<rparr>) = lock_ok l s"
  "lock_ok l (s\<lparr>cs_migrating := b\<rparr>) = lock_ok l s"
  "lock_ok l (s\<lparr>cs_slot_states := c\<rparr>) = lock_ok l s"
  "lock_ok l (s\<lparr>cs_slots := d\<rparr>) = lock_ok l s"
  "lock_ok l (s\<lparr>cs_nodes := e\<rparr>) = lock_ok l s"
  "lock_ok l (s\<lparr>cs_nodes_conf := f\<rparr>) = lock_ok l s"
  "lock_ok l (s\<lparr>cs_myself := g\<rparr>) = lock_ok l s"
  "lock_ok l (s\<lparr>cs_current_epoch := h\<rparr>) = lock_ok l s"
  "lock_ok l (poison ls s) \<longleftrightarrow> l \<notin> set ls \<and> lock_ok l s"
  by (auto simp: lock_ok_def poison_def)

lemma hex_digit_hex:
  assumes "n < 16"
  shows "48 \<le> hex_digit n \<and> hex_digit n \<le> 57 \<or> 97 \<le> hex_digit n \<and> hex_digit n \<le> 102"
proof -
  have "n \<in> {0, 1, 2, 3, 4, 5, 6, 7, 8, 9, 10, 11, 12, 13, 14, 15}"
    using assms unfolding insert_iff empty_iff by presburger
  then show ?thesis by (auto simp: hex_digit_def)
qed

lemma nibble_less: "nibble st < 16"
proof -
  have m: "(0xF :: 128 word) = mask 4" by (simp add: mask_eq_exp_minus_1)
  show ?thesis
    unfolding nibble_def m take_bit_eq_mask [symmetric] by (simp add: take_bit_eq_mod unat_mod_distrib)
qed

lemma length_gen_nibbles [simp]: "length (gen_nibbles n st) = n"
  by (induction n arbitrary: st) (simp_all add: Let_def)

lemma gen_nibbles_hex: "b \<in> set (gen_nibbles n st) \<Longrightarrow> \<exists>d < 16. b = hex_digit d"
  by (induction n arbitrary: st) (auto simp: Let_def intro: nibble_less)

end
