(* ===== verification/Cluster_Commands.thy ===== *)
theory Cluster_Commands
  imports Cluster_State
begin

text \<open>
  The cluster router and the CLUSTER subcommands of \<^verbatim>\<open>crates/cluster/src/commands.rs\<close>, gossip
  merging (\<^verbatim>\<open>gossip.rs\<close>) and start-up from nodes.conf (\<^verbatim>\<open>lib.rs\<close>). A command gives its reply, or a
  panic, together with the state it leaves, because a panic leaves poisoned locks behind. The
  seed of a fresh identifier is an argument; so is the file system: \<open>wr old new\<close> is the content of
  nodes.conf after \<^verbatim>\<open>fs::write\<close> of \<open>new\<close>, which on an I/O error is only logged.
\<close>

declare ascii_Cons [simp del]

subsection \<open>Routing\<close>

datatype RouteAction = Local | Moved nat bytes | Asking nat bytes

text \<open>The router holds the ASKING flag; routing consumes it.\<close>

definition route :: "bytes \<Rightarrow> bool \<Rightarrow> ClusterState \<Rightarrow> RouteAction outcome \<times> bool" where
  "route key asking s =
     (if asking then (Ret Local, False)
      else
        (let slot = key_hash_slot key;
             owned =
               obind (slot_owner slot s) (\<lambda>ow.
                 Ret (case ow of
                    None \<Rightarrow> Local
                  | Some node_id \<Rightarrow>
                      if node_id = ni_id (cs_myself s) then Local
                      else case dict_get (cs_nodes s) node_id of
                             Some node \<Rightarrow> Moved slot (ni_addr node)
                           | None \<Rightarrow> Local))
         in obind (is_importing slot s) (\<lambda>src.
              case src of
                None \<Rightarrow> owned
              | Some source_id \<Rightarrow>
                  (case dict_get (cs_nodes s) source_id of
                     Some source_node \<Rightarrow> Ret (Asking slot (ni_addr source_node))
                   | None \<Rightarrow> owned)), asking))"

definition ask_redirect :: "nat \<Rightarrow> ClusterState \<Rightarrow> RouteAction option outcome" where
  "ask_redirect slot s =
     obind (is_migrating slot s) (\<lambda>t.
       Ret (case t of
          None \<Rightarrow> None
        | Some target_id \<Rightarrow>
            map_option (\<lambda>n. Asking slot (ni_addr n)) (dict_get (cs_nodes s) target_id)))"

subsection \<open>CLUSTER subcommands\<close>

type_synonym cluster_reply = "bytes outcome \<times> ClusterState"

definition crlf :: bytes where "crlf = [13, 10]"

definition ok_reply :: bytes where "ok_reply = ascii ''+OK'' @ crlf"

definition conf_line :: "NodeInfo \<Rightarrow> bytes" where
  "conf_line n =
     join [32] [ni_id n, ni_addr n, flags_to_str (ni_flags n), role_str (ni_role n),
       show_nat (ni_epoch n), show_nat 0, show_nat 0, slots_str (ni_slots n)]"

definition conf_content :: "(bytes, NodeInfo) dict \<Rightarrow> bytes" where
  "conf_content ns = concat (map (\<lambda>(k, n). conf_line n @ [10]) ns)"

type_synonym file_write = "bytes option \<Rightarrow> bytes \<Rightarrow> bytes option"

definition save_config :: "file_write \<Rightarrow> ClusterState \<Rightarrow> ClusterState" where
  "save_config wr s = s\<lparr>cs_nodes_conf := wr (cs_nodes_conf s) (conf_content (cs_nodes s))\<rparr>"

definition cluster_meet :: "file_write \<Rightarrow> 128 word \<Rightarrow> bytes list \<Rightarrow> ClusterState \<Rightarrow> cluster_reply" where
  "cluster_meet wr seed args s =
     (case args of
        ip # port # _ \<Rightarrow>
          (let addr = utf8_lossy ip @ [58] @ utf8_lossy port in
           (Ret ok_reply, save_config wr
              (add_node (generate_node_id seed) addr Master (flags_default\<lparr>nf_handshake := True\<rparr>) s)))
      | _ \<Rightarrow> (Ret (ascii ''-ERR wrong number of arguments for 'CLUSTER MEET'' @ [39] @ crlf), s))"

definition cluster_replicate :: "file_write \<Rightarrow> bytes list \<Rightarrow> ClusterState \<Rightarrow> cluster_reply" where
  "cluster_replicate wr args s =
     (case args of
        [] \<Rightarrow> (Ret (ascii ''-ERR wrong number of arguments for 'CLUSTER REPLICATE'' @ [39] @ crlf), s)
      | a # _ \<Rightarrow>
          (let target_id = utf8_lossy a in
           if dict_get (cs_nodes s) target_id = None
           then (Ret (ascii ''-ERR Unknown node '' @ target_id @ crlf), s)
           else (Ret ok_reply, save_config wr (set_self_role Slave s))))"

definition cluster_failover :: "file_write \<Rightarrow> bytes list \<Rightarrow> ClusterState \<Rightarrow> cluster_reply" where
  "cluster_failover wr args s =
     (if ni_role (cs_myself s) \<noteq> Slave
      then (Ret (ascii ''-ERR FAILOVER only works on slave nodes'' @ crlf), s)
      else let new_epoch = wrap_u64 (ni_epoch (cs_myself s) + 1) in
        (Ret ok_reply, save_config wr (set_self_role Master (set_self_epoch new_epoch s))))"

definition is_hard :: "bytes list \<Rightarrow> bool" where
  "is_hard args = (case args of [] \<Rightarrow> False | a # _ \<Rightarrow> to_upper (utf8_lossy a) = ascii ''HARD'')"

definition cluster_reset :: "file_write \<Rightarrow> 128 word \<Rightarrow> bytes list \<Rightarrow> ClusterState \<Rightarrow> cluster_reply" where
  "cluster_reset wr seed args s =
     (let s' =
        (if is_hard args then
           (let me = (cs_myself s)\<lparr>ni_id := generate_node_id seed, ni_epoch := 0,
                  ni_flags := flags_default\<lparr>nf_myself := True, nf_master := True\<rparr>, ni_slots := []\<rparr>
            in s\<lparr>cs_myself := me, cs_nodes := dict_put (ni_id me) me []\<rparr>)
         else set_self_epoch 0 s)
      in (Ret ok_reply, save_config wr s'))"

definition cluster_keyslot :: "bytes list \<Rightarrow> bytes" where
  "cluster_keyslot args =
     (case args of
        [] \<Rightarrow> ascii ''-ERR wrong number of arguments for 'CLUSTER KEYSLOT'' @ [39] @ crlf
      | key # _ \<Rightarrow> [58] @ show_nat (key_hash_slot key) @ crlf)"

definition cluster_getkeysinslot :: "bytes list \<Rightarrow> bytes" where
  "cluster_getkeysinslot args =
     (case args of
        a # b # _ \<Rightarrow>
          (case parse_u16 (utf8_lossy a) of
             None \<Rightarrow> ascii ''-ERR invalid slot'' @ crlf
           | Some _ \<Rightarrow>
               (case parse_usize (utf8_lossy b) of
                  None \<Rightarrow> ascii ''-ERR invalid count'' @ crlf
                | Some _ \<Rightarrow> ascii ''*0'' @ crlf))
      | _ \<Rightarrow> ascii ''-ERR wrong number of arguments for 'CLUSTER GETKEYSINSLOT'' @ [39] @ crlf)"

text \<open>\<open>acc\<close> is the \<^verbatim>\<open>result\<close> vector of the loop.\<close>

fun get_keys_in_slot :: "bytes list \<Rightarrow> nat \<Rightarrow> nat \<Rightarrow> bytes list \<Rightarrow> bytes list" where
  "get_keys_in_slot [] slot count acc = acc"
| "get_keys_in_slot (key # ks) slot count acc =
     (if key_hash_slot key = slot then
        (let acc' = acc @ [key] in
         if length acc' \<ge> count then acc' else get_keys_in_slot ks slot count acc')
      else get_keys_in_slot ks slot count acc)"

definition cluster_countkeysinslot :: "bytes list \<Rightarrow> bytes" where
  "cluster_countkeysinslot args =
     (case args of
        [] \<Rightarrow> ascii ''-ERR wrong number of arguments for 'CLUSTER COUNTKEYSINSLOT'' @ [39] @ crlf
      | a # _ \<Rightarrow>
          (case parse_u16 (utf8_lossy a) of
             None \<Rightarrow> ascii ''-ERR invalid slot'' @ crlf
           | Some _ \<Rightarrow> ascii '':0'' @ crlf))"

text \<open>The loop of ADDSLOTS and DELSLOTS: each slot is written before the next argument is read.\<close>

fun change_slots :: "bytes option \<Rightarrow> bytes list \<Rightarrow> ClusterState \<Rightarrow> bytes option outcome \<times> ClusterState" where
  "change_slots ow [] s = (Ret None, s)"
| "change_slots ow (a # as) s =
     (case parse_u16 (utf8_lossy a) of
        None \<Rightarrow> (Ret (Some (ascii ''-ERR Invalid slot: '' @ utf8_lossy a @ crlf)), s)
      | Some slot \<Rightarrow>
          if \<not> lock_ok LSlots s then (Panic, s)
          else change_slots ow as
                 (if slot < NUM_SLOTS then s\<lparr>cs_slots := (cs_slots s)[slot := ow]\<rparr> else s))"

definition finish_slots :: "file_write \<Rightarrow> bytes option outcome \<times> ClusterState \<Rightarrow> cluster_reply" where
  "finish_slots wr r =
     (case r of
        (Ret None, s) \<Rightarrow> (Ret ok_reply, save_config wr s)
      | (Ret (Some e), s) \<Rightarrow> (Ret e, s)
      | (Panic, s) \<Rightarrow> (Panic, s)
      | (Deadlock, s) \<Rightarrow> (Deadlock, s))"

definition cluster_addslots :: "file_write \<Rightarrow> bytes list \<Rightarrow> ClusterState \<Rightarrow> cluster_reply" where
  "cluster_addslots wr args s =
     (if args = [] then (Ret (ascii ''-ERR wrong number of arguments for 'CLUSTER ADDSLOTS'' @ [39] @ crlf), s)
      else finish_slots wr (change_slots (Some (ni_id (cs_myself s))) args s))"

definition cluster_delslots :: "file_write \<Rightarrow> bytes list \<Rightarrow> ClusterState \<Rightarrow> cluster_reply" where
  "cluster_delslots wr args s =
     (if args = [] then (Ret (ascii ''-ERR wrong number of arguments for 'CLUSTER DELSLOTS'' @ [39] @ crlf), s)
      else finish_slots wr (change_slots None args s))"

definition setslot_importing :: "nat \<Rightarrow> bytes \<Rightarrow> ClusterState \<Rightarrow> unit outcome \<times> ClusterState" where
  "setslot_importing slot source_id s =
     (if \<not> lock_ok LImporting s then (Panic, s)
      else
        let s1 = s\<lparr>cs_importing := dict_put slot source_id (cs_importing s)\<rparr> in
        if \<not> lock_ok LSlotStates s then (Panic, poison [LImporting] s1)
        else if slot \<ge> length (cs_slot_states s1) then (Panic, poison [LSlotStates, LImporting] s1)
        else (Ret (), s1\<lparr>cs_slot_states := (cs_slot_states s1)[slot := Importing source_id]\<rparr>))"

definition setslot_migrating :: "nat \<Rightarrow> bytes \<Rightarrow> ClusterState \<Rightarrow> unit outcome \<times> ClusterState" where
  "setslot_migrating slot target_id s =
     (if \<not> lock_ok LMigrating s then (Panic, s)
      else
        let s1 = s\<lparr>cs_migrating := dict_put slot target_id (cs_migrating s)\<rparr> in
        if \<not> lock_ok LSlotStates s then (Panic, poison [LMigrating] s1)
        else if slot \<ge> length (cs_slot_states s1) then (Panic, poison [LSlotStates, LMigrating] s1)
        else (Ret (), s1\<lparr>cs_slot_states := (cs_slot_states s1)[slot := Migrating target_id]\<rparr>))"

text \<open>The common tail of STABLE and NODE; \<open>held\<close> are the write guards held before it.\<close>

definition clear_migration :: "cluster_lock list \<Rightarrow> nat \<Rightarrow> ClusterState \<Rightarrow> unit outcome \<times> ClusterState" where
  "clear_migration held slot s =
     (if \<not> lock_ok LImporting s then (Panic, poison held s)
      else
        let s1 = s\<lparr>cs_importing := dict_del slot (cs_importing s)\<rparr> in
        if \<not> lock_ok LMigrating s then (Panic, poison (LImporting # held) s1)
        else
          let s2 = s1\<lparr>cs_migrating := dict_del slot (cs_migrating s1)\<rparr> in
          if \<not> lock_ok LSlotStates s then (Panic, poison (LMigrating # LImporting # held) s2)
          else (Ret (), if slot < length (cs_slot_states s2)
                        then s2\<lparr>cs_slot_states := (cs_slot_states s2)[slot := Normal]\<rparr> else s2))"

definition setslot_node :: "nat \<Rightarrow> bytes \<Rightarrow> ClusterState \<Rightarrow> unit outcome \<times> ClusterState" where
  "setslot_node slot node_id s =
     (if \<not> lock_ok LSlots s then (Panic, s)
      else clear_migration [LSlots] slot
             (if slot < NUM_SLOTS then s\<lparr>cs_slots := (cs_slots s)[slot := Some node_id]\<rparr> else s))"

definition finish_setslot :: "file_write \<Rightarrow> unit outcome \<times> ClusterState \<Rightarrow> cluster_reply" where
  "finish_setslot wr r =
     (case r of
        (Ret _, s) \<Rightarrow> (Ret ok_reply, save_config wr s)
      | (Panic, s) \<Rightarrow> (Panic, s)
      | (Deadlock, s) \<Rightarrow> (Deadlock, s))"

definition cluster_setslot :: "file_write \<Rightarrow> bytes list \<Rightarrow> ClusterState \<Rightarrow> cluster_reply" where
  "cluster_setslot wr args s =
     (case args of
        a # b # rest \<Rightarrow>
          (case parse_u16 (utf8_lossy a) of
             None \<Rightarrow> (Ret (ascii ''-ERR invalid slot'' @ crlf), s)
           | Some slot \<Rightarrow>
               (let subcmd = to_upper (utf8_lossy b) in
                if subcmd = ascii ''IMPORTING'' then
                  (case rest of
                     [] \<Rightarrow> (Ret (ascii ''-ERR CLUSTER SETSLOT IMPORTING requires node_id'' @ crlf), s)
                   | c # _ \<Rightarrow> finish_setslot wr (setslot_importing slot (utf8_lossy c) s))
                else if subcmd = ascii ''MIGRATING'' then
                  (case rest of
                     [] \<Rightarrow> (Ret (ascii ''-ERR CLUSTER SETSLOT MIGRATING requires node_id'' @ crlf), s)
                   | c # _ \<Rightarrow> finish_setslot wr (setslot_migrating slot (utf8_lossy c) s))
                else if subcmd = ascii ''STABLE'' then finish_setslot wr (clear_migration [] slot s)
                else if subcmd = ascii ''NODE'' then
                  (case rest of
                     [] \<Rightarrow> (Ret (ascii ''-ERR CLUSTER SETSLOT NODE requires node_id'' @ crlf), s)
                   | c # _ \<Rightarrow> finish_setslot wr (setslot_node slot (utf8_lossy c) s))
                else (Ret (ascii ''-ERR Unknown SETSLOT subcommand '' @ [39] @ subcmd @ [39] @ crlf), s)))
      | _ \<Rightarrow> (Ret (ascii ''-ERR wrong number of arguments for 'CLUSTER SETSLOT'' @ [39] @ crlf), s))"

definition cluster_myid :: "ClusterState \<Rightarrow> bytes" where
  "cluster_myid s =
     (let i = ni_id (cs_myself s) in [36] @ show_nat (length i) @ crlf @ i @ crlf)"

text \<open>\<^verbatim>\<open>rsplitn(2, ':')\<close>: the parts around the last colon.\<close>

definition rsplit_once :: "byte \<Rightarrow> bytes \<Rightarrow> (bytes \<times> bytes) option" where
  "rsplit_once c s =
     (case position (\<lambda>b. b = c) (rev s) of
        None \<Rightarrow> None
      | Some i \<Rightarrow> Some (take (length s - i - 1) s, drop (length s - i) s))"

definition cluster_slots :: "ClusterState \<Rightarrow> bytes" where
  "cluster_slots s =
     (let my_id = ni_id (cs_myself s) in
      case rsplit_once 58 (ni_addr (cs_myself s)) of
        None \<Rightarrow> []
      | Some (host, port) \<Rightarrow>
          concat (map (\<lambda>l. l @ crlf) [ascii ''*1'', ascii ''*3'', ascii '':0'', ascii '':16383'', ascii ''*3'',
            [36] @ show_nat (length host), host, [58] @ port, [36] @ show_nat (length my_id), my_id]))"

definition cluster_bumpepoch :: "file_write \<Rightarrow> ClusterState \<Rightarrow> cluster_reply" where
  "cluster_bumpepoch wr s =
     (let new_epoch = wrap_u64 (cs_current_epoch s + 1);
          s' = save_config wr (set_self_epoch new_epoch (s\<lparr>cs_current_epoch := new_epoch\<rparr>))
      in (Ret ([58] @ show_nat (cs_current_epoch s') @ crlf), s'))"

definition cluster_handle :: "file_write \<Rightarrow> 128 word \<Rightarrow> bytes \<Rightarrow> bytes list \<Rightarrow> ClusterState \<Rightarrow> cluster_reply" where
  "cluster_handle wr seed subcmd args s =
     (let c = to_upper subcmd in
      if c = ascii ''INFO'' then (cluster_info s, s)
      else if c = ascii ''NODES'' then (Ret (cluster_nodes s), s)
      else if c = ascii ''MEET'' then cluster_meet wr seed args s
      else if c = ascii ''REPLICATE'' then cluster_replicate wr args s
      else if c = ascii ''FAILOVER'' then cluster_failover wr args s
      else if c = ascii ''RESET'' then cluster_reset wr seed args s
      else if c = ascii ''KEYSLOT'' then (Ret (cluster_keyslot args), s)
      else if c = ascii ''GETKEYSINSLOT'' then (Ret (cluster_getkeysinslot args), s)
      else if c = ascii ''COUNTKEYSINSLOT'' then (Ret (cluster_countkeysinslot args), s)
      else if c = ascii ''ADDSLOTS'' then cluster_addslots wr args s
      else if c = ascii ''DELSLOTS'' then cluster_delslots wr args s
      else if c = ascii ''SETSLOT'' then cluster_setslot wr args s
      else if c = ascii ''MYID'' then (Ret (cluster_myid s), s)
      else if c = ascii ''SLOTS'' then (Ret (cluster_slots s), s)
      else if c = ascii ''SAVECONFIG'' then (Ret ok_reply, save_config wr s)
      else if c = ascii ''BUMPEPOCH'' then cluster_bumpepoch wr s
      else (Ret (ascii ''-ERR Unknown CLUSTER subcommand '' @ [39] @ subcmd @ [39] @ crlf), s))"

subsection \<open>Gossip\<close>

record GossipNodeEntry =
  ge_id :: bytes
  ge_addr :: bytes
  ge_flags :: NodeFlags
  ge_ping_sent :: nat
  ge_pong_recv :: nat
  ge_epoch :: nat

record GossipMessage =
  gm_sender_id :: bytes
  gm_sender_addr :: bytes
  gm_nodes :: "GossipNodeEntry list"
  gm_current_epoch :: nat

definition from_node_info :: "NodeInfo \<Rightarrow> GossipNodeEntry" where
  "from_node_info n = \<lparr>ge_id = ni_id n, ge_addr = ni_addr n, ge_flags = ni_flags n, ge_ping_sent = 0,
     ge_pong_recv = 0, ge_epoch = ni_epoch n\<rparr>"

text \<open>The peers a tick selects; the tick itself only logs them.\<close>

definition gossip_targets :: "nat \<Rightarrow> ClusterState \<Rightarrow> NodeInfo list" where
  "gossip_targets fanout s =
     (let known = map snd (filter (\<lambda>(k, n). ni_id n \<noteq> ni_id (cs_myself s)) (cs_nodes s))
      in take (min fanout (length known)) known)"

definition gossip_entry :: "GossipNodeEntry \<Rightarrow> ClusterState \<Rightarrow> ClusterState" where
  "gossip_entry e s =
     (if ge_id e = ni_id (cs_myself s) then s
      else
        let role = (if nf_slave (ge_flags e) then Slave else Master)
        in merge_node ((node_new (ge_id e) (ge_addr e) role)\<lparr>ni_flags := ge_flags e, ni_epoch := ge_epoch e\<rparr>) s)"

definition handle_gossip :: "GossipMessage \<Rightarrow> ClusterState \<Rightarrow> ClusterState" where
  "handle_gossip msg s =
     (let s1 = fold gossip_entry (gm_nodes msg) s in
      if gm_sender_id msg \<noteq> ni_id (cs_myself s1)
      then merge_node ((node_new (gm_sender_id msg) (gm_sender_addr msg) Master)
             \<lparr>ni_epoch := gm_current_epoch msg\<rparr>) s1
      else s1)"

subsection \<open>Start-up\<close>

record ClusterConfig =
  cc_enabled :: bool
  cc_config_file :: bytes
  cc_bus_port :: nat
  cc_announce_bus_addr :: bool

definition config_default :: ClusterConfig where
  "config_default = \<lparr>cc_enabled = False, cc_config_file = ascii ''nodes.conf'', cc_bus_port = 0,
     cc_announce_bus_addr = False\<rparr>"

text \<open>\<^verbatim>\<open>fs::read_to_string\<close>: the file is there and is UTF-8.\<close>

definition read_to_string :: "bytes option \<Rightarrow> bytes option" where
  "read_to_string file = (case file of None \<Rightarrow> None | Some c \<Rightarrow> from_utf8 c)"

fun first_id :: "bytes list \<Rightarrow> bytes option" where
  "first_id [] = None"
| "first_id (l # ls) =
     (case split_whitespace l of
        p # _ \<Rightarrow> if length p = 40 then Some p else first_id ls
      | [] \<Rightarrow> first_id ls)"

definition load_or_generate_node_id :: "128 word \<Rightarrow> bytes option \<Rightarrow> bytes" where
  "load_or_generate_node_id seed file =
     (case read_to_string file of
        None \<Rightarrow> generate_node_id seed
      | Some content \<Rightarrow>
          (case first_id (str_lines content) of Some i \<Rightarrow> i | None \<Rightarrow> generate_node_id seed))"

definition set_flag :: "bytes \<Rightarrow> NodeFlags \<Rightarrow> NodeFlags" where
  "set_flag w f =
     (if w = ascii ''myself'' then f\<lparr>nf_myself := True\<rparr>
      else if w = ascii ''master'' then f\<lparr>nf_master := True\<rparr>
      else if w = ascii ''slave'' then f\<lparr>nf_slave := True\<rparr>
      else if w = ascii ''pfail'' then f\<lparr>nf_pfail := True\<rparr>
      else if w = ascii ''fail'' then f\<lparr>nf_fail := True\<rparr>
      else if w = ascii ''noaddr'' then f\<lparr>nf_noaddr := True\<rparr>
      else if w = ascii ''handshake'' then f\<lparr>nf_handshake := True\<rparr>
      else f)"

definition parse_slot_field :: "bytes \<Rightarrow> SlotRange list" where
  "parse_slot_field w =
     (if 45 \<in> set w then
        (case split_at 45 w of
           [a, b] \<Rightarrow>
             (case (parse_u16 a, parse_u16 b) of
                (Some st, Some en) \<Rightarrow> [SlotRange st en]
              | _ \<Rightarrow> [])
         | _ \<Rightarrow> [])
      else case parse_u16 w of Some slot \<Rightarrow> [SlotRange slot slot] | None \<Rightarrow> [])"

definition parse_node :: "bytes list \<Rightarrow> NodeInfo" where
  "parse_node parts =
     (let role = (if parts ! 3 = ascii ''slave'' then Slave else Master) in
      (node_new (parts ! 0) (parts ! 1) role)
        \<lparr>ni_epoch := unwrap_or 0 (parse_usize (parts ! 4)),
         ni_flags := fold set_flag (split_at 44 (parts ! 2)) flags_default,
         ni_slots := concat (map parse_slot_field (drop 7 parts))\<rparr>)"

definition load_line :: "bytes \<Rightarrow> ClusterState \<Rightarrow> ClusterState" where
  "load_line l s =
     (let line = trim l in
      if line = [] \<or> hd line = 35 then s
      else
        let parts = split_whitespace line in
        if length parts < 8 then s
        else s\<lparr>cs_nodes := dict_put (parts ! 0) (parse_node parts) (cs_nodes s)\<rparr>)"

definition load_nodes_conf :: "bytes option \<Rightarrow> ClusterState \<Rightarrow> ClusterState" where
  "load_nodes_conf file s =
     (case read_to_string file of
        None \<Rightarrow> s
      | Some content \<Rightarrow> fold load_line (str_lines content) s)"

definition init_cluster :: "ClusterConfig \<Rightarrow> bytes \<Rightarrow> 128 word \<Rightarrow> bytes option \<Rightarrow> ClusterState option" where
  "init_cluster config bind_addr seed file =
     (if \<not> cc_enabled config then None
      else
        let node_id = load_or_generate_node_id seed file;
            me = (node_new node_id bind_addr Master)
                   \<lparr>ni_flags := flags_default\<lparr>nf_myself := True, nf_master := True\<rparr>\<rparr>
        in Some (load_nodes_conf file (cluster_new file me)))"

subsection \<open>Events preserve the invariant\<close>

text \<open>What can happen to a node: a CLUSTER subcommand or an incoming gossip message.\<close>

datatype cluster_event =
    ClusterCmd file_write "128 word" bytes "bytes list"
  | GossipIn GossipMessage

fun cluster_step :: "cluster_event \<Rightarrow> ClusterState \<Rightarrow> ClusterState" where
  "cluster_step (ClusterCmd wr seed subcmd args) s = snd (cluster_handle wr seed subcmd args s)"
| "cluster_step (GossipIn msg) s = handle_gossip msg s"

lemma table_okD:
  assumes "table_ok C st d"
  shows "dict_get d i \<noteq> None \<Longrightarrow> i < NUM_SLOTS"
    and "i < NUM_SLOTS \<Longrightarrow> st ! i = C x \<Longrightarrow> dict_get d i = Some x"
  using assms unfolding table_ok_def by blast+

lemma table_okI:
  assumes "\<And>i. dict_get d i \<noteq> None \<Longrightarrow> i < NUM_SLOTS"
    and "\<And>i x. i < NUM_SLOTS \<Longrightarrow> st ! i = C x \<Longrightarrow> dict_get d i = Some x"
  shows "table_ok C st d"
  unfolding table_ok_def using assms by blast

lemma table_ok_set:
  assumes "table_ok C st d" "slot < NUM_SLOTS" "length st = NUM_SLOTS" "inj C"
  shows "table_ok C (st[slot := C v]) (dict_put slot v d)"
proof (rule table_okI)
  fix i
  assume "dict_get (dict_put slot v d) i \<noteq> None"
  then show "i < NUM_SLOTS"
    using assms(2) table_okD(1) [OF assms(1), of i] by (cases "i = slot") (simp_all add: dict_simps)
next
  fix i x
  assume i: "i < NUM_SLOTS" "st[slot := C v] ! i = C x"
  show "dict_get (dict_put slot v d) i = Some x"
  proof (cases "i = slot")
    case True
    then show ?thesis using i assms(3,4) by (simp add: inj_eq dict_simps)
  next
    case False
    then show ?thesis using i table_okD(2) [OF assms(1), of i x] by (simp add: dict_simps)
  qed
qed

lemma table_ok_other:
  assumes "table_ok C st d" "\<And>y. v \<noteq> C y" "length st = NUM_SLOTS"
  shows "table_ok C (st[slot := v]) d"
proof (rule table_okI)
  fix i x
  assume i: "i < NUM_SLOTS" "st[slot := v] ! i = C x"
  then have "i \<noteq> slot" using assms(2,3) by auto
  then show "dict_get d i = Some x" using i table_okD(2) [OF assms(1), of i x] by simp
qed (rule table_okD(1) [OF assms(1)])

lemma table_ok_clear:
  assumes "table_ok C st d" "\<And>y. Normal \<noteq> C y" "length st = NUM_SLOTS"
  shows "table_ok C (if slot < NUM_SLOTS then st[slot := Normal] else st) (dict_del slot d)"
proof (rule table_okI)
  fix i
  assume "dict_get (dict_del slot d) i \<noteq> None"
  then show "i < NUM_SLOTS"
    using table_okD(1) [OF assms(1), of i] by (simp add: dict_simps split: if_splits)
next
  fix i x
  assume i: "i < NUM_SLOTS" "(if slot < NUM_SLOTS then st[slot := Normal] else st) ! i = C x"
  have ns: "i \<noteq> slot"
  proof
    assume "i = slot"
    then have "Normal = C x" using i assms(3) by simp
    then show False using assms(2) by blast
  qed
  then have "st ! i = C x" using i(2) by (cases "slot < NUM_SLOTS") simp_all
  then show "dict_get (dict_del slot d) i = Some x"
    using i(1) ns table_okD(2) [OF assms(1), of i x] by (simp add: dict_simps)
qed

lemma save_config_inv [inv_intros]: "cluster_inv s \<Longrightarrow> cluster_inv (save_config wr s)"
  by (simp add: cluster_inv_def save_config_def)

lemma poison_sel [simp]:
  "cs_slots (poison ls s) = cs_slots s" "cs_slot_states (poison ls s) = cs_slot_states s"
  "cs_migrating (poison ls s) = cs_migrating s" "cs_importing (poison ls s) = cs_importing s"
  "cs_nodes (poison ls s) = cs_nodes s" "cs_myself (poison ls s) = cs_myself s"
  by (simp_all add: poison_def)

lemma cluster_inv_tables:
  assumes "cluster_inv s"
  shows "lock_ok LImporting s \<Longrightarrow> table_ok Importing (cs_slot_states s) (cs_importing s)"
    and "lock_ok LMigrating s \<Longrightarrow> table_ok Migrating (cs_slot_states s) (cs_migrating s)"
    and "length (cs_slot_states s) = NUM_SLOTS" and "length (cs_slots s) = NUM_SLOTS"
  using assms by (simp_all add: cluster_inv_def)

lemma setslot_importing_inv [inv_intros]:
  assumes "cluster_inv s"
  shows "cluster_inv (snd (setslot_importing slot i s))"
proof -
  have t: "slot < NUM_SLOTS \<Longrightarrow> lock_ok LImporting s \<Longrightarrow>
      table_ok Importing ((cs_slot_states s)[slot := Importing i]) (dict_put slot i (cs_importing s))"
    by (intro table_ok_set cluster_inv_tables [OF assms]) (simp_all add: inj_def)
  have u: "lock_ok LMigrating s \<Longrightarrow>
      table_ok Migrating ((cs_slot_states s)[slot := Importing i]) (cs_migrating s)"
    by (intro table_ok_other cluster_inv_tables [OF assms]) simp_all
  show ?thesis
    using assms by (simp add: setslot_importing_def cluster_inv_def Let_def hashmap.wf_put t u not_le)
qed

lemma setslot_migrating_inv [inv_intros]:
  assumes "cluster_inv s"
  shows "cluster_inv (snd (setslot_migrating slot i s))"
proof -
  have t: "slot < NUM_SLOTS \<Longrightarrow> lock_ok LMigrating s \<Longrightarrow>
      table_ok Migrating ((cs_slot_states s)[slot := Migrating i]) (dict_put slot i (cs_migrating s))"
    by (intro table_ok_set cluster_inv_tables [OF assms]) (simp_all add: inj_def)
  have u: "lock_ok LImporting s \<Longrightarrow>
      table_ok Importing ((cs_slot_states s)[slot := Migrating i]) (cs_importing s)"
    by (intro table_ok_other cluster_inv_tables [OF assms]) simp_all
  show ?thesis
    using assms by (simp add: setslot_migrating_def cluster_inv_def Let_def hashmap.wf_put t u not_le)
qed

lemma clear_migration_inv [inv_intros]:
  assumes "cluster_inv s"
  shows "cluster_inv (snd (clear_migration held slot s))"
proof -
  define st' where "st' = (if slot < NUM_SLOTS then (cs_slot_states s)[slot := Normal] else cs_slot_states s)"
  have c: "table_ok C (cs_slot_states s) d \<Longrightarrow> (\<And>y. Normal \<noteq> C y) \<Longrightarrow> table_ok C st' (dict_del slot d)" for C d
    unfolding st'_def by (intro table_ok_clear cluster_inv_tables(3) [OF assms])
  have t: "lock_ok LImporting s \<Longrightarrow> table_ok Importing st' (dict_del slot (cs_importing s))"
    by (intro c cluster_inv_tables [OF assms]) simp_all
  have u: "lock_ok LMigrating s \<Longrightarrow> table_ok Migrating st' (dict_del slot (cs_migrating s))"
    by (intro c cluster_inv_tables [OF assms]) simp_all
  have l: "length (cs_slot_states s) = NUM_SLOTS" by (rule cluster_inv_tables(3) [OF assms])
  show ?thesis
  proof (cases "slot < NUM_SLOTS")
    case True
    then show ?thesis
      using assms t u l by (simp add: clear_migration_def cluster_inv_def Let_def hashmap.wf_del st'_def)
  next
    case False
    then show ?thesis
      using assms t u l by (simp add: clear_migration_def cluster_inv_def Let_def hashmap.wf_del st'_def)
  qed
qed

lemma setslot_node_inv [inv_intros]:
  assumes "cluster_inv s"
  shows "cluster_inv (snd (setslot_node slot i s))"
proof -
  have "cluster_inv (if slot < NUM_SLOTS then s\<lparr>cs_slots := (cs_slots s)[slot := Some i]\<rparr> else s)"
    using assms by (simp add: slots_update_inv cluster_inv_tables)
  then show ?thesis using assms by (simp add: setslot_node_def clear_migration_inv)
qed

lemma change_slots_inv [inv_intros]: "cluster_inv s \<Longrightarrow> cluster_inv (snd (change_slots ow as s))"
proof (induction ow as s rule: change_slots.induct)
  case (2 ow a as s)
  have "cluster_inv (if slot < NUM_SLOTS then s\<lparr>cs_slots := (cs_slots s)[slot := ow]\<rparr> else s)" for slot
    using "2.prems" by (simp add: slots_update_inv cluster_inv_tables)
  with 2 show ?case by (simp split: option.split)
qed simp

lemma snd_finish_slots: "snd (finish_slots wr r) \<in> {snd r, save_config wr (snd r)}"
  by (auto simp: finish_slots_def split: prod.split outcome.split option.split)

lemma snd_finish_setslot: "snd (finish_setslot wr r) \<in> {snd r, save_config wr (snd r)}"
  by (auto simp: finish_setslot_def split: prod.split outcome.split)

lemma finish_slots_inv: "cluster_inv (snd r) \<Longrightarrow> cluster_inv (snd (finish_slots wr r))"
  using snd_finish_slots [of wr r] save_config_inv by fastforce

lemma finish_setslot_inv: "cluster_inv (snd r) \<Longrightarrow> cluster_inv (snd (finish_setslot wr r))"
  using snd_finish_setslot [of wr r] save_config_inv by fastforce

lemma cluster_setslot_inv [inv_intros]: "cluster_inv s \<Longrightarrow> cluster_inv (snd (cluster_setslot wr args s))"
  by (simp add: cluster_setslot_def Let_def finish_setslot_inv inv_intros split: list.split option.split)

lemma cluster_reset_inv [inv_intros]: "cluster_inv s \<Longrightarrow> cluster_inv (snd (cluster_reset wr seed args s))"
proof -
  assume inv: "cluster_inv s"
  have "nodes_ok me (dict_put (ni_id me) me [])" for me
    by (simp add: nodes_ok_def dict_wf_def)
  then have fresh: "cluster_inv (s\<lparr>cs_myself := me, cs_nodes := dict_put (ni_id me) me []\<rparr>)" for me
    using inv by (simp add: cluster_inv_def)
  show ?thesis
    unfolding cluster_reset_def Let_def snd_conv
    by (intro save_config_inv, cases "is_hard args")
      (simp_all only: if_True if_False fresh set_self_epoch_inv [OF inv])
qed

lemma cluster_bumpepoch_inv [inv_intros]: "cluster_inv s \<Longrightarrow> cluster_inv (snd (cluster_bumpepoch wr s))"
  unfolding cluster_bumpepoch_def Let_def snd_conv
  by (intro save_config_inv set_self_epoch_inv) (simp add: cluster_inv_def)

lemma cluster_membership_inv [inv_intros]:
  assumes "cluster_inv s"
  shows "cluster_inv (snd (cluster_meet wr seed args s))"
    and "cluster_inv (snd (cluster_replicate wr args s))"
    and "cluster_inv (snd (cluster_failover wr args s))"
    and "cluster_inv (snd (cluster_addslots wr args s))"
    and "cluster_inv (snd (cluster_delslots wr args s))"
  using assms
  by (simp_all add: cluster_meet_def cluster_replicate_def cluster_failover_def cluster_addslots_def
      cluster_delslots_def Let_def finish_slots_inv inv_intros split: list.split)

lemma cluster_handle_inv: "cluster_inv s \<Longrightarrow> cluster_inv (snd (cluster_handle wr seed subcmd args s))"
  unfolding cluster_handle_def Let_def by (simp add: inv_intros)

lemma handle_gossip_inv: "cluster_inv s \<Longrightarrow> cluster_inv (handle_gossip msg s)"
proof -
  assume inv: "cluster_inv s"
  have "cluster_inv s \<Longrightarrow> cluster_inv (fold gossip_entry es s)" for es s
    by (induction es arbitrary: s) (simp_all add: gossip_entry_def Let_def merge_node_inv)
  then show ?thesis using inv by (simp add: handle_gossip_def Let_def merge_node_inv)
qed

interpretation cluster: invariant_system cluster_step cluster_inv
proof
  fix s c
  assume "cluster_inv s"
  then show "cluster_inv (cluster_step c s)"
    by (cases c) (simp_all add: cluster_handle_inv handle_gossip_inv)
qed

lemma load_line_inv: "cluster_inv s \<Longrightarrow> cluster_inv (load_line l s)"
  by (simp add: load_line_def Let_def insert_node_inv parse_node_def node_new_def)

lemma load_nodes_conf_inv: "cluster_inv s \<Longrightarrow> cluster_inv (load_nodes_conf file s)"
proof -
  assume "cluster_inv s"
  moreover have "cluster_inv s \<Longrightarrow> cluster_inv (fold load_line ls s)" for ls s
    by (induction ls arbitrary: s) (simp_all add: load_line_inv)
  ultimately show ?thesis by (simp add: load_nodes_conf_def split: option.split)
qed

lemma init_cluster_inv: "init_cluster config addr seed file = Some s \<Longrightarrow> cluster_inv s"
  by (auto simp: init_cluster_def Let_def cluster_new_inv load_nodes_conf_inv split: if_splits)

subsection \<open>Poisoned locks stay poisoned\<close>

text \<open>Every operation only adds to the poisoned locks.\<close>

definition keeps_poison :: "ClusterState \<Rightarrow> ClusterState \<Rightarrow> bool" where
  "keeps_poison s s' \<longleftrightarrow> set (cs_poisoned s) \<subseteq> set (cs_poisoned s')"

lemma keeps_poison_eq: "cs_poisoned s' = cs_poisoned s \<Longrightarrow> keeps_poison s s'"
  by (simp add: keeps_poison_def)

lemma keeps_poison_refl: "keeps_poison s s"
  by (simp add: keeps_poison_def)

lemma keeps_poison_poison: "cs_poisoned s' = cs_poisoned s \<Longrightarrow> keeps_poison s (poison ls s')"
  by (auto simp: keeps_poison_def poison_def)

lemma cs_poisoned_save [simp]: "cs_poisoned (save_config wr s) = cs_poisoned s"
  by (simp add: save_config_def)

lemma cs_poisoned_self [simp]:
  "cs_poisoned (put_self me s) = cs_poisoned s"
  "cs_poisoned (set_self_role r s) = cs_poisoned s"
  "cs_poisoned (set_self_epoch e s) = cs_poisoned s"
  "cs_poisoned (add_node i a r f s) = cs_poisoned s"
  "cs_poisoned (merge_node n s) = cs_poisoned s"
  by (simp_all add: put_self_def set_self_role_def set_self_epoch_def add_node_def merge_node_def Let_def
      split: option.split)

lemma change_slots_poison [simp]: "cs_poisoned (snd (change_slots ow as s)) = cs_poisoned s"
  by (induction ow as s rule: change_slots.induct) (simp_all split: option.split)

lemma finish_poison:
  "cs_poisoned (snd (finish_slots wr r)) = cs_poisoned (snd r)"
  "cs_poisoned (snd (finish_setslot wr r2)) = cs_poisoned (snd r2)"
  using snd_finish_slots [of wr r] snd_finish_setslot [of wr r2] by auto

lemma setslot_keeps_poison:
  "keeps_poison s (snd (setslot_importing slot i s))"
  "keeps_poison s (snd (setslot_migrating slot i s))"
  "keeps_poison s (snd (clear_migration held slot s))"
  "keeps_poison s (snd (setslot_node slot i s))"
  by (simp_all add: setslot_importing_def setslot_migrating_def clear_migration_def setslot_node_def
      Let_def keeps_poison_eq keeps_poison_poison)

lemma cluster_setslot_keeps_poison: "keeps_poison s (snd (cluster_setslot wr args s))"
proof -
  have "keeps_poison s (snd r) \<Longrightarrow> keeps_poison s (snd (finish_setslot wr r))" for r
    by (simp add: keeps_poison_def finish_poison)
  then show ?thesis
    by (simp add: cluster_setslot_def Let_def setslot_keeps_poison keeps_poison_refl
        split: list.split option.split)
qed

lemma cluster_handle_keeps_poison: "keeps_poison s (snd (cluster_handle wr seed subcmd args s))"
proof -
  have "keeps_poison s (snd (cluster_meet wr seed args s))"
    "keeps_poison s (snd (cluster_replicate wr args s))"
    "keeps_poison s (snd (cluster_failover wr args s))"
    "keeps_poison s (snd (cluster_reset wr seed args s))"
    "keeps_poison s (snd (cluster_addslots wr args s))"
    "keeps_poison s (snd (cluster_delslots wr args s))"
    "keeps_poison s (snd (cluster_bumpepoch wr s))"
    by (rule keeps_poison_eq, simp add: cluster_meet_def cluster_replicate_def cluster_failover_def
        cluster_reset_def cluster_addslots_def cluster_delslots_def cluster_bumpepoch_def Let_def
        finish_poison split: list.split)+
  then show ?thesis
    unfolding cluster_handle_def Let_def
    by (simp add: cluster_setslot_keeps_poison keeps_poison_refl cs_poisoned_save [THEN keeps_poison_eq])
qed

lemma handle_gossip_poison [simp]: "cs_poisoned (handle_gossip msg s) = cs_poisoned s"
proof -
  have "cs_poisoned (fold gossip_entry es s) = cs_poisoned s" for es s
    by (induction es arbitrary: s) (simp_all add: gossip_entry_def Let_def)
  then show ?thesis by (simp add: handle_gossip_def Let_def)
qed

interpretation cluster_broken: invariant_system cluster_step "\<lambda>s. \<not> lock_ok LImporting s"
proof
  fix s c
  assume "\<not> lock_ok LImporting s"
  moreover have "keeps_poison s (cluster_step c s)"
    by (cases c) (simp_all add: cluster_handle_keeps_poison keeps_poison_eq)
  ultimately show "\<not> lock_ok LImporting (cluster_step c s)"
    by (auto simp: lock_ok_def keeps_poison_def)
qed

lemma route_poisoned: "\<not> lock_ok LImporting s \<Longrightarrow> fst (route key False s) = Panic"
  by (simp add: route_def is_importing_def Let_def)

subsection \<open>Arguments\<close>

lemma show_nat_utf8: "utf8_valid (show_nat n)"
  using show_int_utf8 [of "int n"] by (simp add: show_nat_eq_show_int)

lemma u16_arg: "n \<le> 65535 \<Longrightarrow> parse_u16 (utf8_lossy (show_nat n)) = Some n"
  by (simp add: utf8_lossy_valid show_nat_utf8 parse_u16_def parse_unsigned_show_nat)

lemma subcommand_names:
  "to_upper (ascii ''SETSLOT'') = ascii ''SETSLOT''" "to_upper (ascii ''ADDSLOTS'') = ascii ''ADDSLOTS''"
  "to_upper (ascii ''DELSLOTS'') = ascii ''DELSLOTS''"
  "to_upper (utf8_lossy (ascii ''IMPORTING'')) = ascii ''IMPORTING''"
  "to_upper (utf8_lossy (ascii ''NODE'')) = ascii ''NODE''"
  by (simp_all add: ascii_def to_upper_def upper_byte_def utf8_lossy_valid)

lemma handle_slots:
  "cluster_handle wr seed (ascii ''SETSLOT'') args s = cluster_setslot wr args s"
  "cluster_handle wr seed (ascii ''ADDSLOTS'') args s = cluster_addslots wr args s"
  "cluster_handle wr seed (ascii ''DELSLOTS'') args s = cluster_delslots wr args s"
  unfolding cluster_handle_def subcommand_names Let_def by (simp_all add: ascii_def)

lemma setslot_forms:
  assumes "slot \<le> 65535"
  shows "cluster_setslot wr [show_nat slot, ascii ''IMPORTING'', n] s
      = finish_setslot wr (setslot_importing slot (utf8_lossy n) s)"
    and "cluster_setslot wr [show_nat slot, ascii ''NODE'', n] s
      = finish_setslot wr (setslot_node slot (utf8_lossy n) s)"
  unfolding cluster_setslot_def list.case u16_arg [OF assms] option.case subcommand_names Let_def
  by (simp_all add: ascii_def)

subsection \<open>Reading back nodes.conf\<close>

text \<open>A node record whose text form can be read back.\<close>

definition printable :: "NodeInfo \<Rightarrow> bool" where
  "printable n \<longleftrightarrow> ws_free (ni_id n) \<and> ni_id n \<noteq> [] \<and> hd (ni_id n) \<noteq> 35
     \<and> ws_free (ni_addr n) \<and> ni_addr n \<noteq> [] \<and> ni_epoch n \<le> u64_max
     \<and> flag_words (ni_flags n) \<noteq> [] \<and> \<not> nf_noflags (ni_flags n)
     \<and> (\<forall>r \<in> set (ni_slots n). sr_start r \<le> 65535 \<and> sr_end r \<le> 65535)"

lemma ws_free_append [simp]: "ws_free (a @ b) \<longleftrightarrow> ws_free a \<and> ws_free b"
  by (auto simp: ws_free_def)

lemma ws_free_Nil: "ws_free []"
  by (simp add: ws_free_def)

lemma ws_free_Cons: "ws_free (b # r) \<longleftrightarrow> 32 < b \<and> b < 0x80 \<and> ws_free r"
  by (auto simp: ws_free_def)

lemma concat_map_self: "\<forall>x \<in> set xs. f x = [x] \<Longrightarrow> concat (map f xs) = xs"
  by (induction xs) auto

lemma ws_free_join: "ws_free sep \<Longrightarrow> \<forall>w \<in> set ws. ws_free w \<Longrightarrow> ws_free (join sep ws)"
  by (induction sep ws rule: join.induct) (simp_all add: ws_free_Nil)

lemma ws_free_show_nat: "ws_free (show_nat n)"
proof -
  have "32 < b \<and> b < 0x80" if "b \<in> set (show_nat n)" for b
    using show_nat_bytes [OF that] by (auto simp: word_le_nat_alt word_less_nat_alt)
  then show ?thesis by (simp add: ws_free_def)
qed

lemma role_word: "ws_free (role_str r) \<and> role_str r \<noteq> []"
  by (cases r) (simp_all add: ws_free_def ascii_def)

lemma flag_words_mem:
  "w \<in> set (flag_words f) \<Longrightarrow> ws_free w \<and> w \<noteq> [] \<and> 44 \<notin> set w"
  by (auto simp: flag_words_def ws_free_def ascii_def split: if_splits)

lemma ws_free_flags: "ws_free (flags_to_str f)"
  unfolding flags_to_str_def by (intro ws_free_join) (simp_all add: ws_free_Cons ws_free_Nil flag_words_mem)

lemma join_not_Nil: "ws \<noteq> [] \<Longrightarrow> \<forall>w \<in> set ws. w \<noteq> [] \<Longrightarrow> join sep ws \<noteq> []"
  by (cases "(sep, ws)" rule: join.cases) auto

lemma flags_not_Nil: "flag_words f \<noteq> [] \<Longrightarrow> flags_to_str f \<noteq> []"
  unfolding flags_to_str_def by (intro join_not_Nil) (simp_all add: flag_words_mem)

lemma ws_free_range: "ws_free (range_str r)" and range_not_Nil: "range_str r \<noteq> []"
  by (simp_all add: range_str_def ws_free_show_nat ws_free_Cons)

lemma flags_read_back:
  assumes "flag_words f \<noteq> []" "\<not> nf_noflags f"
  shows "fold set_flag (split_at 44 (flags_to_str f)) flags_default = f"
proof -
  have words: "split_at 44 (flags_to_str f) = flag_words f"
    unfolding flags_to_str_def using assms(1) by (intro split_at_join) (auto dest: flag_words_mem)
  have upd: "fold set_flag (if c then [ascii ''myself''] else []) g = g\<lparr>nf_myself := nf_myself g \<or> c\<rparr>"
    "fold set_flag (if c then [ascii ''master''] else []) g = g\<lparr>nf_master := nf_master g \<or> c\<rparr>"
    "fold set_flag (if c then [ascii ''slave''] else []) g = g\<lparr>nf_slave := nf_slave g \<or> c\<rparr>"
    "fold set_flag (if c then [ascii ''pfail''] else []) g = g\<lparr>nf_pfail := nf_pfail g \<or> c\<rparr>"
    "fold set_flag (if c then [ascii ''fail''] else []) g = g\<lparr>nf_fail := nf_fail g \<or> c\<rparr>"
    "fold set_flag (if c then [ascii ''noaddr''] else []) g = g\<lparr>nf_noaddr := nf_noaddr g \<or> c\<rparr>"
    "fold set_flag (if c then [ascii ''handshake''] else []) g = g\<lparr>nf_handshake := nf_handshake g \<or> c\<rparr>"
    for c g
    by (simp_all add: set_flag_def ascii_def)
  show ?thesis
    unfolding words flag_words_def fold_append comp_def upd
    using assms(2) by (cases f) (simp add: flags_default_def)
qed

lemma slot_field_read_back:
  assumes "sr_start r \<le> 65535" "sr_end r \<le> 65535"
  shows "parse_slot_field (range_str r) = [r]"
proof -
  have no_dash: "45 \<notin> set (show_nat n)" for n
    using show_nat_bytes [of 45 n] by auto
  have p: "n \<le> 65535 \<Longrightarrow> parse_u16 (show_nat n) = Some n" for n
    by (simp add: parse_u16_def parse_unsigned_show_nat)
  show ?thesis
  proof (cases "sr_start r = sr_end r")
    case True
    then show ?thesis using assms no_dash p by (cases r) (simp add: range_str_def parse_slot_field_def)
  next
    case False
    have "split_at 45 (show_nat (sr_start r) @ 45 # show_nat (sr_end r)) = [show_nat (sr_start r), show_nat (sr_end r)]"
      by (simp add: split_at_append split_at_none no_dash)
    then show ?thesis using False assms p by (cases r) (simp add: range_str_def parse_slot_field_def)
  qed
qed

lemma join_snoc_join: "ws \<noteq> [] \<Longrightarrow> vs \<noteq> [] \<Longrightarrow> join sep (ws @ [join sep vs]) = join sep (ws @ vs)"
proof (induction sep ws rule: join.induct)
  case (2 sep w)
  then show ?case by (cases vs) simp_all
qed simp_all

abbreviation conf_head :: "NodeInfo \<Rightarrow> bytes list" where
  "conf_head n \<equiv> [ni_id n, ni_addr n, flags_to_str (ni_flags n), role_str (ni_role n),
     show_nat (ni_epoch n), show_nat 0, show_nat 0]"

lemma conf_line_words:
  assumes "printable n"
  shows "split_whitespace (conf_line n) = conf_head n @ map range_str (ni_slots n)"
proof -
  have h: "\<forall>w \<in> set (conf_head n). ws_free w \<and> w \<noteq> []"
    using assms by (auto simp: printable_def ws_free_flags flags_not_Nil role_word ws_free_show_nat)
  have r: "\<forall>w \<in> set (map range_str (ni_slots n)). ws_free w \<and> w \<noteq> []"
    by (auto simp: ws_free_range range_not_Nil)
  show ?thesis
  proof (cases "ni_slots n = []")
    case True
    have "split_whitespace (join [32] (conf_head n @ [[]])) = filter (\<lambda>w. w \<noteq> []) (conf_head n @ [[]])"
      by (rule split_whitespace_join) (use h in \<open>auto simp: ws_free_def\<close>)
    also have "\<dots> = conf_head n" using h by (simp add: filter_id_conv)
    finally show ?thesis using True by (simp add: conf_line_def slots_str_def)
  next
    case False
    have "conf_line n = join [32] (conf_head n @ [join [32] (map range_str (ni_slots n))])"
      by (simp add: conf_line_def slots_str_def)
    also have "\<dots> = join [32] (conf_head n @ map range_str (ni_slots n))"
      using False by (intro join_snoc_join) auto
    finally show ?thesis
      using split_whitespace_join [of "conf_head n @ map range_str (ni_slots n)"] h r
      by (simp add: filter_id_conv del: set_map)
  qed
qed

lemma parse_node_read_back:
  assumes "printable n"
  shows "parse_node (conf_head n @ map range_str (ni_slots n)) = n"
proof -
  have "(role_str (ni_role n) = ascii ''slave'') = (ni_role n = Slave)"
    by (cases "ni_role n") (simp_all add: ascii_def)
  moreover have "(if ni_role n = Slave then Slave else Master) = ni_role n"
    by (cases "ni_role n") simp_all
  moreover have "parse_usize (show_nat (ni_epoch n)) = Some (ni_epoch n)"
    using assms by (simp add: parse_usize_def parse_unsigned_show_nat printable_def)
  moreover have "concat (map (parse_slot_field \<circ> range_str) (ni_slots n)) = ni_slots n"
  proof -
    have "\<forall>r \<in> set (ni_slots n). (parse_slot_field \<circ> range_str) r = [r]"
      using assms by (simp add: printable_def slot_field_read_back)
    then show ?thesis by (rule concat_map_self)
  qed
  ultimately show ?thesis
    using assms by (simp add: parse_node_def Let_def flags_read_back printable_def node_new_def)
qed

lemma set_join: "set (join sep ws) \<subseteq> set sep \<union> (\<Union>w \<in> set ws. set w)"
  by (induction sep ws rule: join.induct) auto

lemma join_bytes:
  assumes "\<forall>w \<in> set ws. \<forall>b \<in> set w. P b" "P 32" "b \<in> set (join [32] ws)"
  shows "P b"
  using assms set_join [of "[32]" ws] by fastforce

abbreviation line_byte :: "byte \<Rightarrow> bool" where
  "line_byte b \<equiv> 32 \<le> b \<and> b < 0x80"

lemma ws_free_bytes: "ws_free w \<Longrightarrow> \<forall>b \<in> set w. line_byte b"
  by (simp add: ws_free_def less_imp_le)

lemma conf_line_bytes:
  assumes "printable n" "b \<in> set (conf_line n)"
  shows "line_byte b"
proof -
  have r: "\<forall>w \<in> set (map range_str (ni_slots n)). \<forall>b \<in> set w. line_byte b"
    using ws_free_bytes [OF ws_free_range] by (simp only: set_map ball_simps) blast
  have s: "line_byte b" if "b \<in> set (slots_str (ni_slots n))" for b
    by (rule join_bytes [where P = line_byte, OF r _ that [unfolded slots_str_def]]) simp
  have "\<forall>w \<in> set (conf_head n). ws_free w"
    using assms(1) by (simp add: printable_def ws_free_flags role_word ws_free_show_nat)
  then have w: "\<forall>w \<in> set (conf_head n @ [slots_str (ni_slots n)]). \<forall>b \<in> set w. line_byte b"
    using s ws_free_bytes by (simp only: set_append Un_iff list.set empty_iff insert_iff) blast
  have "b \<in> set (join [32] (conf_head n @ [slots_str (ni_slots n)]))"
    using assms(2) by (simp only: conf_line_def append.simps)
  then show ?thesis by (rule join_bytes [where P = line_byte, OF w, rotated]) simp
qed

lemma load_conf_line:
  assumes "printable n"
  shows "load_line (conf_line n) s =
    (if ni_slots n = [] then s else s\<lparr>cs_nodes := dict_put (ni_id n) n (cs_nodes s)\<rparr>)"
proof -
  obtain r where r: "conf_line n = ni_id n @ r" by (simp add: conf_line_def)
  have id: "ws_free (ni_id n)" "ni_id n \<noteq> []" "hd (ni_id n) \<noteq> 35" using assms by (auto simp: printable_def)
  obtain b bs where bs: "conf_line n = b # bs" "b = hd (ni_id n)"
    using id(2) by (cases "ni_id n") (simp_all add: r)
  have t: "trim_start_ws (b # bs) = b # bs" "trim_end_ws (b # bs) \<noteq> []" "hd (trim_end_ws (b # bs)) = b"
    by (rule trim_word [OF r [unfolded bs(1)] id(1,2)])+
  have "split_whitespace (trim (conf_line n)) = split_whitespace (conf_line n)"
    unfolding trim_def split_whitespace_def bs(1) t(1)
    using conf_line_bytes [OF assms] by (intro split_ws_trim_end_ws) (simp only: bs(1), blast)
  then have w: "split_whitespace (trim (conf_line n)) = conf_head n @ map range_str (ni_slots n)"
    by (simp add: conf_line_words [OF assms])
  have "trim (conf_line n) \<noteq> []" and "hd (trim (conf_line n)) \<noteq> 35"
    unfolding trim_def bs(1) t(1) using t(2,3) bs(2) id(3) by metis+
  then show ?thesis
    unfolding load_line_def Let_def w parse_node_read_back [OF assms] by simp
qed

lemma load_conf_lines:
  assumes "\<forall>(k, n) \<in> set ns. printable n \<and> ni_id n = k"
  shows "cs_nodes (fold load_line (map (conf_line \<circ> snd) ns) s)
      = fold (\<lambda>(k, n). dict_put k n) (filter (\<lambda>(k, n). ni_slots n \<noteq> []) ns) (cs_nodes s)"
  using assms
proof (induction ns arbitrary: s)
  case (Cons p ns)
  obtain k n where p: "p = (k, n)" by (cases p)
  then have "printable n" "ni_id n = k" using Cons.prems by simp_all
  then show ?case using Cons.IH Cons.prems by (simp add: p load_conf_line)
qed simp

lemma conf_content_lines:
  assumes "\<forall>(k, n) \<in> set ns. printable n"
  shows "read_to_string (Some (conf_content ns)) = Some (conf_content ns)"
    and "str_lines (conf_content ns) = map (conf_line \<circ> snd) ns"
proof -
  have b: "32 \<le> b \<and> b < 0x80" if "l \<in> set (map (conf_line \<circ> snd) ns)" "b \<in> set l" for l b
    using that assms conf_line_bytes by fastforce
  have c: "conf_content ns = concat (map (\<lambda>l. l @ [10]) (map (conf_line \<circ> snd) ns))"
    by (simp add: conf_content_def comp_def split_def)
  have "x < 0x80" if "x \<in> set (conf_content ns)" for x
  proof -
    from that have "x = 10 \<or> (\<exists>l \<in> set (map (conf_line \<circ> snd) ns). x \<in> set l)"
      unfolding c by (auto split: if_splits)
    then show ?thesis using b by auto
  qed
  then show "read_to_string (Some (conf_content ns)) = Some (conf_content ns)"
    by (simp add: read_to_string_def from_utf8_def utf8_valid_ascii)
  have "10 \<notin> set l \<and> 13 \<notin> set l" if "l \<in> set (map (conf_line \<circ> snd) ns)" for l
    using b [OF that, of 10] b [OF that, of 13] by auto
  then show "str_lines (conf_content ns) = map (conf_line \<circ> snd) ns"
    unfolding c by (intro str_lines_concat) blast
qed

lemma load_keeps_slots: "cs_slots (load_nodes_conf file s) = cs_slots s"
proof -
  have "cs_slots (fold load_line ls s) = cs_slots s" for ls s
    by (induction ls arbitrary: s) (simp_all add: load_line_def Let_def)
  then show ?thesis by (simp add: load_nodes_conf_def split: option.split)
qed

lemma load_nodes_conf_poison: "cs_poisoned (load_nodes_conf file s) = cs_poisoned s"
proof -
  have "cs_poisoned (fold load_line ls s) = cs_poisoned s" for ls s
    by (induction ls arbitrary: s) (simp_all add: load_line_def Let_def)
  then show ?thesis by (simp add: load_nodes_conf_def split: option.split)
qed

lemma dict_wf_filter: "dict_wf m \<Longrightarrow> dict_wf (filter P m)"
  unfolding dict_wf_def by (rule distinct_map_filter)

subsection \<open>Properties\<close>

text \<open>
  C9. From start-up on, whatever nodes.conf holds and whatever CLUSTER subcommands (with any
  arguments) and gossip messages arrive in any order, the cluster state stays well-formed: one
  owner and one migration state per slot, every node under its own identifier with this node
  among them, and every slot in state \<open>Importing\<close> or \<open>Migrating\<close> listed in the table of such slots
  unless a panic has poisoned that table's lock.
\<close>

theorem cluster_state_invariant:
  assumes "init_cluster config addr seed file = Some s"
  shows "cluster_inv (fold cluster_step evs s)"
  using init_cluster_inv [OF assms] by (rule cluster.good_run)

theorem cluster_state_invariant_witness:
  "cluster_inv (fold cluster_step
     [ClusterCmd (\<lambda>_. Some) 7 (ascii ''ADDSLOTS'') [show_nat 3], GossipIn \<lparr>gm_sender_id = [65],
       gm_sender_addr = [66], gm_nodes = [], gm_current_epoch = 1\<rparr>]
     (the (init_cluster (config_default\<lparr>cc_enabled := True\<rparr>) (ascii ''127.0.0.1:7000'') 5 None)))"
proof -
  obtain s where s: "init_cluster (config_default\<lparr>cc_enabled := True\<rparr>) (ascii ''127.0.0.1:7000'') 5 None = Some s"
    by (simp add: init_cluster_def config_default_def Let_def)
  show ?thesis unfolding s option.sel by (rule cluster_state_invariant [OF s])
qed

text \<open>
  SETSLOT does not check the slot number: importing a slot from 16384 up panics while two
  write locks are held, which poisons them. From then on, whatever commands and gossip follow,
  routing of every key panics.
\<close>

theorem setslot_out_of_range_breaks_routing:
  fixes wr :: file_write and seed :: "128 word" and node :: bytes
  assumes "cluster_inv s" "lock_ok LImporting s" "NUM_SLOTS \<le> slot" "slot \<le> 65535"
  defines "r \<equiv> cluster_handle wr seed (ascii ''SETSLOT'') [show_nat slot, ascii ''IMPORTING'', node] s"
  shows "fst r = Panic \<and> fst (route key False (fold cluster_step evs (snd r))) = Panic"
proof -
  have r: "r = finish_setslot wr (setslot_importing slot (utf8_lossy node) s)"
    by (simp add: r_def handle_slots setslot_forms assms(4))
  have "fst r = Panic \<and> \<not> lock_ok LImporting (snd r)"
    unfolding r setslot_importing_def Let_def finish_setslot_def
    using assms(2,3) cluster_inv_tables(3) [OF assms(1)] by simp
  then show ?thesis using cluster_broken.good_run [of "snd r" evs] route_poisoned by blast
qed

theorem setslot_out_of_range_breaks_routing_witness:
  "fst (route (ascii ''foo'') False (snd (cluster_handle (\<lambda>_. Some) 1 (ascii ''SETSLOT'')
     [show_nat 16384, ascii ''IMPORTING'', ascii ''abc''] (cluster_new None (node_new [65] [66] Master))))) = Panic"
  using setslot_out_of_range_breaks_routing [where evs = "[]" and key = "ascii ''foo''" and slot = 16384
      and s = "cluster_new None (node_new [65] [66] Master)" and wr = "\<lambda>_. Some" and seed = 1
      and node = "ascii ''abc''", OF cluster_new_inv]
  by (simp add: lock_ok_def cluster_new_def NUM_SLOTS_def)

text \<open>
  C23. Ownership commands take effect in routing. After ADDSLOTS of the slot of a key the key is
  served here, unless the slot is being imported; after SETSLOT NODE with a known other node its
  keys are redirected there with MOVED, and a pending import is forgotten; after SETSLOT IMPORTING
  they are redirected to the source with ASK, except for the one command that follows ASKING.
\<close>

theorem ownership_governs_routing:
  fixes key :: bytes and n :: NodeInfo
  defines "slot \<equiv> key_hash_slot key"
  assumes "cluster_inv s" "cs_poisoned s = []" "utf8_valid (ni_id n)"
    and "dict_get (cs_nodes s) (ni_id n) = Some n" "ni_id n \<noteq> ni_id (cs_myself s)"
  shows "(dict_get (cs_importing s) slot = None \<longrightarrow>
       fst (route key False (snd (cluster_handle wr seed (ascii ''ADDSLOTS'') [show_nat slot] s))) = Ret Local)
    \<and> fst (route key False (snd (cluster_handle wr seed (ascii ''SETSLOT'') [show_nat slot, ascii ''NODE'', ni_id n] s)))
        = Ret (Moved slot (ni_addr n))
    \<and> fst (route key False (snd (cluster_handle wr seed (ascii ''SETSLOT'') [show_nat slot, ascii ''IMPORTING'', ni_id n] s)))
        = Ret (Asking slot (ni_addr n))
    \<and> route key True s = (Ret Local, False)"
proof (intro conjI impI)
  have l: "slot < NUM_SLOTS" "slot \<le> 65535" "key_hash_slot key = slot"
    by (simp_all add: slot_def key_hash_slot_def Let_def NUM_SLOTS_def less_imp_le [OF less_le_trans [OF mod_less_divisor]])
  note len = cluster_inv_tables(3,4) [OF assms(2)]
  note defs = route_def slot_owner_def is_importing_def lock_ok_def Let_def save_config_def
  show "fst (route key False (snd (cluster_handle wr seed (ascii ''ADDSLOTS'') [show_nat slot] s))) = Ret Local"
    if "dict_get (cs_importing s) slot = None"
    unfolding handle_slots cluster_addslots_def
    using that l len assms(3) by (simp add: u16_arg finish_slots_def defs)
  show "fst (route key False (snd (cluster_handle wr seed (ascii ''SETSLOT'')
      [show_nat slot, ascii ''NODE'', ni_id n] s))) = Ret (Moved slot (ni_addr n))"
    unfolding handle_slots setslot_forms(2) [OF l(2)] setslot_node_def clear_migration_def
    using l len assms(3-6) by (simp add: finish_setslot_def utf8_lossy_valid defs dict_simps)
  show "fst (route key False (snd (cluster_handle wr seed (ascii ''SETSLOT'')
      [show_nat slot, ascii ''IMPORTING'', ni_id n] s))) = Ret (Asking slot (ni_addr n))"
    unfolding handle_slots setslot_forms(1) [OF l(2)] setslot_importing_def
    using l len assms(3-6) by (simp add: finish_setslot_def utf8_lossy_valid defs dict_simps)
  show "route key True s = (Ret Local, False)" by (simp add: route_def)
qed

theorem ownership_governs_routing_witness:
  "fst (route (ascii ''foo'') False (snd (cluster_handle (\<lambda>_. Some) 1 (ascii ''SETSLOT'')
     [show_nat (key_hash_slot (ascii ''foo'')), ascii ''NODE'', ascii ''abc'']
     (add_node (ascii ''abc'') (ascii ''h:1'') Master flags_default (cluster_new None (node_new [65] [66] Master))))))
   = Ret (Moved (key_hash_slot (ascii ''foo'')) (ascii ''h:1''))"
  using ownership_governs_routing [where key = "ascii ''foo''" and wr = "\<lambda>_. Some" and seed = 1
      and n = "(node_new (ascii ''abc'') (ascii ''h:1'') Master)\<lparr>ni_flags := flags_default\<rparr>"
      and s = "add_node (ascii ''abc'') (ascii ''h:1'') Master flags_default (cluster_new None (node_new [65] [66] Master))",
      OF add_node_inv [OF cluster_new_inv]]
  by (simp add: add_node_def cluster_new_def node_new_def dict_simps ascii_def)

text \<open>
  C24. Saving and loading nodes.conf: when every known node has a printable record, loading the
  saved file gives back exactly the nodes that have slot ranges in their record, with address,
  role, epoch, flags and ranges; a node without slot ranges is lost. Slot ownership itself is not
  restored: after a restart no slot has an owner, whatever the file says.
\<close>

theorem nodes_conf_roundtrip:
  assumes "cluster_inv s" "\<forall>(k, n) \<in> set (cs_nodes s). printable n"
  shows "dict_get (cs_nodes (load_nodes_conf (Some (conf_content (cs_nodes s))) s0))
       = dict_get (cs_nodes s0) ++ dict_get (filter (\<lambda>(k, n). ni_slots n \<noteq> []) (cs_nodes s))
    \<and> (init_cluster config addr seed file = Some s' \<longrightarrow> slot_owner slot s' = Ret None)"
proof (intro conjI impI)
  let ?P = "\<lambda>(k, n). ni_slots n \<noteq> []"
  have nok: "dict_wf (cs_nodes s)" "\<And>k n. dict_get (cs_nodes s) k = Some n \<Longrightarrow> ni_id n = k"
    using assms(1) by (simp_all add: cluster_inv_def nodes_ok_def)
  have "\<forall>(k, n) \<in> set (cs_nodes s). printable n \<and> ni_id n = k"
    using assms(2) nok by (fastforce simp: dict_wf_def)
  from load_conf_lines [OF this, of s0] show "dict_get (cs_nodes (load_nodes_conf (Some (conf_content (cs_nodes s))) s0))
      = dict_get (cs_nodes s0) ++ dict_get (filter ?P (cs_nodes s))"
    unfolding load_nodes_conf_def conf_content_lines [OF assms(2)] option.case
    by (simp only: hashmap.get_fold_put map_of_rev_distinct [OF dict_wf_filter [OF nok(1)]])
next
  assume "init_cluster config addr seed file = Some s'"
  then have "cs_slots s' = replicate NUM_SLOTS None \<and> cs_poisoned s' = []"
    unfolding init_cluster_def Let_def
    by (auto simp: load_keeps_slots cluster_new_def load_nodes_conf_poison split: if_splits)
  then show "slot_owner slot s' = Ret None" by (simp add: slot_owner_def lock_ok_def)
qed

theorem nodes_conf_roundtrip_witness:
  "dict_get (cs_nodes (load_nodes_conf (Some (conf_content (cs_nodes (cluster_new None
       ((node_new (ascii ''a'') (ascii ''h:1'') Master)\<lparr>ni_flags := flags_default\<lparr>nf_master := True\<rparr>,
          ni_slots := [SlotRange 0 5]\<rparr>)))))
     (cluster_new None (node_new (ascii ''b'') (ascii ''h:2'') Slave)))) (ascii ''a'')
   = Some ((node_new (ascii ''a'') (ascii ''h:1'') Master)\<lparr>ni_flags := flags_default\<lparr>nf_master := True\<rparr>,
       ni_slots := [SlotRange 0 5]\<rparr>)"
proof -
  let ?n = "(node_new (ascii ''a'') (ascii ''h:1'') Master)\<lparr>ni_flags := flags_default\<lparr>nf_master := True\<rparr>,
      ni_slots := [SlotRange 0 5]\<rparr>"
  have "printable ?n"
    by (simp add: printable_def node_new_def ws_free_def ascii_def flag_words_def flags_default_def u64_max_def)
  then have p: "\<forall>(k, n) \<in> set (cs_nodes (cluster_new None ?n)). printable n"
    by (simp add: cluster_new_def)
  have "dict_get (cs_nodes (load_nodes_conf
       (Some (conf_content (cs_nodes (cluster_new None ?n)))) s0))
     = dict_get (cs_nodes s0) ++ dict_get (filter (\<lambda>(k, n). ni_slots n \<noteq> []) (cs_nodes (cluster_new None ?n)))" for s0
    using nodes_conf_roundtrip [OF cluster_new_inv p] by blast
  then show ?thesis by (simp add: cluster_new_def node_new_def map_add_def)
qed

end
