(* ===== verification/Cmd_Base.thy ===== *)
theory Cmd_Base
  imports Store Resp
begin

text \<open>
  What the command modules of \<^verbatim>\<open>crates/commands\<close> share: the environment of a call, the outcome of
  a command, the common replies, direct access to the key map, and well-formedness of a store.
  A command gets the arguments after its name and the store, and returns the reply with the
  store it leaves; it may panic, or block for ever on a lock it already holds (the shard lock
  behind a \<^verbatim>\<open>DashMap\<close> reference is not reentrant). The environment holds the monotonic clock,
  the wall clock in milliseconds and the parameters of eviction.
\<close>

record env =
  e_now :: instant
  e_wall :: nat
  e_zsz :: nat
  e_ssz :: nat
  e_pick :: "nat \<Rightarrow> nat \<Rightarrow> nat"
  e_rnd :: "bytes \<Rightarrow> int"

type_synonym 's result = "(RespValue \<times> 's store) outcome"

definition secs :: "nat \<Rightarrow> duration" where "secs n = n * 10 ^ 9"

definition millis :: "nat \<Rightarrow> duration" where "millis n = n * 10 ^ 6"

subsection \<open>Replies\<close>

definition bull :: "bytes \<Rightarrow> RespValue" where "bull b = BulkString (Some b)"

definition wrongtype :: RespValue where
  "wrongtype = Error (ascii ''WRONGTYPE Operation against a key holding the wrong kind of value'')"

definition not_int :: RespValue where
  "not_int = Error (ascii ''ERR value is not an integer or out of range'')"

definition not_float :: RespValue where
  "not_float = Error (ascii ''ERR value is not a valid float'')"

definition syntax_error :: RespValue where
  "syntax_error = Error (ascii ''ERR syntax error'')"

definition wrong_args :: "string \<Rightarrow> RespValue" where
  "wrong_args name = Error (ascii ''ERR wrong number of arguments for '' @ [39] @ ascii name @ [39] @ ascii '' command'')"

definition ok :: RespValue where "ok = SimpleString (ascii ''OK'')"

subsection \<open>Direct access to the key map\<close>

text \<open>
  \<^verbatim>\<open>get_mut\<close> followed by an assignment of \<^verbatim>\<open>entry.data\<close>, and \<^verbatim>\<open>insert\<close> of a fresh entry. Neither tests
  the expiry of the entry, notifies watchers, nor counts a change.
\<close>

definition write_data :: "bytes \<Rightarrow> 's entry \<Rightarrow> 's DataType \<Rightarrow> 's store \<Rightarrow> 's store" where
  "write_data key e d st = st\<lparr>keyspace := dict_put key (e\<lparr>data := d\<rparr>) (keyspace st)\<rparr>"

definition insert_fresh :: "instant \<Rightarrow> bytes \<Rightarrow> 's DataType \<Rightarrow> 's store \<Rightarrow> 's store outcome" where
  "insert_fresh now key d st =
     obind (entry_new now d None) (\<lambda>e. Ret (st\<lparr>keyspace := dict_put key e (keyspace st)\<rparr>))"

text \<open>\<^verbatim>\<open>keyspace.entry(key).or_insert_with(..)\<close>: the entry of the key, made with the given value if absent.\<close>

definition or_insert :: "env \<Rightarrow> bytes \<Rightarrow> 's DataType \<Rightarrow> 's store \<Rightarrow> 's entry \<times> 's store" where
  "or_insert env key d st =
     (case dict_get (keyspace st) key of
        Some e \<Rightarrow> (e, st)
      | None \<Rightarrow>
          (let e = \<lparr>data = d, expires_at = None, last_access = e_now env, access_count = 1, lfu_counter = 1\<rparr>
           in (e, st\<lparr>keyspace := dict_put key e (keyspace st)\<rparr>)))"

lemma insert_fresh_Ret [simp]:
  "insert_fresh now key d st = Ret (st\<lparr>keyspace := dict_put key \<lparr>data = d, expires_at = None,
     last_access = now, access_count = 1, lfu_counter = 1\<rparr> (keyspace st)\<rparr>)"
  by (simp add: insert_fresh_def entry_new_def)

subsection \<open>Well-formed stores\<close>

definition store_wf :: "'s store \<Rightarrow> bool" where
  "store_wf st \<longleftrightarrow> dict_wf (keyspace st) \<and> (\<forall>k e. kmap st k = Some e \<longrightarrow> data_wf (data e))"

lemma store_wf_data: "store_wf st \<Longrightarrow> kmap st k = Some e \<Longrightarrow> data_wf (data e)"
  by (simp add: store_wf_def)

lemma store_wf_put [inv_intros]:
  "store_wf st \<Longrightarrow> data_wf (data e) \<Longrightarrow> store_wf (st\<lparr>keyspace := dict_put k e (keyspace st)\<rparr>)"
  by (auto simp: store_wf_def dict_simps hashmap.wf_put)

lemma store_wf_upd:
  "store_wf st \<Longrightarrow> data_wf (data e) \<Longrightarrow> keyspace st' = dict_put k e (keyspace st) \<Longrightarrow> store_wf st'"
  by (auto simp: store_wf_def dict_simps hashmap.wf_put)

lemma store_wf_cong: "keyspace st' = keyspace st \<Longrightarrow> store_wf st \<Longrightarrow> store_wf st'"
  by (simp add: store_wf_def)

lemma store_wf_drop [inv_intros]: "store_wf st \<Longrightarrow> store_wf (store_drop k st)"
  by (auto simp: store_wf_def store_drop_def dict_simps hashmap.wf_del)

lemma store_wf_notify [inv_intros]: "store_wf st \<Longrightarrow> store_wf (notify_watchers k st)"
  by (rule store_wf_cong) simp_all

lemma store_wf_bump [inv_intros]: "store_wf st \<Longrightarrow> store_wf (bump_dirty st)"
  by (rule store_wf_cong) simp_all

lemma store_wf_get [inv_intros]: "store_wf st \<Longrightarrow> store_wf (snd (store_get now k st))"
  by (simp add: store_get_def store_wf_drop split: option.split)

lemma store_wf_exists [inv_intros]: "store_wf st \<Longrightarrow> store_wf (snd (store_exists now k st))"
  by (simp add: store_exists_def store_wf_drop split: option.split)

lemma store_wf_del [inv_intros]: "store_wf st \<Longrightarrow> store_wf (snd (store_del k st))"
  by (simp add: store_del_def Let_def store_wf_drop store_wf_notify store_wf_bump)

lemma entry_new_data: "entry_new now d ttl = Ret e \<Longrightarrow> data e = d"
  by (auto simp: entry_new_def obind_Ret_iff)

lemma store_wf_set [inv_intros]:
  assumes "store_wf st" "data_wf d" "store_set now k d ttl st = Ret st'"
  shows "store_wf st'"
proof -
  obtain e where "entry_new now d ttl = Ret e"
    "st' = bump_dirty ((notify_watchers k st)\<lparr>keyspace := dict_put k e (keyspace (notify_watchers k st))\<rparr>)"
    using assms(3) by (auto simp: store_set_def Let_def obind_Ret_iff)
  then show ?thesis using assms(1,2) by (intro store_wf_upd [of st e st' k]) (simp_all add: entry_new_data)
qed

lemma store_wf_write [inv_intros]:
  "store_wf st \<Longrightarrow> data_wf d \<Longrightarrow> store_wf (write_data k e d st)"
  by (simp add: write_data_def store_wf_put)

lemma store_wf_evict [inv_intros]:
  "store_wf st \<Longrightarrow> store_wf (snd (maybe_evict zsz ssz pick rnd now st))"
  by (auto simp: maybe_evict_def Let_def store_wf_drop split: option.split
      intro: store_wf_cong [of _ "store_drop k st" for k])

lemma store_get_live:
  "fst (store_get now k st) = live now (kmap st) k"
  by (simp add: store_get_def live_def split: option.split)

lemma store_get_Some: "store_get now k st = (Some e, st') \<longleftrightarrow> live now (kmap st) k = Some e \<and> st' = st"
  by (auto simp: store_get_def live_def split: option.splits if_splits)

lemma store_get_None:
  "store_get now k st = (None, st') \<longleftrightarrow> live now (kmap st) k = None
     \<and> st' = (if kmap st k = None then st else store_drop k st)"
  by (auto simp: store_get_def live_def split: option.splits if_splits)

lemma bytes_u64_show_nat: "n < 2 ^ 64 \<Longrightarrow> bytes_u64 (show_nat n) = Some n"
  using show_int_utf8 [of "int n"]
  by (simp add: bytes_u64_def utf8_or_empty_def show_nat_eq_show_int [symmetric] parse_usize_def
      parse_unsigned_show_nat u64_max_def)

subsection \<open>Reading a value\<close>

text \<open>A clone of the value of a live key, and a draw of a random number below a bound.\<close>

definition read_data :: "env \<Rightarrow> bytes \<Rightarrow> 's store \<Rightarrow> 's DataType option \<times> 's store" where
  "read_data env key st = (let (e, st') = store_get (e_now env) key st in (map_option data e, st'))"

definition draw :: "env \<Rightarrow> nat \<Rightarrow> nat \<Rightarrow> nat" where
  "draw env i n = e_pick env i n mod n"

lemma live_get_same: "live now (kmap (snd (store_get now k st))) = live now (kmap st)"
  by (rule ext) (auto simp: store_get_def live_def split: option.split)

lemma read_data_cases:
  obtains (absent) st' where "read_data env k st = (None, st')" "live (e_now env) (kmap st) k = None"
      "live (e_now env) (kmap st') = live (e_now env) (kmap st)" "store_wf st \<Longrightarrow> store_wf st'"
  | (present) e where "read_data env k st = (Some (data e), st)" "live (e_now env) (kmap st) k = Some e"
proof (cases "store_get (e_now env) k st")
  case (Pair o' st')
  show ?thesis
  proof (cases o')
    case None
    then show ?thesis
      using absent [of st'] Pair live_get_same [of "e_now env" k st] store_wf_get [of st "e_now env" k]
        store_get_live [of "e_now env" k st]
      by (simp add: read_data_def)
  next
    case (Some e)
    then show ?thesis using present [of e] Pair by (simp add: read_data_def store_get_Some)
  qed
qed

lemma live_data_wf: "store_wf st \<Longrightarrow> live now (kmap st) k = Some e \<Longrightarrow> data_wf (data e)"
  by (auto simp: live_def store_wf_data split: option.splits if_splits)

subsection \<open>Storing without expiry\<close>

lemma store_set_Ret:
  "store_set now k d None st = Ret (bump_dirty ((notify_watchers k st)\<lparr>keyspace :=
     dict_put k \<lparr>data = d, expires_at = None, last_access = now, access_count = 1, lfu_counter = 1\<rparr> (keyspace (notify_watchers k st))\<rparr>))"
  by (simp add: store_set_def entry_new_def)

lemma store_set_ok:
  "\<exists>st'. store_set (e_now env) k d None st = Ret st'"
  by (simp add: store_set_Ret)

lemma store_set_map:
  "store_set now k d None st = Ret st' \<Longrightarrow>
    kmap st' = (kmap st)(k \<mapsto> \<lparr>data = d, expires_at = None, last_access = now, access_count = 1, lfu_counter = 1\<rparr>)"
  unfolding store_set_Ret by (auto simp: dict_simps)

subsection \<open>Concrete environments and entries\<close>

abbreviation env0 :: env where
  "env0 \<equiv> \<lparr>e_now = 0, e_wall = 0, e_zsz = 0, e_ssz = 0, e_pick = \<lambda>_ _. 0, e_rnd = \<lambda>_. 0\<rparr>"

abbreviation fresh_entry :: "'s DataType \<Rightarrow> 's entry" where
  "fresh_entry d \<equiv> \<lparr>data = d, expires_at = None, last_access = 0, access_count = 1, lfu_counter = 1\<rparr>"

end
