(* ===== verification/Cmd_String.thy ===== *)
theory Cmd_String
  imports Cmd_Base
begin

text \<open>
  The string commands of \<^verbatim>\<open>crates/commands/src/string.rs\<close>, LCS apart.
\<close>

subsection \<open>Reading and writing\<close>

definition cmd_get :: "env \<Rightarrow> bytes list \<Rightarrow> 's store \<Rightarrow> 's result" where
  "cmd_get env args st =
     (case args of
        [key] \<Rightarrow>
          (case store_get (e_now env) key st of
             (Some e, st') \<Rightarrow> Ret (case data e of DString s \<Rightarrow> bull s | _ \<Rightarrow> wrongtype, st')
           | (None, st') \<Rightarrow> Ret (null_bulk, st'))
      | _ \<Rightarrow> Ret (wrong_args ''get'', st))"

record set_opts =
  so_ttl :: "duration option"
  so_nx :: bool
  so_xx :: bool
  so_get :: bool

text \<open>The option loop of SET: an early reply, or the options.\<close>

fun set_options :: "env \<Rightarrow> bytes \<Rightarrow> bytes list \<Rightarrow> set_opts \<Rightarrow> 's store \<Rightarrow> (RespValue \<times> 's store) + set_opts" where
  "set_options env key [] so st = Inr so"
| "set_options env key (a # rest) so st =
     (case from_utf8 a of
        None \<Rightarrow> Inl (syntax_error, st)
      | Some s \<Rightarrow>
          (let opt = to_upper s in
           if opt = ascii ''EX'' then
             (case rest of
                [] \<Rightarrow> Inl (syntax_error, st)
              | v # rest' \<Rightarrow>
                  (case bytes_u64 v of
                     None \<Rightarrow> Inl (not_int, st)
                   | Some n \<Rightarrow> set_options env key rest' (so\<lparr>so_ttl := Some (secs n)\<rparr>) st))
           else if opt = ascii ''PX'' then
             (case rest of
                [] \<Rightarrow> Inl (syntax_error, st)
              | v # rest' \<Rightarrow>
                  (case bytes_u64 v of
                     None \<Rightarrow> Inl (not_int, st)
                   | Some n \<Rightarrow> set_options env key rest' (so\<lparr>so_ttl := Some (millis n)\<rparr>) st))
           else if opt = ascii ''EXAT'' then
             (case rest of
                [] \<Rightarrow> Inl (syntax_error, st)
              | v # rest' \<Rightarrow>
                  (case bytes_u64 v of
                     None \<Rightarrow> Inl (not_int, st)
                   | Some ts \<Rightarrow>
                       (let now = e_wall env div 1000 in
                        if ts > now then set_options env key rest' (so\<lparr>so_ttl := Some (secs (ts - now))\<rparr>) st
                        else Inl (null_bulk, snd (store_del key st)))))
           else if opt = ascii ''PXAT'' then
             (case rest of
                [] \<Rightarrow> Inl (syntax_error, st)
              | v # rest' \<Rightarrow>
                  (case bytes_u64 v of
                     None \<Rightarrow> Inl (not_int, st)
                   | Some ts \<Rightarrow>
                       (let now = e_wall env in
                        if ts > now then set_options env key rest' (so\<lparr>so_ttl := Some (millis (ts - now))\<rparr>) st
                        else Inl (null_bulk, snd (store_del key st)))))
           else if opt = ascii ''KEEPTTL'' then set_options env key rest (so\<lparr>so_ttl := None\<rparr>) st
           else if opt = ascii ''NX'' then set_options env key rest (so\<lparr>so_nx := True\<rparr>) st
           else if opt = ascii ''XX'' then set_options env key rest (so\<lparr>so_xx := True\<rparr>) st
           else if opt = ascii ''GET'' then set_options env key rest (so\<lparr>so_get := True\<rparr>) st
           else Inl (syntax_error, st)))"

definition opts0 :: set_opts where
  "opts0 = \<lparr>so_ttl = None, so_nx = False, so_xx = False, so_get = False\<rparr>"

definition env_evict :: "env \<Rightarrow> 's store \<Rightarrow> (bytes + unit) \<times> 's store" where
  "env_evict env st = maybe_evict (e_zsz env) (e_ssz env) (e_pick env) (e_rnd env) (e_now env) st"

text \<open>SET once its options are known.\<close>

definition set_with :: "env \<Rightarrow> bytes \<Rightarrow> bytes \<Rightarrow> set_opts \<Rightarrow> 's store \<Rightarrow> 's result" where
  "set_with env key value so st0 =
     (let (key_exists, st1) = store_exists (e_now env) key st0 in
      if so_nx so \<and> key_exists then
        (if so_get so then
           (case store_get (e_now env) key st1 of
              (Some e, st2) \<Rightarrow> Ret (case data e of DString s \<Rightarrow> bull s | _ \<Rightarrow> wrongtype, st2)
            | (None, st2) \<Rightarrow> Ret (null_bulk, st2))
         else Ret (null_bulk, st1))
      else if so_xx so \<and> \<not> key_exists then Ret (null_bulk, st1)
      else
        let (old_value, st2) =
              (if so_get so then
                 (case store_get (e_now env) key st1 of
                    (Some e, st2) \<Rightarrow> (case data e of DString s \<Rightarrow> Some s | _ \<Rightarrow> None, st2)
                  | (None, st2) \<Rightarrow> (None, st2))
               else (None, st1))
        in case env_evict env st2 of
             (Inl err, st3) \<Rightarrow> Ret (Error err, st3)
           | (Inr _, st3) \<Rightarrow>
               obind (store_set (e_now env) key (DString value) (so_ttl so) st3) (\<lambda>st4.
                 Ret (if so_get so then (case old_value of Some v \<Rightarrow> bull v | None \<Rightarrow> null_bulk) else ok, st4)))"

definition cmd_set :: "env \<Rightarrow> bytes list \<Rightarrow> 's store \<Rightarrow> 's result" where
  "cmd_set env args st =
     (case args of
        key # value # rest \<Rightarrow>
          (case set_options env key rest opts0 st of
             Inl r \<Rightarrow> Ret r
           | Inr so \<Rightarrow> set_with env key value so st)
      | _ \<Rightarrow> Ret (wrong_args ''set'', st))"

fun del_keys :: "bytes list \<Rightarrow> int \<Rightarrow> 's store \<Rightarrow> int \<times> 's store" where
  "del_keys [] n st = (n, st)"
| "del_keys (k # ks) n st = (let (b, st') = store_del k st in del_keys ks (if b then n + 1 else n) st')"

definition cmd_del :: "bytes list \<Rightarrow> 's store \<Rightarrow> 's result" where
  "cmd_del args st =
     (if args = [] then Ret (wrong_args ''del'', st)
      else let (n, st') = del_keys args 0 st in Ret (Integer n, st'))"

text \<open>On a value of another type GETSET calls \<^verbatim>\<open>store.set\<close> while it holds the entry.\<close>

definition cmd_getset :: "env \<Rightarrow> bytes list \<Rightarrow> 's store \<Rightarrow> 's result" where
  "cmd_getset env args st =
     (case args of
        [key, value] \<Rightarrow>
          (let put = (\<lambda>old st'. obind (store_set (e_now env) key (DString value) None st') (\<lambda>st''. Ret (old, st''))) in
           case store_get (e_now env) key st of
             (Some e, st') \<Rightarrow> (case data e of DString s \<Rightarrow> put (bull s) st' | _ \<Rightarrow> Deadlock)
           | (None, st') \<Rightarrow> put null_bulk st')
      | _ \<Rightarrow> Ret (wrong_args ''getset'', st))"

fun mget_loop :: "env \<Rightarrow> bytes list \<Rightarrow> 's store \<Rightarrow> RespValue list \<times> 's store" where
  "mget_loop env [] st = ([], st)"
| "mget_loop env (k # ks) st =
     (let (e, st') = store_get (e_now env) k st;
          r = (case e of Some e \<Rightarrow> (case data e of DString s \<Rightarrow> bull s | _ \<Rightarrow> null_bulk) | None \<Rightarrow> null_bulk);
          (rs, st'') = mget_loop env ks st'
      in (r # rs, st''))"

definition cmd_mget :: "env \<Rightarrow> bytes list \<Rightarrow> 's store \<Rightarrow> 's result" where
  "cmd_mget env args st =
     (if args = [] then Ret (wrong_args ''mget'', st)
      else let (rs, st') = mget_loop env args st in Ret (Array (Some rs), st'))"

fun mset_loop :: "env \<Rightarrow> (bytes \<times> bytes) list \<Rightarrow> 's store \<Rightarrow> 's store outcome" where
  "mset_loop env [] st = Ret st"
| "mset_loop env ((k, v) # r) st =
     obind (store_set (e_now env) k (DString v) None st) (\<lambda>st'. mset_loop env r st')"

definition cmd_mset :: "env \<Rightarrow> bytes list \<Rightarrow> 's store \<Rightarrow> 's result" where
  "cmd_mset env args st =
     (if args = [] \<or> length args mod 2 \<noteq> 0 then Ret (wrong_args ''mset'', st)
      else obind (mset_loop env (chunks2 args) st) (\<lambda>st'. Ret (ok, st')))"

fun any_exists :: "env \<Rightarrow> bytes list \<Rightarrow> 's store \<Rightarrow> bool \<times> 's store" where
  "any_exists env [] st = (False, st)"
| "any_exists env (k # ks) st =
     (let (b, st') = store_exists (e_now env) k st in if b then (True, st') else any_exists env ks st')"

definition cmd_msetnx :: "env \<Rightarrow> bytes list \<Rightarrow> 's store \<Rightarrow> 's result" where
  "cmd_msetnx env args st =
     (if args = [] \<or> length args mod 2 \<noteq> 0 then Ret (wrong_args ''msetnx'', st)
      else
        let (b, st') = any_exists env (map fst (chunks2 args)) st in
        if b then Ret (Integer 0, st')
        else obind (mset_loop env (chunks2 args) st') (\<lambda>st''. Ret (Integer 1, st'')))"

subsection \<open>Counters\<close>

definition cmd_incrby_internal :: "env \<Rightarrow> bytes \<Rightarrow> int \<Rightarrow> 's store \<Rightarrow> 's result" where
  "cmd_incrby_internal env key increment st =
     (case dict_get (keyspace st) key of
        Some e \<Rightarrow>
          (case data e of
             DString s \<Rightarrow>
               (case bytes_i64 s of
                  None \<Rightarrow> Ret (not_int, st)
                | Some current \<Rightarrow>
                    (let new_val = wrap_i64 (current + increment)
                     in Ret (Integer new_val, write_data key e (DString (show_int new_val)) st)))
           | _ \<Rightarrow> Ret (wrongtype, st))
      | None \<Rightarrow>
          obind (insert_fresh (e_now env) key (DString (show_int increment)) st)
            (\<lambda>st'. Ret (Integer increment, st')))"

definition cmd_incr :: "env \<Rightarrow> bytes list \<Rightarrow> 's store \<Rightarrow> 's result" where
  "cmd_incr env args st =
     (case args of [key] \<Rightarrow> cmd_incrby_internal env key 1 st | _ \<Rightarrow> Ret (wrong_args ''incr'', st))"

definition cmd_decr :: "env \<Rightarrow> bytes list \<Rightarrow> 's store \<Rightarrow> 's result" where
  "cmd_decr env args st =
     (case args of [key] \<Rightarrow> cmd_incrby_internal env key (-1) st | _ \<Rightarrow> Ret (wrong_args ''decr'', st))"

definition cmd_incrby :: "env \<Rightarrow> bytes list \<Rightarrow> 's store \<Rightarrow> 's result" where
  "cmd_incrby env args st =
     (case args of
        [key, inc] \<Rightarrow>
          (case bytes_i64 inc of
             None \<Rightarrow> Ret (not_int, st)
           | Some i \<Rightarrow> cmd_incrby_internal env key i st)
      | _ \<Rightarrow> Ret (wrong_args ''incrby'', st))"

text \<open>The negation of the smallest \<^verbatim>\<open>i64\<close> wraps to itself.\<close>

definition cmd_decrby :: "env \<Rightarrow> bytes list \<Rightarrow> 's store \<Rightarrow> 's result" where
  "cmd_decrby env args st =
     (case args of
        [key, d] \<Rightarrow>
          (case bytes_i64 d of
             None \<Rightarrow> Ret (not_int, st)
           | Some i \<Rightarrow> cmd_incrby_internal env key (wrap_i64 (- i)) st)
      | _ \<Rightarrow> Ret (wrong_args ''decrby'', st))"

definition cmd_incrbyfloat :: "env \<Rightarrow> bytes list \<Rightarrow> 's store \<Rightarrow> 's result" where
  "cmd_incrbyfloat env args st =
     (case args of
        [key, inc] \<Rightarrow>
          (case parse_f64 (utf8_or_empty inc) of
             None \<Rightarrow> Ret (not_float, st)
           | Some i \<Rightarrow>
               (case dict_get (keyspace st) key of
                  Some e \<Rightarrow>
                    (case data e of
                       DString s \<Rightarrow>
                         (case parse_f64 (utf8_or_empty s) of
                            None \<Rightarrow> Ret (not_float, st)
                          | Some current \<Rightarrow>
                              (let b = show_f64 (f64_add current i)
                               in Ret (bull b, write_data key e (DString b) st)))
                     | _ \<Rightarrow> Ret (wrongtype, st))
                | None \<Rightarrow>
                    (let b = show_f64 i
                     in obind (insert_fresh (e_now env) key (DString b) st) (\<lambda>st'. Ret (bull b, st')))))
      | _ \<Rightarrow> Ret (wrong_args ''incrbyfloat'', st))"

subsection \<open>Ranges\<close>

definition cmd_append :: "env \<Rightarrow> bytes list \<Rightarrow> 's store \<Rightarrow> 's result" where
  "cmd_append env args st =
     (case args of
        [key, value] \<Rightarrow>
          (case dict_get (keyspace st) key of
             Some e \<Rightarrow>
               (case data e of
                  DString s \<Rightarrow>
                    Ret (Integer (int (length (s @ value))), write_data key e (DString (s @ value)) st)
                | _ \<Rightarrow> Ret (wrongtype, st))
           | None \<Rightarrow>
               obind (insert_fresh (e_now env) key (DString value) st)
                 (\<lambda>st'. Ret (Integer (int (length value)), st')))
      | _ \<Rightarrow> Ret (wrong_args ''append'', st))"

definition cmd_strlen :: "env \<Rightarrow> bytes list \<Rightarrow> 's store \<Rightarrow> 's result" where
  "cmd_strlen env args st =
     (case args of
        [key] \<Rightarrow>
          (case store_get (e_now env) key st of
             (Some e, st') \<Rightarrow> Ret (case data e of DString s \<Rightarrow> Integer (int (length s)) | _ \<Rightarrow> wrongtype, st')
           | (None, st') \<Rightarrow> Ret (Integer 0, st'))
      | _ \<Rightarrow> Ret (wrong_args ''strlen'', st))"

text \<open>The sum of a length and a negative index does not overflow an \<^verbatim>\<open>i64\<close>.\<close>

definition normalize_index :: "int \<Rightarrow> int \<Rightarrow> int" where
  "normalize_index index len =
     (if index < 0 then (let idx = len + index in if idx < 0 then 0 else idx) else index)"

definition get_range :: "int \<Rightarrow> int \<Rightarrow> bytes \<Rightarrow> bytes" where
  "get_range start end s =
     (let len = int (length s) in
      if len = 0 then []
      else
        let si = normalize_index start len; ei = normalize_index end len in
        if si > ei \<or> si \<ge> len then []
        else let ei' = min ei (len - 1) in take (nat (ei' + 1) - nat si) (drop (nat si) s))"

definition cmd_getrange :: "env \<Rightarrow> bytes list \<Rightarrow> 's store \<Rightarrow> 's result" where
  "cmd_getrange env args st =
     (case args of
        [key, a, b] \<Rightarrow>
          (case (bytes_i64 a, bytes_i64 b) of
             (Some start, Some end) \<Rightarrow>
               (case store_get (e_now env) key st of
                  (Some e, st') \<Rightarrow>
                    Ret (case data e of DString s \<Rightarrow> bull (get_range start end s) | _ \<Rightarrow> wrongtype, st')
                | (None, st') \<Rightarrow> Ret (bull [], st'))
           | _ \<Rightarrow> Ret (not_int, st))
      | _ \<Rightarrow> Ret (wrong_args ''getrange'', st))"

text \<open>
  \<^verbatim>\<open>buf[offset..end].copy_from_slice(value)\<close>, which panics unless the range lies in the buffer
  and has the length of the value.
\<close>

definition copy_into :: "bytes \<Rightarrow> nat \<Rightarrow> nat \<Rightarrow> bytes \<Rightarrow> bytes outcome" where
  "copy_into buf offset end value =
     (if offset \<le> end \<and> end \<le> length buf \<and> end - offset = length value
      then Ret (take offset buf @ value @ drop end buf) else Panic)"

definition cmd_setrange :: "env \<Rightarrow> bytes list \<Rightarrow> 's store \<Rightarrow> 's result" where
  "cmd_setrange env args st =
     (case args of
        [key, off, value] \<Rightarrow>
          (case bytes_u64 off of
             None \<Rightarrow> Ret (not_int, st)
           | Some offset \<Rightarrow>
               (let end = wrap_u64 (offset + length value) in
                if end > 512 * 1024 * 1024
                then Ret (Error (ascii ''ERR string exceeds maximum allowed size''), st)
                else case dict_get (keyspace st) key of
                  Some e \<Rightarrow>
                    (case data e of
                       DString s \<Rightarrow>
                         (let new_len = max end (length s);
                              buf = s @ replicate (new_len - length s) 0
                          in obind (copy_into buf offset end value) (\<lambda>buf'.
                               Ret (Integer (int (length buf')), write_data key e (DString buf') st)))
                     | _ \<Rightarrow> Ret (wrongtype, st))
                | None \<Rightarrow>
                    obind (copy_into (replicate end 0) offset end value) (\<lambda>buf.
                      obind (insert_fresh (e_now env) key (DString buf) st)
                        (\<lambda>st'. Ret (Integer (int end), st')))))
      | _ \<Rightarrow> Ret (wrong_args ''setrange'', st))"

subsection \<open>Conditional and expiring writes\<close>

definition cmd_setnx :: "env \<Rightarrow> bytes list \<Rightarrow> 's store \<Rightarrow> 's result" where
  "cmd_setnx env args st =
     (case args of
        [key, value] \<Rightarrow>
          (let (b, st') = store_exists (e_now env) key st in
           if b then Ret (Integer 0, st')
           else obind (store_set (e_now env) key (DString value) None st') (\<lambda>st''. Ret (Integer 1, st'')))
      | _ \<Rightarrow> Ret (wrong_args ''setnx'', st))"

definition cmd_setex :: "env \<Rightarrow> bytes list \<Rightarrow> 's store \<Rightarrow> 's result" where
  "cmd_setex env args st =
     (case args of
        [key, n, value] \<Rightarrow>
          (case bytes_u64 n of
             None \<Rightarrow> Ret (not_int, st)
           | Some n \<Rightarrow>
               obind (store_set (e_now env) key (DString value) (Some (secs n)) st) (\<lambda>st'. Ret (ok, st')))
      | _ \<Rightarrow> Ret (wrong_args ''setex'', st))"

definition cmd_psetex :: "env \<Rightarrow> bytes list \<Rightarrow> 's store \<Rightarrow> 's result" where
  "cmd_psetex env args st =
     (case args of
        [key, n, value] \<Rightarrow>
          (case bytes_u64 n of
             None \<Rightarrow> Ret (not_int, st)
           | Some n \<Rightarrow>
               obind (store_set (e_now env) key (DString value) (Some (millis n)) st) (\<lambda>st'. Ret (ok, st')))
      | _ \<Rightarrow> Ret (wrong_args ''psetex'', st))"

text \<open>The option of GETEX: an early reply, or the new time to live and the store.\<close>

definition getex_option :: "env \<Rightarrow> bytes \<Rightarrow> bytes list \<Rightarrow> 's store \<Rightarrow>
    (RespValue \<times> 's store) + (duration option \<times> 's store)" where
  "getex_option env key args st =
     (case args of
        [] \<Rightarrow> Inr (None, st)
      | a # rest \<Rightarrow>
          (case from_utf8 a of
             None \<Rightarrow> Inl (syntax_error, st)
           | Some s \<Rightarrow>
               (let opt = to_upper s;
                    num = (\<lambda>v. unwrap_or 0 (bytes_u64 v))
                in if opt = ascii ''PERSIST'' then
                     Inr (None, case dict_get (keyspace st) key of
                        None \<Rightarrow> st
                      | Some e \<Rightarrow> st\<lparr>keyspace := dict_put key (e\<lparr>expires_at := None\<rparr>) (keyspace st)\<rparr>)
                   else if opt = ascii ''KEEPTTL'' then Inr (None, st)
                   else if opt = ascii ''EX'' then
                     (case rest of [] \<Rightarrow> Inl (syntax_error, st) | v # _ \<Rightarrow> Inr (Some (secs (num v)), st))
                   else if opt = ascii ''PX'' then
                     (case rest of [] \<Rightarrow> Inl (syntax_error, st) | v # _ \<Rightarrow> Inr (Some (millis (num v)), st))
                   else if opt = ascii ''EXAT'' then
                     (case rest of
                        [] \<Rightarrow> Inl (syntax_error, st)
                      | v # _ \<Rightarrow>
                          (let now = e_wall env div 1000 in
                           if num v > now then Inr (Some (secs (num v - now)), st)
                           else Inl (null_bulk, snd (store_del key st))))
                   else if opt = ascii ''PXAT'' then
                     (case rest of
                        [] \<Rightarrow> Inl (syntax_error, st)
                      | v # _ \<Rightarrow>
                          (let now = e_wall env in
                           if num v > now then Inr (Some (millis (num v - now)), st)
                           else Inl (null_bulk, snd (store_del key st))))
                   else Inl (syntax_error, st))))"

definition getex_final :: "env \<Rightarrow> bytes \<Rightarrow> 's store \<Rightarrow> 's result" where
  "getex_final env key st =
     (case store_get (e_now env) key st of
        (Some e, st') \<Rightarrow> (case data e of DString s \<Rightarrow> Ret (bull s, st') | _ \<Rightarrow> Panic)
      | (None, st') \<Rightarrow> Ret (null_bulk, st'))"

definition getex_apply :: "env \<Rightarrow> bytes \<Rightarrow> duration option \<Rightarrow> 's store \<Rightarrow> 's result" where
  "getex_apply env key new_ttl st =
     (case new_ttl of
        None \<Rightarrow> getex_final env key st
      | Some ttl \<Rightarrow>
          (case store_get (e_now env) key st of
             (Some e, st') \<Rightarrow>
               (case data e of
                  DString v \<Rightarrow> obind (store_set (e_now env) key (DString v) (Some ttl) st') (getex_final env key)
                | _ \<Rightarrow> Ret (null_bulk, st'))
           | (None, st') \<Rightarrow> Ret (null_bulk, st')))"

definition cmd_getex :: "env \<Rightarrow> bytes list \<Rightarrow> 's store \<Rightarrow> 's result" where
  "cmd_getex env args st =
     (if args = [] \<or> length args > 3 then Ret (wrong_args ''getex'', st)
      else
        let key = hd args in
        case store_get (e_now env) key st of
          (None, st1) \<Rightarrow> Ret (null_bulk, st1)
        | (Some e, st1) \<Rightarrow>
            (case data e of
               DString _ \<Rightarrow>
                 (case getex_option env key (tl args) st1 of
                    Inl r \<Rightarrow> Ret r
                  | Inr (new_ttl, st2) \<Rightarrow> getex_apply env key new_ttl st2)
             | _ \<Rightarrow> Ret (wrongtype, st1)))"

definition cmd_getdel :: "env \<Rightarrow> bytes list \<Rightarrow> 's store \<Rightarrow> 's result" where
  "cmd_getdel env args st =
     (case args of
        [key] \<Rightarrow>
          (case store_get (e_now env) key st of
             (Some e, st') \<Rightarrow>
               Ret (case data e of DString s \<Rightarrow> bull s | _ \<Rightarrow> wrongtype, snd (store_del key st'))
           | (None, st') \<Rightarrow> Ret (null_bulk, snd (store_del key st')))
      | _ \<Rightarrow> Ret (wrong_args ''getdel'', st))"

end
