(* ===== verification/Cmd_Lcs.thy ===== *)
theory Cmd_Lcs
  imports Cmd_String "HOL-Library.Sublist"
begin

text \<open>
  The LCS command of \<^verbatim>\<open>crates/commands/src/string.rs\<close>: the dynamic-programming table in one
  flat vector, the walk back through it, and the index form, with the proof that the answer is a
  longest common subsequence. The table entries are \<^verbatim>\<open>u32\<close>; they are at most the shorter length,
  which the size guard keeps far below \<open>2 ^ 32\<close>.
\<close>

subsection \<open>The table\<close>

definition lcs_cell :: "bytes \<Rightarrow> bytes \<Rightarrow> nat \<Rightarrow> nat list \<Rightarrow> nat \<Rightarrow> nat \<Rightarrow> nat" where
  "lcs_cell a b w dp ai bi =
     (if a ! (ai - 1) = b ! (bi - 1) then dp ! ((ai - 1) * w + (bi - 1)) + 1
      else max (dp ! ((ai - 1) * w + bi)) (dp ! (ai * w + (bi - 1))))"

definition lcs_row :: "bytes \<Rightarrow> bytes \<Rightarrow> nat \<Rightarrow> nat \<Rightarrow> nat list \<Rightarrow> nat list" where
  "lcs_row a b w ai dp =
     fold (\<lambda>bi dp. dp[ai * w + bi := lcs_cell a b w dp ai bi]) [1..<length b + 1] dp"

definition lcs_table :: "bytes \<Rightarrow> bytes \<Rightarrow> nat list" where
  "lcs_table a b =
     (let w = length b + 1
      in fold (lcs_row a b w) [1..<length a + 1] (replicate ((length a + 1) * w) 0))"

subsection \<open>Walking back\<close>

function lcs_back :: "bytes \<Rightarrow> bytes \<Rightarrow> nat \<Rightarrow> nat list \<Rightarrow> nat \<Rightarrow> nat \<Rightarrow> bytes \<Rightarrow> bytes" where
  "lcs_back a b w dp ai bi out =
     (if ai > 0 \<and> bi > 0 then
        (if a ! (ai - 1) = b ! (bi - 1) then lcs_back a b w dp (ai - 1) (bi - 1) (out @ [a ! (ai - 1)])
         else if dp ! ((ai - 1) * w + bi) \<ge> dp ! (ai * w + (bi - 1)) then lcs_back a b w dp (ai - 1) bi out
         else lcs_back a b w dp ai (bi - 1) out)
      else out)"
  by pat_completeness auto
termination
  by (relation "measure (\<lambda>(a, b, w, dp, ai, bi, out). ai + bi)") auto

declare lcs_back.simps [simp del]

text \<open>The length of the run of equal bytes that ends at the two positions.\<close>

fun lcs_run :: "bytes \<Rightarrow> bytes \<Rightarrow> nat \<Rightarrow> nat \<Rightarrow> nat" where
  "lcs_run a b ai bi =
     (if ai > 0 \<and> bi > 0 \<and> a ! (ai - 1) = b ! (bi - 1) then Suc (lcs_run a b (ai - 1) (bi - 1)) else 0)"

declare lcs_run.simps [simp del]

lemma lcs_run_pos:
  "a ! (ai - Suc 0) = b ! (bi - Suc 0) \<Longrightarrow> 0 < ai \<Longrightarrow> 0 < bi \<Longrightarrow> 0 < lcs_run a b ai bi"
  by (simp add: lcs_run.simps [of a b ai bi])

definition lcs_match :: "bool \<Rightarrow> nat \<Rightarrow> nat \<Rightarrow> nat \<Rightarrow> RespValue" where
  "lcs_match with_len ai bi run =
     Array (Some ([Array (Some [Integer (int (ai - run)), Integer (int (ai - 1))]),
                   Array (Some [Integer (int (bi - run)), Integer (int (bi - 1))])]
                  @ (if with_len then [Integer (int run)] else [])))"

function lcs_matches :: "bytes \<Rightarrow> bytes \<Rightarrow> nat \<Rightarrow> nat list \<Rightarrow> nat \<Rightarrow> bool \<Rightarrow> nat \<Rightarrow> nat \<Rightarrow> RespValue list" where
  "lcs_matches a b w dp min_len with_len ai bi =
     (if ai > 0 \<and> bi > 0 then
        (if a ! (ai - 1) = b ! (bi - 1) then
           (let run = lcs_run a b ai bi
            in (if run \<ge> min_len then [lcs_match with_len ai bi run] else [])
               @ lcs_matches a b w dp min_len with_len (ai - run) (bi - run))
         else if dp ! ((ai - 1) * w + bi) \<ge> dp ! (ai * w + (bi - 1))
         then lcs_matches a b w dp min_len with_len (ai - 1) bi
         else lcs_matches a b w dp min_len with_len ai (bi - 1))
      else [])"
  by pat_completeness auto
termination
  by (relation "measure (\<lambda>(a, b, w, dp, m, l, ai, bi). ai + bi)") (auto dest!: lcs_run_pos)

declare lcs_matches.simps [simp del]

subsection \<open>The command\<close>

record lcs_opts =
  lo_len :: bool
  lo_idx :: bool
  lo_with :: bool
  lo_min :: nat

fun lcs_options :: "bytes list \<Rightarrow> lcs_opts \<Rightarrow> RespValue + lcs_opts" where
  "lcs_options [] o0 = Inr o0"
| "lcs_options (a # rest) o0 =
     (case from_utf8 a of
        None \<Rightarrow> Inl syntax_error
      | Some s \<Rightarrow>
          (let opt = to_upper s in
           if opt = ascii ''LEN'' then lcs_options rest (o0\<lparr>lo_len := True\<rparr>)
           else if opt = ascii ''IDX'' then lcs_options rest (o0\<lparr>lo_idx := True\<rparr>)
           else if opt = ascii ''WITHMATCHLEN'' then lcs_options rest (o0\<lparr>lo_with := True\<rparr>)
           else if opt = ascii ''MINMATCHLEN'' then
             (case rest of
                [] \<Rightarrow> Inl syntax_error
              | v # rest' \<Rightarrow>
                  (case bytes_u64 v of
                     None \<Rightarrow> Inl not_int
                   | Some n \<Rightarrow> lcs_options rest' (o0\<lparr>lo_min := n\<rparr>)))
           else Inl syntax_error))"

definition lcs_reply :: "lcs_opts \<Rightarrow> bytes \<Rightarrow> bytes \<Rightarrow> RespValue" where
  "lcs_reply o0 a b =
     (let la = length a; lb = length b in
      if min (la * lb) u64_max > 64 * 1024 * 1024
      then Error (ascii ''ERR Insufficient memory, failed allocating transient memory for LCS'')
      else
        let w = lb + 1; dp = lcs_table a b; lcs_len = Integer (int (dp ! (la * w + lb))) in
        if lo_len o0 then lcs_len
        else if \<not> lo_idx o0 then bull (rev (lcs_back a b w dp la lb []))
        else Array (Some [bull (ascii ''matches''),
               Array (Some (lcs_matches a b w dp (lo_min o0) (lo_with o0) la lb)),
               bull (ascii ''len''), lcs_len]))"

definition lcs_fetch :: "env \<Rightarrow> bytes \<Rightarrow> 's store \<Rightarrow> bytes option \<times> 's store" where
  "lcs_fetch env key st =
     (case store_get (e_now env) key st of
        (Some e, st') \<Rightarrow> (case data e of DString s \<Rightarrow> Some s | _ \<Rightarrow> None, st')
      | (None, st') \<Rightarrow> (Some [], st'))"

definition cmd_lcs :: "env \<Rightarrow> bytes list \<Rightarrow> 's store \<Rightarrow> 's result" where
  "cmd_lcs env args st =
     (case args of
        k1 # k2 # rest \<Rightarrow>
          (case lcs_options rest \<lparr>lo_len = False, lo_idx = False, lo_with = False, lo_min = 0\<rparr> of
             Inl e \<Rightarrow> Ret (e, st)
           | Inr o0 \<Rightarrow>
               if lo_len o0 \<and> lo_idx o0
               then Ret (Error (ascii ''ERR If you want both the length and indexes, please just use IDX.''), st)
               else case lcs_fetch env k1 st of
                 (None, st1) \<Rightarrow> Ret (wrongtype, st1)
               | (Some a, st1) \<Rightarrow>
                   (case lcs_fetch env k2 st1 of
                      (None, st2) \<Rightarrow> Ret (wrongtype, st2)
                    | (Some b, st2) \<Rightarrow> Ret (lcs_reply o0 a b, st2)))
      | _ \<Rightarrow> Ret (wrong_args ''lcs'', st))"

subsection \<open>The reference\<close>

text \<open>The length of a longest common subsequence of the first \<open>i\<close> and \<open>j\<close> bytes.\<close>

fun lcs_ref :: "bytes \<Rightarrow> bytes \<Rightarrow> nat \<Rightarrow> nat \<Rightarrow> nat" where
  "lcs_ref a b 0 j = 0"
| "lcs_ref a b (Suc i) 0 = 0"
| "lcs_ref a b (Suc i) (Suc j) =
     (if a ! i = b ! j then Suc (lcs_ref a b i j) else max (lcs_ref a b i (Suc j)) (lcs_ref a b (Suc i) j))"

lemma lcs_ref_0 [simp]: "lcs_ref a b i 0 = 0"
  by (cases i) auto

lemma subseq_snoc_cases:
  assumes "subseq t (xs @ [x])"
  obtains "subseq t xs" | t' where "t = t' @ [x]" "subseq t' xs"
proof -
  obtain t1 t2 where t: "t = t1 @ t2" "subseq t1 xs" "subseq t2 [x]"
    using assms by (auto simp: subseq_append_iff)
  have "t2 = [] \<or> t2 = [x]"
    using t(3) by (cases t2) (auto split: if_splits)
  then show thesis using t that by auto
qed

lemma subseq_init: "subseq t (t @ [x])"
  by (rule prefix_imp_subseq) simp

lemma subseq_snoc: "subseq t xs \<Longrightarrow> subseq (t @ [x]) (xs @ [x])"
  by (simp add: subseq_append)

lemma lcs_ref_bound:
  assumes "i \<le> length a" "j \<le> length b" "subseq t (take i a)" "subseq t (take j b)"
  shows "length t \<le> lcs_ref a b i j"
  using assms
proof (induction a b i j arbitrary: t rule: lcs_ref.induct)
  case (3 a b i j)
  have a: "take (Suc i) a = take i a @ [a ! i]" and b: "take (Suc j) b = take j b @ [b ! j]"
    using "3.prems"(1,2) by (simp_all add: take_Suc_conv_app_nth)
  have le: "i \<le> length a" "j \<le> length b" using "3.prems"(1,2) by simp_all
  show ?case
  proof (cases "a ! i = b ! j")
    case True
    note IH = "3.IH"(1) [OF True le]
    from "3.prems"(3) [unfolded a] show ?thesis
    proof (cases rule: subseq_snoc_cases)
      case 1
      from "3.prems"(4) [unfolded b] show ?thesis
      proof (cases rule: subseq_snoc_cases)
        case 1
        then show ?thesis using IH \<open>subseq t (take i a)\<close> True by (simp add: le_SucI)
      next
        case (2 t')
        then have "subseq t' t" using subseq_init by simp
        then have "subseq t' (take i a)"
          using \<open>subseq t (take i a)\<close> by (rule subseq_order.order_trans)
        then show ?thesis using IH [of t'] 2 True by simp
      qed
    next
      case (2 t')
      from "3.prems"(4) [unfolded b] show ?thesis
      proof (cases rule: subseq_snoc_cases)
        case 1
        have "subseq t' t" using 2(1) subseq_init by simp
        then have "subseq t' (take j b)" using 1 by (rule subseq_order.order_trans)
        then show ?thesis using IH [of t'] 2 True by simp
      next
        case (2 t'')
        then show ?thesis using IH [of t'] \<open>t = t' @ [a ! i]\<close> \<open>subseq t' (take i a)\<close> True by simp
      qed
    qed
  next
    case False
    from "3.prems"(3) [unfolded a] show ?thesis
    proof (cases rule: subseq_snoc_cases)
      case 1
      then show ?thesis using "3.IH"(2) [OF False le(1) "3.prems"(2) 1 "3.prems"(4)] False by simp
    next
      case (2 t')
      have "subseq t (take j b)"
        using "3.prems"(4) [unfolded b] 2(1) False by (cases rule: subseq_snoc_cases) auto
      then show ?thesis using "3.IH"(3) [OF False "3.prems"(1) le(2) "3.prems"(3)] False by simp
    qed
  qed
qed (auto simp: list_emb_Nil2)

subsection \<open>The table is the reference\<close>

text \<open>The cells before position \<open>bi\<close> of row \<open>ai\<close>, and the first column, are final.\<close>

definition dp_ok :: "bytes \<Rightarrow> bytes \<Rightarrow> nat list \<Rightarrow> nat \<Rightarrow> nat \<Rightarrow> bool" where
  "dp_ok a b dp ai bi \<longleftrightarrow> length dp = (length a + 1) * (length b + 1)
     \<and> (\<forall>i j. i \<le> length a \<longrightarrow> j \<le> length b \<longrightarrow> i < ai \<or> i = ai \<and> j < bi \<or> j = 0
          \<longrightarrow> dp ! (i * (length b + 1) + j) = lcs_ref a b i j)"

lemma dp_okD:
  assumes "dp_ok a b dp ai bi" "i \<le> length a" "j \<le> length b" "i < ai \<or> i = ai \<and> j < bi \<or> j = 0"
  shows "dp ! (i * (length b + 1) + j) = lcs_ref a b i j"
  using assms unfolding dp_ok_def by blast

lemma flat_index: "j < w \<Longrightarrow> j' < w \<Longrightarrow> i * w + j = i' * w + j' \<longleftrightarrow> i = i' \<and> j = j'" for w :: nat
proof
  assume l: "j < w" "j' < w" and eq: "i * w + j = i' * w + j'"
  have "(i * w + j) mod w = j" "(i' * w + j') mod w = j'" using l by simp_all
  then have "j = j'" using eq by simp
  then show "i = i' \<and> j = j'" using eq l by simp
qed simp

lemma flat_bound: "i \<le> la \<Longrightarrow> j < w \<Longrightarrow> i * w + j < (la + 1) * w" for w :: nat
proof -
  assume "i \<le> la" "j < w"
  then have "i * w + j < i * w + w" by simp
  also have "\<dots> \<le> (la + 1) * w" using \<open>i \<le> la\<close> by (metis Suc_eq_plus1 add.commute mult_Suc mult_le_mono1 Suc_le_mono)
  finally show ?thesis .
qed

lemma lcs_cell_ref:
  assumes "dp_ok a b dp (Suc i) (Suc j)" "Suc i \<le> length a" "Suc j \<le> length b"
  shows "lcs_cell a b (length b + 1) dp (Suc i) (Suc j) = lcs_ref a b (Suc i) (Suc j)"
proof -
  have d: "dp ! (i * (length b + 1) + j) = lcs_ref a b i j"
    "dp ! (i * (length b + 1) + Suc j) = lcs_ref a b i (Suc j)"
    "dp ! (Suc i * (length b + 1) + j) = lcs_ref a b (Suc i) j"
    using assms(2,3) by (intro dp_okD [OF assms(1)]; simp)+
  show ?thesis unfolding lcs_cell_def diff_Suc_1 d lcs_ref.simps by simp
qed

lemma dp_ok_cell:
  assumes "dp_ok a b dp (Suc i) (Suc j)" "Suc i \<le> length a" "Suc j \<le> length b"
  shows "dp_ok a b (dp[Suc i * (length b + 1) + Suc j := lcs_cell a b (length b + 1) dp (Suc i) (Suc j)])
    (Suc i) (Suc (Suc j))"
  unfolding dp_ok_def lcs_cell_ref [OF assms]
proof (intro conjI allI impI)
  have len: "length dp = (length a + 1) * (length b + 1)" using assms(1) by (simp add: dp_ok_def)
  then show "length (dp[Suc i * (length b + 1) + Suc j := lcs_ref a b (Suc i) (Suc j)]) = (length a + 1) * (length b + 1)"
    by simp
  fix k l
  assume kl: "k \<le> length a" "l \<le> length b" "k < Suc i \<or> k = Suc i \<and> l < Suc (Suc j) \<or> l = 0"
  show "dp[Suc i * (length b + 1) + Suc j := lcs_ref a b (Suc i) (Suc j)] ! (k * (length b + 1) + l) = lcs_ref a b k l"
  proof (cases "k = Suc i \<and> l = Suc j")
    case True
    have "Suc i * (length b + 1) + Suc j < length dp"
      unfolding len using assms(2,3) by (intro flat_bound) simp_all
    then show ?thesis using True by (simp only: nth_list_update_eq)
  next
    case False
    then have "Suc i * (length b + 1) + Suc j \<noteq> k * (length b + 1) + l"
      using flat_index [of "Suc j" "length b + 1" l "Suc i" k] assms(3) kl(2) by auto
    moreover have "k < Suc i \<or> k = Suc i \<and> l < Suc j \<or> l = 0" using kl(3) False by auto
    ultimately show ?thesis using dp_okD [OF assms(1) kl(1,2)] by simp
  qed
qed

lemma dp_ok_row:
  assumes "dp_ok a b dp (Suc i) 1" "Suc i \<le> length a"
  shows "dp_ok a b (lcs_row a b (length b + 1) (Suc i) dp) (Suc (Suc i)) 1"
proof -
  let ?step = "\<lambda>bi dp. dp[Suc i * (length b + 1) + bi := lcs_cell a b (length b + 1) dp (Suc i) bi]"
  have "n \<le> length b \<Longrightarrow> dp_ok a b (fold ?step [1..<n + 1] dp) (Suc i) (Suc n)" for n
  proof (induction n)
    case 0
    then show ?case using assms(1) by simp
  next
    case (Suc n)
    then have "dp_ok a b (fold ?step [1..<n + 1] dp) (Suc i) (Suc n)" by simp
    from dp_ok_cell [OF this assms(2)] Suc.prems show ?case by simp
  qed
  from this [of "length b"] have "dp_ok a b (lcs_row a b (length b + 1) (Suc i) dp) (Suc i) (Suc (length b))"
    by (simp add: lcs_row_def)
  then show ?thesis by (auto simp: dp_ok_def less_Suc_eq_le le_Suc_eq)
qed

lemma lcs_table_ref:
  assumes "i \<le> length a" "j \<le> length b"
  shows "lcs_table a b ! (i * (length b + 1) + j) = lcs_ref a b i j"
proof -
  let ?w = "length b + 1" and ?dp = "replicate ((length a + 1) * (length b + 1)) 0"
  have "n \<le> length a \<Longrightarrow> dp_ok a b (fold (lcs_row a b ?w) [1..<n + 1] ?dp) (Suc n) 1" for n
  proof (induction n)
    case 0
    have "dp_ok a b ?dp (Suc 0) 1"
      unfolding dp_ok_def
    proof (intro conjI allI impI)
      fix k l
      assume kl: "k \<le> length a" "l \<le> length b" "k < Suc 0 \<or> k = Suc 0 \<and> l < 1 \<or> l = 0"
      have "k * ?w + l < (length a + 1) * ?w" by (rule flat_bound) (use kl in simp_all)
      moreover have "lcs_ref a b k l = 0" using kl(3) by auto
      ultimately show "?dp ! (k * ?w + l) = lcs_ref a b k l" by (simp only: nth_replicate)
    qed simp
    then show ?case by simp
  next
    case (Suc n)
    then have "dp_ok a b (fold (lcs_row a b ?w) [1..<n + 1] ?dp) (Suc n) 1" by simp
    from dp_ok_row [OF this] Suc.prems show ?case by simp
  qed
  then have "dp_ok a b (lcs_table a b) (Suc (length a)) 1"
    unfolding lcs_table_def Let_def by blast
  from dp_okD [OF this assms] assms show ?thesis by simp
qed

lemma lcs_back_Suc:
  "lcs_back a b w dp (Suc i) (Suc j) out =
     (if a ! i = b ! j then lcs_back a b w dp i j (out @ [a ! i])
      else if dp ! (i * w + Suc j) \<ge> dp ! (Suc i * w + j) then lcs_back a b w dp i (Suc j) out
      else lcs_back a b w dp (Suc i) j out)"
  by (subst lcs_back.simps) (simp only: zero_less_Suc if_True diff_Suc_1 simp_thms)

lemma lcs_back_0: "ai = 0 \<or> bi = 0 \<Longrightarrow> lcs_back a b w dp ai bi out = out"
  by (subst lcs_back.simps) auto

lemma lcs_back_spec:
  assumes "ai \<le> length a" "bi \<le> length b"
  shows "\<exists>s. lcs_back a b (length b + 1) (lcs_table a b) ai bi out = out @ rev s
    \<and> subseq s (take ai a) \<and> subseq s (take bi b) \<and> length s = lcs_ref a b ai bi"
  using assms
proof (induction "ai + bi" arbitrary: ai bi out rule: less_induct)
  case less
  show ?case
  proof (cases "ai = 0 \<or> bi = 0")
    case True
    then show ?thesis by (intro exI [of _ "[]"]) (auto simp: lcs_back_0)
  next
    case False
    then obtain i j where ij: "ai = Suc i" "bi = Suc j" by (meson not0_implies_Suc)
    have le: "i \<le> length a" "j \<le> length b" "Suc i \<le> length a" "Suc j \<le> length b"
      using less.prems ij by simp_all
    have ta: "take (Suc i) a = take i a @ [a ! i]" and tb: "take (Suc j) b = take j b @ [b ! j]"
      using le by (simp_all add: take_Suc_conv_app_nth)
    note step = lcs_back_Suc [of a b "length b + 1" "lcs_table a b" i j out,
        unfolded lcs_table_ref [OF le(1,4)] lcs_table_ref [OF le(3,2)]]
    consider (eq) "a ! i = b ! j"
      | (up) "a ! i \<noteq> b ! j" "lcs_ref a b i (Suc j) \<ge> lcs_ref a b (Suc i) j"
      | (left) "a ! i \<noteq> b ! j" "\<not> lcs_ref a b i (Suc j) \<ge> lcs_ref a b (Suc i) j" by blast
    then show ?thesis
    proof cases
      case eq
      obtain s where s: "lcs_back a b (length b + 1) (lcs_table a b) i j (out @ [a ! i]) = (out @ [a ! i]) @ rev s"
          "subseq s (take i a)" "subseq s (take j b)" "length s = lcs_ref a b i j"
        using less.hyps [of i j, OF _ le(1,2)] ij by fastforce
      show ?thesis unfolding ij step ta tb using s eq subseq_snoc
        by (intro exI [of _ "s @ [a ! i]"]) simp
    next
      case up
      obtain s where s: "lcs_back a b (length b + 1) (lcs_table a b) i (Suc j) out = out @ rev s"
          "subseq s (take i a)" "subseq s (take (Suc j) b)" "length s = lcs_ref a b i (Suc j)"
        using less.hyps [of i "Suc j", OF _ le(1,4)] ij by fastforce
      have "subseq s (take (Suc i) a)"
        unfolding ta using s(2) subseq_init by (rule subseq_order.order_trans)
      then show ?thesis unfolding ij step using s up by (intro exI [of _ s]) simp
    next
      case left
      obtain s where s: "lcs_back a b (length b + 1) (lcs_table a b) (Suc i) j out = out @ rev s"
          "subseq s (take (Suc i) a)" "subseq s (take j b)" "length s = lcs_ref a b (Suc i) j"
        using less.hyps [of "Suc i" j, OF _ le(3,2)] ij by fastforce
      have "subseq s (take (Suc j) b)"
        unfolding tb using s(3) subseq_init by (rule subseq_order.order_trans)
      then show ?thesis unfolding ij step using s left by (intro exI [of _ s]) simp
    qed
  qed
qed

subsection \<open>Properties\<close>

text \<open>
  C10. LCS answers a longest common subsequence: for two string (or missing) keys within the
  size guard the reply is a subsequence of both values, no common subsequence is longer, and
  with LEN the reply is its length.
\<close>

theorem lcs_is_longest:
  fixes st :: "'s store"
  assumes "lcs_fetch env k1 st = (Some a, st1)" "lcs_fetch env k2 st1 = (Some b, st2)"
    and "length a * length b \<le> 64 * 1024 * 1024"
  shows "\<exists>s. cmd_lcs env [k1, k2] st = Ret (bull s, st2)
    \<and> cmd_lcs env [k1, k2, ascii ''LEN''] st = Ret (Integer (int (length s)), st2)
    \<and> subseq s a \<and> subseq s b \<and> (\<forall>t. subseq t a \<and> subseq t b \<longrightarrow> length t \<le> length s)"
proof -
  obtain s where s: "lcs_back a b (length b + 1) (lcs_table a b) (length a) (length b) [] = rev s"
      "subseq s a" "subseq s b" "length s = lcs_ref a b (length a) (length b)"
    using lcs_back_spec [of "length a" a "length b" b "[]"] by auto
  have g: "\<not> min (length a * length b) u64_max > 64 * 1024 * 1024" using assms(3) by simp
  have len: "lcs_table a b ! (length a * (length b + 1) + length b) = length s"
    by (simp only: lcs_table_ref s(4) order_refl)
  have reply: "lcs_reply o0 a b = (if lo_len o0 then Integer (int (length s)) else bull s)" if "\<not> lo_idx o0" for o0
    unfolding lcs_reply_def Let_def if_not_P [OF g] len s(1) using that by simp
  have opt: "lcs_options [ascii ''LEN''] o0 = Inr (o0\<lparr>lo_len := True\<rparr>)" for o0
    by (simp add: from_utf8_def ascii_def to_upper_def upper_byte_def)
  have "cmd_lcs env [k1, k2] st = Ret (bull s, st2)"
    "cmd_lcs env [k1, k2, ascii ''LEN''] st = Ret (Integer (int (length s)), st2)"
    unfolding cmd_lcs_def list.case opt by (simp_all add: assms(1,2) reply)
  moreover have "length t \<le> length s" if "subseq t a" "subseq t b" for t
    using lcs_ref_bound [of "length a" a "length b" b t] that by (simp add: s(4))
  ultimately show ?thesis using s(2,3) by blast
qed

theorem lcs_is_longest_witness:
  "\<exists>s. cmd_lcs \<lparr>e_now = 0, e_wall = 0, e_zsz = 0, e_ssz = 0, e_pick = \<lambda>_ _. 0, e_rnd = \<lambda>_. 0\<rparr>
      [[1], [2]] (store_new\<lparr>keyspace := [([1], \<lparr>data = DString [7, 8, 9], expires_at = None, last_access = 0,
         access_count = 1, lfu_counter = 1\<rparr>), ([2], \<lparr>data = DString [8, 5, 9], expires_at = None, last_access = 0,
         access_count = 1, lfu_counter = 1\<rparr>)]\<rparr> :: nat store)
    = Ret (bull s, store_new\<lparr>keyspace := [([1], \<lparr>data = DString [7, 8, 9], expires_at = None, last_access = 0,
         access_count = 1, lfu_counter = 1\<rparr>), ([2], \<lparr>data = DString [8, 5, 9], expires_at = None, last_access = 0,
         access_count = 1, lfu_counter = 1\<rparr>)]\<rparr>)
    \<and> subseq s [7, 8, 9] \<and> subseq s [8, 5, 9] \<and> 2 \<le> length s"
proof -
  let ?env = "\<lparr>e_now = 0, e_wall = 0, e_zsz = 0, e_ssz = 0, e_pick = \<lambda>_ _. 0, e_rnd = \<lambda>_. 0\<rparr> :: env"
  let ?st = "store_new\<lparr>keyspace := [([1], \<lparr>data = DString [7, 8, 9], expires_at = None, last_access = 0,
      access_count = 1, lfu_counter = 1\<rparr>), ([2], \<lparr>data = DString [8, 5, 9], expires_at = None, last_access = 0,
      access_count = 1, lfu_counter = 1\<rparr>)]\<rparr> :: nat store"
  have "lcs_fetch ?env [1] ?st = (Some [7, 8, 9], ?st)" "lcs_fetch ?env [2] ?st = (Some [8, 5, 9], ?st)"
    by (simp_all add: lcs_fetch_def store_get_def is_expired_def)
  from lcs_is_longest [OF this] obtain s where s: "cmd_lcs ?env [[1], [2]] ?st = Ret (bull s, ?st)"
      "subseq s [7, 8, 9]" "subseq s [8, 5, 9]"
      "\<forall>t. subseq t [7, 8, 9 :: byte] \<and> subseq t [8, 5, 9] \<longrightarrow> length t \<le> length s"
    by auto
  from s(4) [rule_format, of "[8, 9]"] have "2 \<le> length s" by simp
  then show ?thesis using s(1-3) by blast
qed

end
