(* ===== verification/String_Props.thy ===== *)
theory String_Props
  imports Cmd_Lcs
begin

text \<open>
  The dispatcher of the string commands, and what the commands do to a store: the types of the
  values, counters, ranges, and the paths that lose data or time to live, block or panic.
\<close>

subsection \<open>The dispatcher\<close>

definition string_handle :: "env \<Rightarrow> bytes list \<Rightarrow> 's store \<Rightarrow> 's result" where
  "string_handle env args st =
     (case args of
        [] \<Rightarrow> Ret (Error (ascii ''ERR wrong number of arguments''), st)
      | name # rest \<Rightarrow>
          (case from_utf8 name of
             None \<Rightarrow> Ret (Error (ascii ''ERR invalid command name''), st)
           | Some s \<Rightarrow>
               (let cmd = to_upper s in
                if cmd = ascii ''GET'' then cmd_get env rest st
                else if cmd = ascii ''SET'' then cmd_set env rest st
                else if cmd = ascii ''DEL'' then cmd_del rest st
                else if cmd = ascii ''GETSET'' then cmd_getset env rest st
                else if cmd = ascii ''MGET'' then cmd_mget env rest st
                else if cmd = ascii ''MSET'' then cmd_mset env rest st
                else if cmd = ascii ''MSETNX'' then cmd_msetnx env rest st
                else if cmd = ascii ''INCR'' then cmd_incr env rest st
                else if cmd = ascii ''DECR'' then cmd_decr env rest st
                else if cmd = ascii ''INCRBY'' then cmd_incrby env rest st
                else if cmd = ascii ''DECRBY'' then cmd_decrby env rest st
                else if cmd = ascii ''INCRBYFLOAT'' then cmd_incrbyfloat env rest st
                else if cmd = ascii ''APPEND'' then cmd_append env rest st
                else if cmd = ascii ''STRLEN'' then cmd_strlen env rest st
                else if cmd = ascii ''GETRANGE'' then cmd_getrange env rest st
                else if cmd = ascii ''SETRANGE'' then cmd_setrange env rest st
                else if cmd = ascii ''SETNX'' then cmd_setnx env rest st
                else if cmd = ascii ''SETEX'' then cmd_setex env rest st
                else if cmd = ascii ''PSETEX'' then cmd_psetex env rest st
                else if cmd = ascii ''GETEX'' then cmd_getex env rest st
                else if cmd = ascii ''GETDEL'' then cmd_getdel env rest st
                else if cmd = ascii ''LCS'' then cmd_lcs env rest st
                else Ret (Error (ascii ''ERR unknown command `'' @ cmd @ [96]), st))))"

subsection \<open>Types\<close>

text \<open>
  A step of the store in which every value is untouched, removed, or replaced by a string, and
  which keeps the store well-formed.
\<close>

definition string_step :: "'s store \<Rightarrow> 's store \<Rightarrow> bool" where
  "string_step st st' \<longleftrightarrow> (store_wf st \<longrightarrow> store_wf st')
     \<and> (\<forall>k e'. kmap st' k = Some e' \<longrightarrow>
          (\<exists>s. data e' = DString s) \<or> (\<exists>e. kmap st k = Some e \<and> data e' = data e))"

definition string_result :: "'s store \<Rightarrow> 's result \<Rightarrow> bool" where
  "string_result st r \<longleftrightarrow> (case r of Ret (v, st') \<Rightarrow> string_step st st' | _ \<Rightarrow> True)"

lemma string_result_simps [simp]:
  "string_result st (Ret (v, st')) \<longleftrightarrow> string_step st st'"
  "string_result st Panic" "string_result st Deadlock"
  by (simp_all add: string_result_def)

lemma string_step_refl [simp]: "string_step st st"
  by (simp add: string_step_def)

lemma string_step_trans:
  assumes "string_step a b" "string_step b c"
  shows "string_step a c"
  using assms unfolding string_step_def by metis

lemma string_step_drop [simp]: "string_step st (store_drop k st)"
  by (auto simp: string_step_def store_wf_drop split: if_splits)

lemma string_step_keyspace: "keyspace st' = keyspace st \<Longrightarrow> string_step st st'"
  by (auto simp: string_step_def intro: store_wf_cong)

lemma string_step_put:
  assumes "keyspace st' = dict_put k e (keyspace st)" "data e = DString s"
  shows "string_step st st'"
  using assms store_wf_upd [of st e st' k] by (auto simp: string_step_def dict_simps)

lemma string_step_write [simp]: "string_step st (write_data k e (DString s) st)"
  by (rule string_step_put [of _ k "e\<lparr>data := DString s\<rparr>"]) (simp_all add: write_data_def)

lemma string_step_get [simp]: "string_step st (snd (store_get now k st))"
  by (simp add: store_get_def split: option.split)

lemma string_step_exists [simp]: "string_step st (snd (store_exists now k st))"
  by (simp add: store_exists_def split: option.split)

lemma string_step_del [simp]: "string_step st (snd (store_del k st))"
proof -
  have "string_step st (store_drop k (notify_watchers k st))"
    by (rule string_step_trans [OF string_step_keyspace string_step_drop]) simp
  moreover have "string_step (store_drop k (notify_watchers k st)) (bump_dirty (store_drop k (notify_watchers k st)))"
    by (rule string_step_keyspace) simp
  ultimately show ?thesis by (auto simp: store_del_def Let_def intro: string_step_trans)
qed

lemma string_step_set:
  assumes "store_set now k (DString s) ttl st = Ret st'"
  shows "string_step st st'"
proof -
  obtain e where "entry_new now (DString s) ttl = Ret e" "keyspace st' = dict_put k e (keyspace st)"
    using assms by (auto simp: store_set_def Let_def obind_Ret_iff)
  then show ?thesis by (intro string_step_put [of st' k e st s]) (simp_all add: entry_new_data)
qed

lemma string_step_evict [simp]: "string_step st (snd (env_evict env st))"
proof -
  have "string_step st (store_drop k st\<lparr>evicted_keys := n\<rparr>)" for k n
    by (rule string_step_trans [OF string_step_drop string_step_keyspace]) simp
  then show ?thesis by (simp add: env_evict_def maybe_evict_def Let_def split: option.split prod.split)
qed

text \<open>Composition: a command that reads the store and continues with what the read leaves.\<close>

lemma string_result_set:
  assumes "string_step st0 st" "\<And>st'. string_step st0 st' \<Longrightarrow> string_result st0 (f st')"
  shows "string_result st0 (obind (store_set now k (DString s) ttl st) f)"
proof (cases "store_set now k (DString s) ttl st")
  case (Ret st')
  then show ?thesis using assms string_step_set string_step_trans by simp blast
qed simp_all

lemma string_result_insert:
  assumes "\<And>st'. string_step st st' \<Longrightarrow> string_result st (f st')"
  shows "string_result st (obind (insert_fresh now k (DString s) st) f)"
proof -
  have "string_step st (st\<lparr>keyspace := dict_put k \<lparr>data = DString s, expires_at = None,
      last_access = now, access_count = 1, lfu_counter = 1\<rparr> (keyspace st)\<rparr>)"
    by (rule string_step_put [OF _ entry.select_convs(1)]) simp
  then show ?thesis using assms by simp
qed

lemma string_result_get:
  assumes "\<And>e st'. string_step st0 st' \<Longrightarrow> string_result st0 (f (e, st'))" "string_step st0 st"
  shows "string_result st0 (f (store_get now k st))"
proof -
  obtain e st' where g: "store_get now k st = (e, st')" by (cases "store_get now k st")
  have "string_step st0 st'" using string_step_trans [OF assms(2) string_step_get [of st now k]] g by simp
  then show ?thesis using assms(1) g by simp
qed

lemma string_result_case_get:
  assumes "string_step st0 st"
    and "\<And>e. string_result st0 (f e st)" and "\<And>st'. string_step st0 st' \<Longrightarrow> string_result st0 (g st')"
  shows "string_result st0 (case store_get now k st of (Some e, st') \<Rightarrow> f e st' | (None, st') \<Rightarrow> g st')"
proof (cases "store_get now k st")
  case (Pair e st')
  have "string_step st0 st'" using string_step_trans [OF assms(1) string_step_get [of st now k]] Pair by simp
  moreover have "e \<noteq> None \<Longrightarrow> st' = st" using Pair by (auto simp: store_get_Some)
  ultimately show ?thesis using assms(2,3) by (cases e) (simp_all add: Pair)
qed

lemma string_get: "string_result st (cmd_get env args st)"
  unfolding cmd_get_def
  by (auto split: list.split intro!: string_result_case_get)

lemma string_strlen: "string_result st (cmd_strlen env args st)"
  unfolding cmd_strlen_def by (auto split: list.split intro!: string_result_case_get)

lemma string_getrange: "string_result st (cmd_getrange env args st)"
  unfolding cmd_getrange_def by (auto split: list.split option.split intro!: string_result_case_get)

lemma string_getdel: "string_result st (cmd_getdel env args st)"
  unfolding cmd_getdel_def
  by (auto split: list.split intro!: string_result_case_get string_step_trans [OF _ string_step_del])

lemma string_getset: "string_result st (cmd_getset env args st)"
  unfolding cmd_getset_def Let_def
  by (auto split: list.split DataType.split intro!: string_result_case_get string_result_set)

lemma string_incrby_internal: "string_result st (cmd_incrby_internal env key i st)"
  unfolding cmd_incrby_internal_def Let_def
  by (auto split: option.split DataType.split intro!: string_result_insert simp del: insert_fresh_Ret)

lemma string_counters:
  "string_result st (cmd_incr env args st)" "string_result st (cmd_decr env args st)"
  "string_result st (cmd_incrby env args st)" "string_result st (cmd_decrby env args st)"
  by (simp_all add: cmd_incr_def cmd_decr_def cmd_incrby_def cmd_decrby_def string_incrby_internal
      split: list.split option.split)

lemma string_incrbyfloat: "string_result st (cmd_incrbyfloat env args st)"
  unfolding cmd_incrbyfloat_def Let_def
  by (auto split: list.split option.split DataType.split intro!: string_result_insert simp del: insert_fresh_Ret)

lemma string_append: "string_result st (cmd_append env args st)"
  unfolding cmd_append_def
  by (auto split: list.split option.split DataType.split intro!: string_result_insert simp del: insert_fresh_Ret)

lemma string_setrange: "string_result st (cmd_setrange env args st)"
  unfolding cmd_setrange_def Let_def copy_into_def
  by (auto split: list.split option.split DataType.split intro!: string_result_insert simp del: insert_fresh_Ret)

lemma string_setex:
  "string_result st (cmd_setex env args st)" "string_result st (cmd_psetex env args st)"
  unfolding cmd_setex_def cmd_psetex_def
  by (auto split: list.split option.split intro!: string_result_set)

lemma string_lcs: "string_result st (cmd_lcs env args st)"
proof -
  have f: "string_step st0 st'" if "string_step st0 st" "lcs_fetch env k st = (x, st')"
    for st0 st st' :: "'s store" and k x
  proof -
    have "st' = snd (store_get (e_now env) k st)"
      using that(2) by (auto simp: lcs_fetch_def split: prod.splits option.splits)
    then show ?thesis using string_step_trans [OF that(1) string_step_get] by simp
  qed
  show ?thesis
    unfolding cmd_lcs_def
    by (auto split: list.split sum.split prod.split option.split intro: f [OF f [OF string_step_refl]] f [OF string_step_refl])
qed

lemma string_step_del_keys [simp]: "string_step st (snd (del_keys ks n st))"
proof (induction ks arbitrary: n st)
  case (Cons k ks)
  show ?case
    using string_step_trans [OF string_step_del Cons.IH] by (simp add: split_beta)
qed simp

lemma string_step_mget_loop [simp]: "string_step st (snd (mget_loop env ks st))"
proof (induction ks arbitrary: st)
  case (Cons k ks)
  show ?case
    using string_step_trans [OF string_step_get Cons.IH] by (simp add: split_beta Let_def)
qed simp

lemma string_step_any_exists [simp]: "string_step st (snd (any_exists env ks st))"
proof (induction ks arbitrary: st)
  case (Cons k ks)
  show ?case
    using string_step_trans [OF string_step_exists Cons.IH] by (simp add: split_beta Let_def)
qed simp

lemma string_mset_loop:
  "string_step st0 st \<Longrightarrow> mset_loop env kvs st = Ret st' \<Longrightarrow> string_step st0 st'"
proof (induction env kvs st rule: mset_loop.induct)
  case (2 env k v r st)
  then obtain st1 where st1: "store_set (e_now env) k (DString v) None st = Ret st1" "mset_loop env r st1 = Ret st'"
    by (auto simp: obind_Ret_iff)
  show ?case by (rule "2.IH" [OF _ st1(2)]) (use "2.prems"(1) string_step_set [OF st1(1)] string_step_trans in blast)
qed simp

lemma string_mset_result:
  assumes "string_step st0 st" "\<And>st'. string_step st0 st' \<Longrightarrow> string_result st0 (f st')"
  shows "string_result st0 (obind (mset_loop env kvs st) f)"
proof (cases "mset_loop env kvs st")
  case (Ret st')
  then show ?thesis using string_mset_loop [OF assms(1) Ret] assms(2) by simp
qed simp_all

lemma string_many:
  "string_result st (cmd_del args st)" "string_result st (cmd_mget env args st)"
  "string_result st (cmd_mset env args st)" "string_result st (cmd_msetnx env args st)"
  by (simp_all add: cmd_del_def cmd_mget_def cmd_mset_def cmd_msetnx_def Let_def split_beta string_mset_result)

lemma string_setnx: "string_result st (cmd_setnx env args st)"
  by (simp add: cmd_setnx_def Let_def split_beta string_result_set split: list.split)

lemma set_options_store:
  "set_options env key args so st = Inl (r, st') \<Longrightarrow> st' = st \<or> st' = snd (store_del key st)"
proof (induction "length args" arbitrary: args so rule: less_induct)
  case less
  then have IH: "length ys < length args \<Longrightarrow> set_options env key ys so' st = Inl (r, st') \<Longrightarrow>
      st' = st \<or> st' = snd (store_del key st)" for ys so' by blast
  show ?case
  proof (cases args)
    case (Cons a rest)
    note IH = IH [unfolded Cons]
    from less.prems [unfolded Cons set_options.simps Let_def] show ?thesis
      by (auto split: option.splits if_splits list.splits dest: IH [rotated])
  qed (use less.prems in simp)
qed

lemma string_set_with: "string_result st (set_with env key value so st)"
proof -
  obtain b st1 where ex: "store_exists (e_now env) key st = (b, st1)" by fastforce
  have 1: "string_step st st1" using string_step_exists [of st "e_now env" key] ex by simp
  define old where "old = (if so_get so then
      (case store_get (e_now env) key st1 of
         (Some e, st2) \<Rightarrow> (case data e of DString s \<Rightarrow> Some s | _ \<Rightarrow> None, st2)
       | (None, st2) \<Rightarrow> (None, st2))
     else (None, st1))"
  have "snd old = (if so_get so then snd (store_get (e_now env) key st1) else st1)"
    by (simp add: old_def split: prod.split option.split)
  then have 2: "string_step st (snd old)"
    using 1 string_step_trans [OF 1 string_step_get [of st1 "e_now env" key]] by simp
  have 3: "string_step st (snd (env_evict env (snd old)))"
    using 2 string_step_evict by (rule string_step_trans)
  obtain ov st2 where o: "old = (ov, st2)" by fastforce
  have rest: "string_result st (case env_evict env st2 of
      (Inl err, st3) \<Rightarrow> Ret (Error err, st3)
    | (Inr x, st3) \<Rightarrow> obind (store_set (e_now env) key (DString value) ttl st3) (\<lambda>st4. Ret (v, st4)))" for ttl v
    using 3 o by (auto split: prod.split sum.split intro!: string_result_set)
  have nx: "string_result st (case store_get (e_now env) key st1 of
      (Some e, st2) \<Rightarrow> Ret (case data e of DString s \<Rightarrow> bull s | _ \<Rightarrow> wrongtype, st2)
    | (None, st2) \<Rightarrow> Ret (null_bulk, st2))"
    using 1 by (auto intro!: string_result_case_get)
  show ?thesis
    unfolding set_with_def ex prod.case Let_def old_def [symmetric] o
    using 1 nx rest by simp
qed

lemma string_set: "string_result st (cmd_set env args st)"
proof -
  have "set_options env key rest opts0 st = Inl (r, st') \<Longrightarrow> string_step st st'" for key rest r st'
    using set_options_store [of env key rest opts0 st r st'] by auto
  then show ?thesis
    by (auto simp: cmd_set_def string_set_with split: list.split sum.split)
qed

lemma string_step_persist: "kmap st k = Some e \<Longrightarrow>
    string_step st (st\<lparr>keyspace := dict_put k (e\<lparr>expires_at := x\<rparr>) (keyspace st)\<rparr>)"
  by (auto simp: string_step_def dict_simps intro!: store_wf_put dest: store_wf_data)

lemma getex_option_step:
  "getex_option env key args st = Inl (r, st') \<Longrightarrow> string_step st st'"
  "getex_option env key args st = Inr (t, st') \<Longrightarrow> string_step st st'"
  by (auto simp: getex_option_def Let_def string_step_persist split: list.splits option.splits if_splits)

lemma string_getex_final: "string_step st0 st \<Longrightarrow> string_result st0 (getex_final env key st)"
  unfolding getex_final_def by (rule string_result_case_get) (auto split: DataType.split)

lemma string_getex_apply:
  assumes "string_step st0 st"
  shows "string_result st0 (getex_apply env key t st)"
proof (cases t)
  case None
  then show ?thesis using string_getex_final [OF assms] by (simp add: getex_apply_def)
next
  case (Some ttl)
  have "string_result st0 (case store_get (e_now env) key st of
      (Some e, st') \<Rightarrow>
        (case data e of
           DString v \<Rightarrow> obind (store_set (e_now env) key (DString v) (Some ttl) st') (getex_final env key)
         | _ \<Rightarrow> Ret (null_bulk, st'))
    | (None, st') \<Rightarrow> Ret (null_bulk, st'))"
    using assms by (rule string_result_case_get)
      (auto split: DataType.split intro!: string_result_set string_getex_final simp: assms)
  then show ?thesis by (simp add: getex_apply_def Some)
qed

lemma string_getex: "string_result st (cmd_getex env args st)"
proof -
  have "string_result st (case getex_option env key as st of
       Inl r \<Rightarrow> Ret r | Inr (t, st2) \<Rightarrow> getex_apply env key t st2)" for key as
    by (auto split: sum.split intro: getex_option_step string_getex_apply)
  then show ?thesis
    unfolding cmd_getex_def Let_def
    by (auto intro!: string_result_case_get split: DataType.split)
qed

lemma string_handle_result: "string_result st (string_handle env args st)"
  unfolding string_handle_def Let_def
  by (simp add: string_get string_set string_getset string_many string_counters string_incrbyfloat
      string_append string_strlen string_getrange string_setrange string_setnx string_setex string_getex
      string_getdel string_lcs split: list.split option.split)



text \<open>
  C26. INCRBY on a key that holds a decimal number adds modulo \<open>2 ^ 64\<close> in the range of \<^verbatim>\<open>i64\<close>: the
  sum when it fits, and the wrapped value otherwise (the successor of the largest value is the
  smallest one). The entry keeps its expiry, also when it has expired already; watchers of the
  key are not notified and the change is not counted.
\<close>

theorem incrby_semantics:
  assumes "kmap st key = Some e" "data e = DString s" "bytes_i64 s = Some c" "i64_ok i"
  shows "\<exists>v st'. cmd_incrby env [key, show_int i] st = Ret (Integer v, st')
    \<and> i64_ok v \<and> (\<exists>m. v = c + i + m * 2 ^ 64) \<and> (i64_ok (c + i) \<longrightarrow> v = c + i)
    \<and> (c = i64_max \<and> i = 1 \<longrightarrow> v = i64_min)
    \<and> kmap st' = (kmap st)(key \<mapsto> e\<lparr>data := DString (show_int v)\<rparr>)
    \<and> sent st' = sent st \<and> watchers st' = watchers st \<and> dirty_count st' = dirty_count st"
proof -
  let ?v = "wrap_i64 (c + i)"
  let ?st = "write_data key e (DString (show_int ?v)) st"
  have "cmd_incrby env [key, show_int i] st = Ret (Integer ?v, ?st)"
    using assms by (simp add: cmd_incrby_def bytes_i64_show_int cmd_incrby_internal_def Let_def)
  moreover have "\<exists>m. ?v = c + i + m * 2 ^ 64"
    by (rule exI [of _ "- ((c + i + 2 ^ 63) div 2 ^ 64)"])
      (simp add: wrap_i64_def minus_div_mult_eq_mod [symmetric])
  moreover have "c = i64_max \<and> i = 1 \<longrightarrow> ?v = i64_min"
    by (simp add: wrap_i64_def i64_max_def i64_min_def)
  ultimately show ?thesis
    by (intro exI [of _ ?v] exI [of _ ?st]) (simp add: wrap_i64_ok wrap_i64_id write_data_def dict_simps)
qed

theorem incrby_semantics_witness:
  "\<exists>v st'. cmd_incrby env0 [[1], show_int 1]
      (store_new\<lparr>keyspace := [([1], fresh_entry (DString (show_int i64_max)))]\<rparr> :: nat store) = Ret (Integer v, st')
    \<and> v = i64_min"
proof -
  have "i64_ok i64_max" "i64_ok 1" by (simp_all add: i64_ok_def i64_max_def i64_min_def)
  then show ?thesis
    using incrby_semantics [where st = "store_new\<lparr>keyspace := [([1], fresh_entry (DString (show_int i64_max)))]\<rparr> :: nat store"
        and key = "[1]" and i = 1 and env = env0, OF _ entry.select_convs(1) bytes_i64_show_int]
    by fastforce
qed

lemma get_range_middle:
  assumes "value \<noteq> []" "b = p @ value @ r"
  shows "get_range (int (length p)) (int (length p + length value) - 1) b = value"
proof -
  have n: "1 \<le> int (length value)" using assms(1) by (cases "value") simp_all
  let ?e = "int (length p + length value) - 1" and ?l = "int (length b)"
  have i: "normalize_index (int (length p)) ?l = int (length p)" "normalize_index ?e ?l = ?e"
    using n by (simp_all add: normalize_index_def)
  have c: "?l \<noteq> 0" "\<not> (int (length p) > ?e \<or> int (length p) \<ge> ?l)" "min ?e (?l - 1) = ?e" "nat (?e + 1) = length p + length value"
    using n assms(2) by auto
  show ?thesis
    unfolding get_range_def Let_def i c(3,4) if_not_P [OF c(1)] if_not_P [OF c(2)] by (simp add: assms(2))
qed

text \<open>
  C27. SETRANGE and GETRANGE fit together: writing a non-empty value at an offset within the size
  limit keeps the bytes before it (with zero bytes up to the offset), sets the length to the
  larger of the old length and the end of the write, and GETRANGE over the written positions
  answers the value. An offset so large that its sum with the length wraps around passes the
  size check and makes SETRANGE panic.
\<close>

theorem setrange_getrange:
  fixes st :: "'s store"
  assumes "kmap st key = Some e" "data e = DString s" "\<not> is_expired (e_now env) e" "piece \<noteq> []"
    and "offset + length piece \<le> 512 * 1024 * 1024"
    and "2 ^ 64 \<le> huge + length piece" "huge < 2 ^ 64" "length piece \<le> 512 * 1024 * 1024"
  shows "\<exists>b st'. cmd_setrange env [key, show_nat offset, piece] st = Ret (Integer (int (length b)), st')
      \<and> length b = max (offset + length piece) (length s)
      \<and> take offset b = take offset (s @ replicate offset 0)
      \<and> drop (offset + length piece) b = drop (offset + length piece) s
      \<and> kmap st' = (kmap st)(key \<mapsto> e\<lparr>data := DString b\<rparr>)
      \<and> cmd_getrange env [key, show_int (int offset), show_int (int (offset + length piece) - 1)] st' = Ret (bull piece, st')
    \<and> cmd_setrange env [key, show_nat huge, piece] st = Panic"
proof -
  let ?fin = "offset + length piece" and ?buf = "s @ replicate (max (offset + length piece) (length s) - length s) 0"
  let ?b = "take offset ?buf @ piece @ drop ?fin ?buf"
  let ?st = "write_data key e (DString ?b) st"
  note u = bytes_u64_show_nat
  have w: "wrap_u64 ?fin = ?fin" using assms(5) by (simp add: wrap_u64_def)
  have len: "length ?b = max ?fin (length s)" by simp
  have "cmd_setrange env [key, show_nat offset, piece] st = Ret (Integer (int (length ?b)), ?st)"
    using assms(1,2,5) u [of offset] unfolding cmd_setrange_def
    by (simp add: w Let_def copy_into_def)
  moreover have "take offset ?b = take offset (s @ replicate offset 0)"
    by (simp add: take_replicate min_def)
  moreover have "drop ?fin ?b = drop ?fin s" by simp
  moreover have "kmap ?st = (kmap st)(key \<mapsto> e\<lparr>data := DString ?b\<rparr>)"
    by (simp add: write_data_def dict_simps)
  moreover have "cmd_getrange env [key, show_int (int offset), show_int (int ?fin - 1)] ?st = Ret (bull piece, ?st)"
  proof -
    have p: "length (take offset ?buf) = offset" by simp
    have "get_range (int offset) (int ?fin - 1) ?b = piece"
      using get_range_middle [OF assms(4), of ?b "take offset ?buf" "drop ?fin ?buf"] unfolding p by simp
    moreover have "bytes_i64 (show_int (int offset)) = Some (int offset)"
      "bytes_i64 (show_int (int ?fin - 1)) = Some (int ?fin - 1)"
      using assms(5) by (intro bytes_i64_show_int; simp add: i64_ok_def i64_min_def i64_max_def)+
    moreover have "store_get (e_now env) key ?st = (Some (e\<lparr>data := DString ?b\<rparr>), ?st)"
      using assms(3) by (simp add: store_get_def write_data_def dict_simps is_expired_def)
    ultimately show ?thesis by (simp add: cmd_getrange_def)
  qed
  moreover have "cmd_setrange env [key, show_nat huge, piece] st = Panic"
  proof -
    have wr: "wrap_u64 (huge + length piece) = huge + length piece - 2 ^ 64"
      unfolding wrap_u64_def using assms(6-8) by (subst mod_if) (simp add: le_mod_geq)
    have "\<not> huge \<le> huge + length piece - 2 ^ 64" using assms(4,6,7,8) by simp
    then have "copy_into buf huge (huge + length piece - 2 ^ 64) piece = Panic" for buf
      by (simp add: copy_into_def)
    then show ?thesis
      using assms(1,2,6-8) u [of huge] unfolding cmd_setrange_def list.case
      by (simp add: wr Let_def)
  qed
  ultimately show ?thesis using len by blast
qed

theorem setrange_getrange_witness:
  "\<exists>(b :: bytes) st'. cmd_setrange env0 [[1], show_nat 1, [67]]
      (store_new\<lparr>keyspace := [([1], fresh_entry (DString [65, 66]))]\<rparr> :: nat store) = Ret (Integer (int (length b)), st')
    \<and> length b = 2
    \<and> cmd_setrange env0 [[1], show_nat (2 ^ 64 - 1), [67]]
      (store_new\<lparr>keyspace := [([1], fresh_entry (DString [65, 66]))]\<rparr> :: nat store) = Panic"
proof -
  let ?st = "store_new\<lparr>keyspace := [([1], fresh_entry (DString [65, 66]))]\<rparr> :: nat store"
  have k: "kmap ?st [1] = Some (fresh_entry (DString [65, 66]))"
    "\<not> is_expired (e_now env0) (fresh_entry (DString [65, 66]) :: nat entry)"
    by (simp_all add: is_expired_def)
  have n: "[67 :: byte] \<noteq> []" "1 + length [67 :: byte] \<le> 512 * 1024 * 1024"
    "2 ^ 64 \<le> (2 ^ 64 - 1) + length [67 :: byte]" "(2 :: nat) ^ 64 - 1 < 2 ^ 64"
    "length [67 :: byte] \<le> 512 * 1024 * 1024" "max (1 + length [67 :: byte]) (length [65 :: byte, 66]) = 2"
    by simp_all
  show ?thesis
    using setrange_getrange [where env = env0, OF k(1) entry.select_convs(1) k(2) n(1-5)]
    unfolding n(6) by blast
qed

text \<open>
  Paths of the string commands on a live key that do not do what their replies say. GETSET on
  a value of another type blocks for ever, since it writes the key while it holds a reference
  into the map. GETDEL answers the type error and deletes the key. SET with KEEPTTL removes the time
  to live. SETEX with a duration past the range of the clock panics.
\<close>

theorem string_commands_damage:
  assumes "kmap st key = Some e" "\<not> is_expired (e_now env) e" "maxmemory (evict_config st) = 0"
    and "\<forall>s. data e \<noteq> DString s" "n < 2 ^ 64" "instant_max < e_now env + secs n"
  shows "cmd_getset env [key, v] st = Deadlock
    \<and> (\<exists>st'. cmd_getdel env [key] st = Ret (wrongtype, st') \<and> kmap st' key = None)
    \<and> (\<exists>st' e'. cmd_set env [key, v, ascii ''KEEPTTL''] st = Ret (ok, st')
          \<and> kmap st' key = Some e' \<and> data e' = DString v \<and> expires_at e' = None)
    \<and> cmd_setex env [key, show_nat n, v] st = Panic"
proof -
  have g: "store_get (e_now env) key st = (Some e, st)" "store_exists (e_now env) key st = (True, st)"
    using assms(1,2) by (simp_all add: store_get_def store_exists_def)
  have "cmd_getset env [key, v] st = Deadlock"
    using g assms(4) by (simp add: cmd_getset_def Let_def split: DataType.split)
  moreover have "cmd_getdel env [key] st = Ret (wrongtype, snd (store_del key st))"
    using g assms(4) by (simp add: cmd_getdel_def split: DataType.split)
  moreover have "kmap (snd (store_del key st)) key = None"
    by (simp add: store_del_def Let_def)
  moreover have "\<exists>st' e'. cmd_set env [key, v, ascii ''KEEPTTL''] st = Ret (ok, st')
          \<and> kmap st' key = Some e' \<and> data e' = DString v \<and> expires_at e' = None"
  proof -
    have "set_options env key [ascii ''KEEPTTL''] opts0 st = Inr opts0"
      by (simp add: from_utf8_def ascii_def to_upper_def upper_byte_def opts0_def)
    then show ?thesis
      using g assms(3) by (simp add: cmd_set_def set_with_def opts0_def env_evict_def maybe_evict_def Let_def
          store_set_def entry_new_def dict_simps)
  qed
  moreover have "cmd_setex env [key, show_nat n, v] st = Panic"
    using assms(6) bytes_u64_show_nat [OF assms(5)]
    by (simp add: cmd_setex_def store_set_def entry_new_def instant_add_def)
  ultimately show ?thesis by blast
qed

theorem string_commands_damage_witness:
  "cmd_getset env0 [[1], [2]] (store_new\<lparr>keyspace := [([1], fresh_entry (DList []))]\<rparr> :: nat store) = Deadlock
    \<and> cmd_setex env0 [[1], show_nat (2 ^ 63), [2]] (store_new\<lparr>keyspace := [([1], fresh_entry (DList []))]\<rparr> :: nat store) = Panic"
proof -
  let ?e = "fresh_entry (DList []) :: nat entry"
  let ?st = "store_new\<lparr>keyspace := [([1], ?e)]\<rparr>"
  have k: "kmap ?st [1] = Some ?e" "\<not> is_expired (e_now env0) ?e" "maxmemory (evict_config ?st) = 0" "\<forall>s. data ?e \<noteq> DString s"
    by (simp_all add: is_expired_def store_new_def default_eviction_def)
  have n: "(2 :: nat) ^ 63 < 2 ^ 64" "instant_max < e_now env0 + secs (2 ^ 63)"
    by (simp_all add: instant_max_def secs_def)
  show ?thesis using string_commands_damage [OF k n] by blast
qed

end
