(* ===== verification/Rdb.thy ===== *)
theory Rdb
  imports Cmd_Base
begin

text \<open>
  Snapshots, \<^verbatim>\<open>crates/persistence/src/rdb.rs\<close>: the length and string codes, saving a store to the
  bytes of a file and loading a file into a store. The CRC-64 of the \<^verbatim>\<open>crc\<close> crate is a parameter,
  as are the eight bytes of a score (\<^verbatim>\<open>OrderedFloat\<close> is third-party, see the value types) and
  the reading of them. Saving and loading read the clocks as one snapshot each.
\<close>

datatype RdbError =
    RdbIo
  | InvalidMagic
  | CrcMismatch
  | UnknownType byte
  | UnexpectedEof
  | RdbStore bytes

subsection \<open>Results\<close>

text \<open>The operator \<^verbatim>\<open>?\<close> on \<^verbatim>\<open>Result\<close>.\<close>

fun rbind :: "'e + 'a \<Rightarrow> ('a \<Rightarrow> 'e + 'b) \<Rightarrow> 'e + 'b" where
  "rbind (Inl e) f = Inl e"
| "rbind (Inr x) f = f x"

text \<open>A loop \<^verbatim>\<open>for _ in 0..n\<close> whose body moves the position and may leave with an error.\<close>

fun for_n :: "nat \<Rightarrow> ('a \<Rightarrow> nat \<Rightarrow> 'e + ('a \<times> nat)) \<Rightarrow> 'a \<Rightarrow> nat \<Rightarrow> 'e + ('a \<times> nat)" where
  "for_n 0 f a pos = Inr (a, pos)"
| "for_n (Suc n) f a pos = rbind (f a pos) (\<lambda>(a', pos'). for_n n f a' pos')"

subsection \<open>Lengths and strings\<close>

definition RDB_MAGIC :: bytes where "RDB_MAGIC = ascii ''REDIS0010''"

definition encode_length :: "nat \<Rightarrow> bytes" where
  "encode_length len =
     (if len < 2 ^ 6 then [word_of_nat len]
      else if len < 2 ^ 14 then [0x40 OR word_of_nat (len div 2 ^ 8), word_of_nat (len mod 256)]
      else 0x80 # le_bytes 4 (int len))"

text \<open>A bounds check, a copy of \<open>n\<close> bytes and the move past them.\<close>

definition take_bytes :: "nat \<Rightarrow> bytes \<Rightarrow> nat \<Rightarrow> RdbError + (bytes \<times> nat)" where
  "take_bytes n input pos =
     (if pos + n > length input then Inl UnexpectedEof else Inr (take n (drop pos input), pos + n))"

definition take_le :: "nat \<Rightarrow> bytes \<Rightarrow> nat \<Rightarrow> RdbError + (nat \<times> nat)" where
  "take_le n input pos = rbind (take_bytes n input pos) (\<lambda>(b, p). Inr (nat (le_uint b), p))"

definition decode_length :: "bytes \<Rightarrow> nat \<Rightarrow> RdbError + (nat \<times> nat)" where
  "decode_length input pos =
     (if pos \<ge> length input then Inl UnexpectedEof
      else
        let first = input ! pos; p = pos + 1; top = drop_bit 6 first in
        if top = 0 then Inr (unat first, p)
        else if top = 1 then
          (if p \<ge> length input then Inl UnexpectedEof
           else Inr (push_bit 8 (unat (first AND 0x3F)) OR unat (input ! p), p + 1))
        else if top = 2 then
          (if first = 0x80 then take_le 4 input p else Inl InvalidMagic)
        else
          let low = first AND 0x3F in
          if low = 0 then
            (if p \<ge> length input then Inl UnexpectedEof else Inr (unat (input ! p), p + 1))
          else if low = 1 then take_le 2 input p
          else if low = 2 then take_le 4 input p
          else Inl InvalidMagic)"

definition rdb_encode_string :: "bytes \<Rightarrow> bytes" where
  "rdb_encode_string d = encode_length (length d) @ d"

definition rdb_decode_string :: "bytes \<Rightarrow> nat \<Rightarrow> RdbError + (bytes \<times> nat)" where
  "rdb_decode_string input pos = rbind (decode_length input pos) (\<lambda>(len, p). take_bytes len input p)"

subsection \<open>Saving\<close>

fun type_byte :: "'s DataType \<Rightarrow> byte" where
  "type_byte (DString _) = 0"
| "type_byte (DList _) = 1"
| "type_byte (DListPack _) = 1"
| "type_byte (DSet _) = 2"
| "type_byte (DIntSet _) = 2"
| "type_byte (DZSet _) = 3"
| "type_byte (DHash _) = 4"
| "type_byte (DStream _) = 19"

definition save_strings :: "bytes list \<Rightarrow> bytes" where
  "save_strings xs = concat (map rdb_encode_string xs)"

definition save_pairs :: "(bytes \<times> bytes) list \<Rightarrow> bytes" where
  "save_pairs kvs = concat (map (\<lambda>(f, v). rdb_encode_string f @ rdb_encode_string v) kvs)"

definition save_id :: "StreamId \<Rightarrow> bytes" where
  "save_id i = le_bytes 8 (int (sid_ms i)) @ le_bytes 8 (int (sid_seq i))"

text \<open>A \<^verbatim>\<open>BTreeMap\<close> is iterated in the order of its keys.\<close>

definition save_stream :: "StreamData \<Rightarrow> bytes" where
  "save_stream s =
     (let total_entries = sum_list (map (length \<circ> snd) (st_entries s))
      in encode_length (length (st_entries s)) @ encode_length total_entries
         @ concat (map (\<lambda>(i, flds). save_id i @ encode_length (length flds) @ save_pairs flds)
             (sort_key fst (st_entries s)))
         @ save_id (st_last_id s))"

fun save_value :: "('s \<Rightarrow> bytes) \<Rightarrow> 's DataType \<Rightarrow> bytes outcome" where
  "save_value sle (DString s) = Ret (rdb_encode_string s)"
| "save_value sle (DList l) = Ret (encode_length (length l) @ save_strings l)"
| "save_value sle (DSet s) = Ret (encode_length (length s) @ save_strings s)"
| "save_value sle (DZSet z) =
     Ret (encode_length (zset_len z)
          @ concat (map (\<lambda>(m, sc). rdb_encode_string m @ sle sc) (members z)))"
| "save_value sle (DHash h) = Ret (encode_length (length h) @ save_pairs h)"
| "save_value sle (DStream s) = Ret (save_stream s)"
| "save_value sle (DListPack lp) =
     obind (lp_entries lp) (\<lambda>es.
       Ret (encode_length (lp_count lp) @ save_strings (map entry_to_bytes es)))"
| "save_value sle (DIntSet s) =
     Ret (encode_length (is_length s) @ save_strings (map show_int (intset_to_vec s)))"

text \<open>The deadline in milliseconds of the wall clock; a past deadline becomes the present.\<close>

definition save_deadline :: "env \<Rightarrow> instant \<Rightarrow> nat" where
  "save_deadline env at =
     wrap_u64 (e_wall env + wrap_u64 ((at - e_now env) div 10 ^ 6))"

definition save_entry :: "env \<Rightarrow> ('s \<Rightarrow> bytes) \<Rightarrow> bytes \<Rightarrow> 's entry \<Rightarrow> bytes outcome" where
  "save_entry env sle key e =
     obind (save_value sle (data e)) (\<lambda>v.
       Ret ((case expires_at e of
               None \<Rightarrow> []
             | Some at \<Rightarrow> 0xFC # le_bytes 8 (int (save_deadline env at)))
            @ [type_byte (data e)] @ rdb_encode_string key @ v))"

fun save_entries :: "env \<Rightarrow> ('s \<Rightarrow> bytes) \<Rightarrow> (bytes, 's entry) dict \<Rightarrow> bytes outcome" where
  "save_entries env sle [] = Ret []"
| "save_entries env sle ((k, e) # r) =
     obind (save_entry env sle k e) (\<lambda>b. obind (save_entries env sle r) (\<lambda>bs. Ret (b @ bs)))"

text \<open>The file written by \<^verbatim>\<open>save\<close>; \<open>write_file\<close> answers the contents of the file, or an I/O error.\<close>

definition rdb_save ::
  "(bytes \<Rightarrow> bytes option) \<Rightarrow> (bytes \<Rightarrow> 64 word) \<Rightarrow> env \<Rightarrow> ('s \<Rightarrow> bytes) \<Rightarrow> 's store \<Rightarrow> (RdbError + bytes) outcome" where
  "rdb_save write_file crc64 env sle st =
     obind (save_entries env sle (keyspace st)) (\<lambda>items.
       let buf = RDB_MAGIC @ items @ [0xFF] in
       Ret (case write_file (buf @ le_bytes 8 (uint (crc64 buf))) of
              None \<Rightarrow> Inl RdbIo
            | Some file \<Rightarrow> Inr file))"

subsection \<open>Loading\<close>

definition decode_pair :: "bytes \<Rightarrow> nat \<Rightarrow> RdbError + ((bytes \<times> bytes) \<times> nat)" where
  "decode_pair input pos =
     rbind (rdb_decode_string input pos) (\<lambda>(f, p).
       rbind (rdb_decode_string input p) (\<lambda>(v, p'). Inr ((f, v), p')))"

definition decode_id :: "bytes \<Rightarrow> nat \<Rightarrow> RdbError + (StreamId \<times> nat)" where
  "decode_id input pos =
     (if pos + 16 > length input then Inl UnexpectedEof
      else rbind (take_le 8 input pos) (\<lambda>(ms, p).
             rbind (take_le 8 input p) (\<lambda>(sq, p'). Inr (StreamId ms sq, p'))))"

text \<open>The score of a member enters the score index without looking for an earlier score.\<close>

definition decode_member :: "(bytes \<Rightarrow> 's) \<Rightarrow> bytes \<Rightarrow> 's ZSetData \<Rightarrow> nat \<Rightarrow> RdbError + ('s ZSetData \<times> nat)" where
  "decode_member sread input z pos =
     rbind (rdb_decode_string input pos) (\<lambda>(m, p).
       rbind (take_bytes 8 input p) (\<lambda>(b, p').
         let score = sread b; bucket = unwrap_or [] (dict_get (scores z) score) in
         Inr (z\<lparr>members := dict_put m score (members z),
                scores := dict_put score (fst (hset_insert m bucket)) (scores z)\<rparr>, p')))"

definition decode_stream_entry ::
  "bytes \<Rightarrow> (StreamId, (bytes \<times> bytes) list) dict \<Rightarrow> nat \<Rightarrow> RdbError + ((StreamId, (bytes \<times> bytes) list) dict \<times> nat)" where
  "decode_stream_entry input es pos =
     rbind (decode_id input pos) (\<lambda>(i, p).
       rbind (decode_length input p) (\<lambda>(num_fields, p1).
         rbind (for_n num_fields (\<lambda>fs q. rbind (decode_pair input q) (\<lambda>(fv, q'). Inr (fs @ [fv], q'))) [] p1)
           (\<lambda>(flds, p2). Inr (dict_put i flds es, p2))))"

definition decode_stream :: "bytes \<Rightarrow> nat \<Rightarrow> RdbError + (StreamData \<times> nat)" where
  "decode_stream input pos =
     rbind (decode_length input pos) (\<lambda>(num_ids, p1).
       rbind (decode_length input p1) (\<lambda>(_, p2).
         rbind (for_n num_ids (decode_stream_entry input) [] p2) (\<lambda>(es, p3).
           rbind (decode_id input p3) (\<lambda>(last_id, p4).
             Inr (\<lparr>st_entries = es, st_groups = [], st_last_id = last_id, st_deleted_ids = []\<rparr>, p4)))))"

definition decode_value :: "(bytes \<Rightarrow> 's) \<Rightarrow> byte \<Rightarrow> bytes \<Rightarrow> nat \<Rightarrow> RdbError + ('s DataType \<times> nat)" where
  "decode_value sread t input pos =
     (if t = 0 then rbind (rdb_decode_string input pos) (\<lambda>(s, p). Inr (DString s, p))
      else if t = 1 then
        rbind (decode_length input pos) (\<lambda>(len, p1).
          rbind (for_n len (\<lambda>l q. rbind (rdb_decode_string input q) (\<lambda>(x, q'). Inr (l @ [x], q'))) [] p1)
            (\<lambda>(l, p2). Inr (DList l, p2)))
      else if t = 2 then
        rbind (decode_length input pos) (\<lambda>(len, p1).
          rbind (for_n len (\<lambda>s q. rbind (rdb_decode_string input q) (\<lambda>(x, q'). Inr (fst (hset_insert x s), q'))) [] p1)
            (\<lambda>(s, p2). Inr (DSet s, p2)))
      else if t = 3 then
        rbind (decode_length input pos) (\<lambda>(len, p1).
          rbind (for_n len (decode_member sread input) zset_new p1) (\<lambda>(z, p2). Inr (DZSet z, p2)))
      else if t = 4 then
        rbind (decode_length input pos) (\<lambda>(len, p1).
          rbind (for_n len (\<lambda>h q. rbind (decode_pair input q) (\<lambda>(fv, q'). Inr (dict_put (fst fv) (snd fv) h, q'))) [] p1)
            (\<lambda>(h, p2). Inr (DHash h, p2)))
      else if t = 19 then rbind (decode_stream input pos) (\<lambda>(s, p). Inr (DStream s, p))
      else Inl (UnknownType t))"

text \<open>The expiry opcodes: the deadline on the monotonic clock and the type byte that follows.\<close>

definition load_header :: "env \<Rightarrow> bytes \<Rightarrow> nat \<Rightarrow> (RdbError + ((instant option \<times> byte) \<times> nat)) outcome" where
  "load_header env buf pos =
     (let t = buf ! pos;
          deadline = (\<lambda>d. case d of
              None \<Rightarrow> Ret None
            | Some d' \<Rightarrow> obind (instant_add (e_now env) d') (\<lambda>at. Ret (Some at)));
          read_type = (\<lambda>at p. if p \<ge> length buf then Inl UnexpectedEof else Inr ((at, buf ! p), p + 1))
      in if t = 0xFC then
           (case take_le 8 buf (pos + 1) of
              Inl err \<Rightarrow> Ret (Inl err)
            | Inr (expire_ms, p) \<Rightarrow>
                obind (deadline (if expire_ms > e_wall env then Some (millis (expire_ms - e_wall env)) else None))
                  (\<lambda>at. Ret (read_type at p)))
         else if t = 0xFD then
           (case take_le 4 buf (pos + 1) of
              Inl err \<Rightarrow> Ret (Inl err)
            | Inr (expire_sec, p) \<Rightarrow>
                (let now_sec = e_wall env div 1000 in
                 obind (deadline (if expire_sec > now_sec then Some (secs (expire_sec - now_sec)) else None))
                   (\<lambda>at. Ret (read_type at p))))
         else Ret (Inr ((None, t), pos + 1)))"

definition load_entry ::
  "env \<Rightarrow> (bytes \<Rightarrow> 's) \<Rightarrow> bytes \<Rightarrow> nat \<Rightarrow> (RdbError + ((bytes \<times> 's entry) \<times> nat)) outcome" where
  "load_entry env sread buf pos =
     obind (load_header env buf pos) (\<lambda>h.
       case h of
         Inl err \<Rightarrow> Ret (Inl err)
       | Inr ((at, t), p) \<Rightarrow>
           (case rbind (rdb_decode_string buf p) (\<lambda>(key, p1).
                   rbind (decode_value sread t buf p1) (\<lambda>(d, p2). Inr ((key, d), p2))) of
              Inl err \<Rightarrow> Ret (Inl err)
            | Inr ((key, d), p2) \<Rightarrow>
                (let ttl = (case at of
                       None \<Rightarrow> None
                     | Some a \<Rightarrow> if a \<ge> e_now env then Some (a - e_now env) else None)
                 in obind (entry_new (e_now env) d ttl) (\<lambda>e. Ret (Inr ((key, e), p2))))))"

text \<open>
  The loop over the entries. It inserts each entry before it reads the next one; an error leaves
  the entries inserted so far.
\<close>

partial_function (option) load_loop ::
  "env \<Rightarrow> (bytes \<Rightarrow> 's) \<Rightarrow> bytes \<Rightarrow> nat \<Rightarrow> 's store \<Rightarrow> ((RdbError + nat) \<times> 's store) outcome option" where
  "load_loop env sread buf pos st =
     (if pos \<ge> length buf then Some (Ret (Inl UnexpectedEof, st))
      else if buf ! pos = 0xFF then Some (Ret (Inr (pos + 1), st))
      else case load_entry env sread buf pos of
             Panic \<Rightarrow> Some Panic
           | Deadlock \<Rightarrow> Some Deadlock
           | Ret (Inl err) \<Rightarrow> Some (Ret (Inl err, st))
           | Ret (Inr ((key, e), p)) \<Rightarrow>
               load_loop env sread buf p (st\<lparr>keyspace := dict_put key e (keyspace st)\<rparr>))"

declare load_loop.simps [code]

text \<open>\<^verbatim>\<open>load\<close> of a file with the given contents, or of one that cannot be read.\<close>

definition rdb_load ::
  "(bytes \<Rightarrow> 64 word) \<Rightarrow> env \<Rightarrow> (bytes \<Rightarrow> 's) \<Rightarrow> bytes option \<Rightarrow> 's store \<Rightarrow> ((RdbError + unit) \<times> 's store) outcome option" where
  "rdb_load crc64 env sread file st =
     (case file of
        None \<Rightarrow> Some (Ret (Inl RdbIo, st))
      | Some buf \<Rightarrow>
          if length buf < 9 \<or> take 9 buf \<noteq> RDB_MAGIC then Some (Ret (Inl InvalidMagic, st))
          else map_option (\<lambda>r. obind r (\<lambda>(res, st').
                 case res of
                   Inl err \<Rightarrow> Ret (Inl err, st')
                 | Inr _ \<Rightarrow>
                     if length buf < 8 then Ret (Inl UnexpectedEof, st')
                     else
                       let data_end = length buf - 8 in
                       Ret (if le_uint (drop data_end buf) = uint (crc64 (take data_end buf))
                            then Inr () else Inl CrcMismatch, st')))
               (load_loop env sread buf 9 st))"

subsection \<open>Reading back\<close>

text \<open>
  A decoder reads an encoding back: at the encoding, whatever surrounds it, it answers the value
  and moves to its end.
\<close>

definition reads :: "(bytes \<Rightarrow> nat \<Rightarrow> 'e + ('a \<times> nat)) \<Rightarrow> bytes \<Rightarrow> 'a \<Rightarrow> bool" where
  "reads f b x \<longleftrightarrow> (\<forall>pre post. f (pre @ b @ post) (length pre) = Inr (x, length pre + length b))"

lemma readsI: "(\<And>pre post. f (pre @ b @ post) (length pre) = Inr (x, length pre + length b)) \<Longrightarrow> reads f b x"
  by (simp add: reads_def)

lemma readsD: "reads f b x \<Longrightarrow> f (pre @ b @ post) (length pre) = Inr (x, length pre + length b)"
  by (simp add: reads_def)

lemma reads_bind:
  assumes "reads f b x" "reads (g x) c y"
  shows "reads (\<lambda>i p. rbind (f i p) (\<lambda>(x, p'). g x i p')) (b @ c) y"
proof (rule readsI)
  fix pre post
  show "rbind (f (pre @ (b @ c) @ post) (length pre)) (\<lambda>(x, p'). g x (pre @ (b @ c) @ post) p')
      = Inr (y, length pre + length (b @ c))"
    using readsD [OF assms(1), of pre "c @ post"] readsD [OF assms(2), of "pre @ b" post]
    by (simp add: add.assoc)
qed

lemma reads_map:
  "reads f b x \<Longrightarrow> reads (\<lambda>i p. rbind (f i p) (\<lambda>(x, p'). Inr (h x, p'))) b (h x)"
  by (simp add: reads_def)

text \<open>A loop over the encodings of a list of items.\<close>

lemma reads_for:
  assumes "\<And>x a. x \<in> set xs \<Longrightarrow> reads (\<lambda>i p. step i a p) (enc x) (upd x a)"
  shows "reads (\<lambda>i. for_n (length xs) (step i) a) (concat (map enc xs)) (fold upd xs a)"
  using assms
proof (induction xs arbitrary: a)
  case Nil
  then show ?case by (simp add: reads_def)
next
  case (Cons x xs)
  have "reads (\<lambda>i. for_n (length xs) (step i) (upd x a)) (concat (map enc xs)) (fold upd xs (upd x a))"
    by (rule Cons.IH) (simp add: Cons.prems)
  then have "reads (\<lambda>i p. rbind (step i a p) (\<lambda>(a', p'). for_n (length xs) (step i) a' p'))
      (enc x @ concat (map enc xs)) (fold upd xs (upd x a))"
    by (rule reads_bind [of "\<lambda>i p. step i a p" _ _ "\<lambda>a' i p'. for_n (length xs) (step i) a' p'", rotated])
      (simp add: Cons.prems)
  then show ?case by (simp add: reads_def)
qed

lemma reads_take_bytes: "length b = n \<Longrightarrow> reads (take_bytes n) b b"
  by (simp add: reads_def take_bytes_def)

lemma reads_take_le: "n < 256 ^ k \<Longrightarrow> reads (take_le k) (le_bytes k (int n)) n"
  unfolding take_le_def
  by (rule readsI) (simp add: readsD [OF reads_take_bytes] le_uint_le_bytes nat_mod_as_int)

subsection \<open>Lengths and strings\<close>

lemma nat_or_disjoint:
  assumes "(b :: nat) < 256"
  shows "push_bit 8 a OR b = 256 * a + b"
proof -
  have b: "take_bit 8 b = b" using assms by (simp add: take_bit_nat_eq_self)
  have "push_bit 8 a AND take_bit 8 b = 0"
    by (rule bit_eqI) (auto simp: bit_and_iff bit_push_bit_iff bit_take_bit_iff)
  then have "push_bit 8 a AND b = 0" by (simp only: b)
  then show ?thesis using disjunctive_add_eq_or [of "push_bit 8 a" b] by (simp add: push_bit_nat_def)
qed

lemma uint_small: "n < 256 \<Longrightarrow> uint (word_of_nat n :: byte) = int n"
  by (simp add: uint_nat unat_of_nat)

lemma uint_hdr_len:
  assumes "n < 64"
  shows "uint ((0x40 :: byte) OR word_of_nat n) = 64 + int n"
proof -
  have "(word_of_nat n :: byte) AND 0x3F = word_of_nat n"
    using assms by (intro word_uint_eqI) (simp add: uint_and_mask uint_small)
  then show ?thesis using uint_hdr14 [of "word_of_nat n"] assms by (simp add: uint_small)
qed

lemma reads_length:
  assumes "n < 2 ^ 32"
  shows "reads decode_length (encode_length n) n"
proof -
  consider "n < 64" | "64 \<le> n" "n < 2 ^ 14" | "2 ^ 14 \<le> n" by force
  then show ?thesis
  proof cases
    case 1
    then have "unat (word_of_nat n :: byte) = n" by (simp add: unat_of_nat)
    moreover have "drop_bit 6 (word_of_nat n :: byte) = 0"
      using 1 by (simp add: top2_eq uint_small)
    ultimately show ?thesis
      using 1 by (simp add: reads_def decode_length_def encode_length_def nth_append)
  next
    case 2
    define f :: byte where "f = 0x40 OR word_of_nat (n div 256)"
    have u: "uint f = 64 + int (n div 256)" unfolding f_def using 2 by (intro uint_hdr_len) simp
    then have t: "drop_bit 6 f = 1" unfolding top2_eq using 2 by simp
    have "uint (f AND 0x3F) = int (n div 256)" using u 2 by (simp add: uint_and_mask)
    then have m: "unat (f AND 0x3F) = n div 256" by (simp add: unat_eq_nat_uint)
    have l: "unat (word_of_nat (n mod 256) :: byte) = n mod 256" by (simp add: unat_of_nat)
    have e: "encode_length n = [f, word_of_nat (n mod 256)]" using 2 by (simp add: encode_length_def f_def)
    show ?thesis
    proof (rule readsI, unfold e)
      fix pre post
      show "decode_length (pre @ [f, word_of_nat (n mod 256)] @ post) (length pre) =
          Inr (n, length pre + length [f, word_of_nat (n mod 256)])"
        unfolding decode_length_def
        by (simp add: nth_append t m l nat_or_disjoint)
    qed
  next
    case 3
    have t: "drop_bit 6 (0x80 :: byte) = 2" by simp
    have e: "encode_length n = 0x80 # le_bytes 4 (int n)" using 3 by (simp add: encode_length_def)
    have "n < 256 ^ 4" using assms by simp
    note r = readsD [OF reads_take_le [OF this]]
    show ?thesis
    proof (rule readsI, unfold e)
      fix pre post
      have "decode_length (pre @ (0x80 # le_bytes 4 (int n)) @ post) (length pre)
          = take_le 4 (pre @ (0x80 # le_bytes 4 (int n)) @ post) (length pre + 1)"
        by (simp add: decode_length_def nth_append t)
      also have "\<dots> = Inr (n, length pre + length (0x80 # le_bytes 4 (int n)))"
        using r [of "pre @ [0x80]" post] by simp
      finally show "decode_length (pre @ (0x80 # le_bytes 4 (int n)) @ post) (length pre)
          = Inr (n, length pre + length (0x80 # le_bytes 4 (int n)))" .
    qed
  qed
qed

lemma reads_string: "length s < 2 ^ 32 \<Longrightarrow> reads rdb_decode_string (rdb_encode_string s) s"
  unfolding rdb_decode_string_def rdb_encode_string_def
  by (rule reads_bind [of decode_length _ "length s" take_bytes]) (simp_all add: reads_length reads_take_bytes)

subsection \<open>Values\<close>

text \<open>What a value means to a client, whatever its encoding. Consumer groups are not part of it.\<close>

datatype 's client_value =
    VString bytes
  | VList "bytes list"
  | VHash "bytes \<Rightarrow> bytes option"
  | VSet "bytes set"
  | VZSet "bytes \<Rightarrow> 's option"
  | VStream "StreamId \<Rightarrow> (bytes \<times> bytes) list option" StreamId

fun value_of :: "'s DataType \<Rightarrow> 's client_value" where
  "value_of (DString s) = VString s"
| "value_of (DList l) = VList l"
| "value_of (DListPack lp) = VList (case lp_entries lp of Ret es \<Rightarrow> map entry_to_bytes es | _ \<Rightarrow> [])"
| "value_of (DHash h) = VHash (map_of h)"
| "value_of (DSet s) = VSet (set s)"
| "value_of (DIntSet s) = VSet (show_int ` set (intset_to_vec s))"
| "value_of (DZSet z) = VZSet (map_of (members z))"
| "value_of (DStream s) = VStream (map_of (st_entries s)) (st_last_id s)"

text \<open>Lengths that the four-byte length code holds, and identifiers that are \<^verbatim>\<open>u64\<close>.\<close>

definition strings_fit :: "bytes list \<Rightarrow> bool" where
  "strings_fit xs \<longleftrightarrow> length xs < 2 ^ 32 \<and> (\<forall>x \<in> set xs. length x < 2 ^ 32)"

definition pairs_fit :: "(bytes \<times> bytes) list \<Rightarrow> bool" where
  "pairs_fit kvs \<longleftrightarrow> strings_fit (map fst kvs) \<and> strings_fit (map snd kvs)"

definition id_fits :: "StreamId \<Rightarrow> bool" where
  "id_fits i \<longleftrightarrow> sid_ms i < 2 ^ 64 \<and> sid_seq i < 2 ^ 64"

fun rdb_fits :: "'s DataType \<Rightarrow> bool" where
  "rdb_fits (DString s) = (length s < 2 ^ 32)"
| "rdb_fits (DList l) = strings_fit l"
| "rdb_fits (DListPack lp) = (\<forall>es. lp_entries lp = Ret es \<longrightarrow> strings_fit (map entry_to_bytes es))"
| "rdb_fits (DHash h) = pairs_fit h"
| "rdb_fits (DSet s) = strings_fit s"
| "rdb_fits (DIntSet s) = strings_fit (map show_int (intset_to_vec s))"
| "rdb_fits (DZSet z) = strings_fit (map fst (members z))"
| "rdb_fits (DStream s) = (length (st_entries s) < 2 ^ 32
     \<and> sum_list (map (length \<circ> snd) (st_entries s)) < 2 ^ 32
     \<and> (\<forall>(i, flds) \<in> set (st_entries s). id_fits i \<and> pairs_fit flds) \<and> id_fits (st_last_id s))"

lemma fold_snoc: "fold (\<lambda>x l. l @ [x]) xs acc = acc @ xs"
  by (induction xs arbitrary: acc) auto

lemma reads_strings:
  assumes "strings_fit xs" "length xs = n"
  shows "reads (\<lambda>i p. rbind (decode_length i p) (\<lambda>(len, p1).
       rbind (for_n len (\<lambda>a q. rbind (rdb_decode_string i q) (\<lambda>(x, q'). Inr (add x a, q'))) a p1)
         (\<lambda>(l, p2). Inr (h l, p2))))
     (encode_length n @ save_strings xs) (h (fold add xs a))"
proof -
  have "reads (\<lambda>i. for_n (length xs) (\<lambda>a q. rbind (rdb_decode_string i q) (\<lambda>(x, q'). Inr (add x a, q'))) a)
      (save_strings xs) (fold add xs a)"
    unfolding save_strings_def
  proof (rule reads_for)
    fix x a assume "x \<in> set xs"
    then have "length x < 2 ^ 32" using assms(1) by (simp add: strings_fit_def)
    then show "reads (\<lambda>i q. rbind (rdb_decode_string i q) (\<lambda>(x, q'). Inr (add x a, q'))) (rdb_encode_string x) (add x a)"
      by (intro reads_map [of rdb_decode_string _ x "\<lambda>x. add x a"] reads_string)
  qed
  from reads_map [OF this, of h] show ?thesis
    using assms by (intro reads_bind [of decode_length _ n "\<lambda>len i p1.
       rbind (for_n len (\<lambda>a q. rbind (rdb_decode_string i q) (\<lambda>(x, q'). Inr (add x a, q'))) a p1)
         (\<lambda>(l, p2). Inr (h l, p2))"] reads_length) (auto simp: strings_fit_def)
qed

lemma reads_pair:
  "length f < 2 ^ 32 \<Longrightarrow> length v < 2 ^ 32 \<Longrightarrow>
    reads decode_pair (rdb_encode_string f @ rdb_encode_string v) (f, v)"
  unfolding decode_pair_def
  by (rule reads_bind [of rdb_decode_string _ f "\<lambda>f i p. rbind (rdb_decode_string i p) (\<lambda>(v, p'). Inr ((f, v), p'))"])
    (auto intro!: reads_string reads_map [of rdb_decode_string _ v "\<lambda>v. (f, v)"])

lemma reads_pairs:
  assumes "pairs_fit kvs"
  shows "reads (\<lambda>i. for_n (length kvs) (\<lambda>a q. rbind (decode_pair i q) (\<lambda>(fv, q'). Inr (add fv a, q'))) a)
     (save_pairs kvs) (fold add kvs a)"
  unfolding save_pairs_def
proof (rule reads_for)
  fix x a assume x: "x \<in> set kvs"
  obtain f v where fv: "x = (f, v)" by fastforce
  have "length f < 2 ^ 32" "length v < 2 ^ 32"
    using assms x fv by (force simp: pairs_fit_def strings_fit_def)+
  then show "reads (\<lambda>i q. rbind (decode_pair i q) (\<lambda>(fv, q'). Inr (add fv a, q')))
      (case x of (f, v) \<Rightarrow> rdb_encode_string f @ rdb_encode_string v) (add x a)"
    using reads_map [OF reads_pair, of f v "\<lambda>x. add x a"] fv by simp
qed

lemma reads_id: "id_fits i \<Longrightarrow> reads decode_id (save_id i) i"
proof (rule readsI)
  fix pre post assume "id_fits i"
  then have r: "reads (take_le 8) (le_bytes 8 (int (sid_ms i))) (sid_ms i)"
    "reads (take_le 8) (le_bytes 8 (int (sid_seq i))) (sid_seq i)"
    by (auto intro!: reads_take_le simp: id_fits_def)
  show "decode_id (pre @ save_id i @ post) (length pre) = Inr (i, length pre + length (save_id i))"
    using readsD [OF r(1), of pre "le_bytes 8 (int (sid_seq i)) @ post"]
      readsD [OF r(2), of "pre @ le_bytes 8 (int (sid_ms i))" post]
    by (simp add: decode_id_def save_id_def)
qed

text \<open>A member that is new to the sorted set is added with its score.\<close>

lemma zset_add_fresh:
  "dict_get (members z) m = None \<Longrightarrow> zset_add m s z = z\<lparr>members := dict_put m s (members z),
     scores := dict_put s (fst (hset_insert m (unwrap_or [] (dict_get (scores z) s)))) (scores z)\<rparr>"
  by (simp add: zset_add_def Let_def)

lemma reads_members:
  assumes "strings_fit (map fst ms)" "distinct (map fst ms)" "\<forall>m \<in> fst ` set ms. dict_get (members z) m = None"
    and "\<And>s. length (sle s) = 8" "\<And>s. sread (sle s) = s"
  shows "reads (\<lambda>i. for_n (length ms) (decode_member sread i) z)
     (concat (map (\<lambda>(m, s). rdb_encode_string m @ sle s) ms)) (fold (\<lambda>(m, s). zset_add m s) ms z)"
  using assms(1-3)
proof (induction ms arbitrary: z)
  case Nil
  then show ?case by (simp add: reads_def)
next
  case (Cons x ms)
  obtain m s where x: "x = (m, s)" by fastforce
  have z: "dict_get (members z) m = None" using Cons.prems(3) x by simp
  have l: "length m < 2 ^ 32" using Cons.prems(1) x by (simp add: strings_fit_def)
  have one: "reads (\<lambda>i p. decode_member sread i z p) (rdb_encode_string m @ sle s) (zset_add m s z)"
    unfolding decode_member_def zset_add_fresh [OF z]
    by (rule reads_bind [of rdb_decode_string _ m "\<lambda>m i p. rbind (take_bytes 8 i p) (\<lambda>(b, p').
         let score = sread b; bucket = unwrap_or [] (dict_get (scores z) score) in
         Inr (z\<lparr>members := dict_put m score (members z),
                scores := dict_put score (fst (hset_insert m bucket)) (scores z)\<rparr>, p'))"])
      (use l reads_take_bytes [of "sle s" 8] assms(4,5) in \<open>auto simp: reads_def Let_def intro: reads_string [unfolded reads_def, rule_format]\<close>)
  have rest: "reads (\<lambda>i. for_n (length ms) (decode_member sread i) (zset_add m s z))
     (concat (map (\<lambda>(m, s). rdb_encode_string m @ sle s) ms)) (fold (\<lambda>(m, s). zset_add m s) ms (zset_add m s z))"
    using Cons.prems x by (intro Cons.IH) (auto simp: strings_fit_def zset_add_members dict_simps)
  show ?case
    using reads_bind [OF one, of "\<lambda>z i p. for_n (length ms) (decode_member sread i) z p", OF rest]
    by (simp add: x reads_def)
qed

lemma zset_fold_add:
  assumes "zset_inv z"
  shows "zset_inv (fold (\<lambda>(m, s). zset_add m s) ms z)
    \<and> members (fold (\<lambda>(m, s). zset_add m s) ms z) = fold (\<lambda>(m, s). dict_put m s) ms (members z)"
  using assms
proof (induction ms arbitrary: z)
  case Nil
  then show ?case by simp
next
  case (Cons x ms)
  obtain m s where x: "x = (m, s)" by fastforce
  show ?case using Cons.IH [OF zset_add_inv [OF Cons.prems, of m s]] by (simp add: x zset_add_members)
qed

lemma map_of_fold_put:
  "dict_wf kvs \<Longrightarrow> map_of (fold (\<lambda>(k, v). dict_put k v) kvs []) = map_of kvs"
  by (simp add: hashmap.get_fold_put map_of_rev_distinct)

lemma reads_stream_entry:
  assumes "id_fits i" "pairs_fit flds"
  shows "reads (\<lambda>inp p. decode_stream_entry inp es p) (save_id i @ encode_length (length flds) @ save_pairs flds)
     (dict_put i flds es)"
proof -
  have l: "length flds < 2 ^ 32" using assms(2) by (simp add: pairs_fit_def strings_fit_def)
  note loop = reads_map [OF reads_pairs [OF assms(2), of "\<lambda>fv fs. fs @ [fv]" "[]"], of "\<lambda>flds. dict_put i flds es"]
  have "reads (\<lambda>inp p. rbind (decode_length inp p) (\<lambda>(n, p1).
      rbind (for_n n (\<lambda>fs q. rbind (decode_pair inp q) (\<lambda>(fv, q'). Inr (fs @ [fv], q'))) [] p1)
        (\<lambda>(flds, p2). Inr (dict_put i flds es, p2)))) (encode_length (length flds) @ save_pairs flds) (dict_put i flds es)"
    by (rule reads_bind [of decode_length _ "length flds" "\<lambda>n inp p1.
      rbind (for_n n (\<lambda>fs q. rbind (decode_pair inp q) (\<lambda>(fv, q'). Inr (fs @ [fv], q'))) [] p1)
        (\<lambda>(flds, p2). Inr (dict_put i flds es, p2))"])
      (use l loop in \<open>simp_all add: reads_length fold_snoc\<close>)
  then show ?thesis
    unfolding decode_stream_entry_def
    by (rule reads_bind [of decode_id _ i "\<lambda>i inp p. rbind (decode_length inp p) (\<lambda>(n, p1).
      rbind (for_n n (\<lambda>fs q. rbind (decode_pair inp q) (\<lambda>(fv, q'). Inr (fs @ [fv], q'))) [] p1)
        (\<lambda>(flds, p2). Inr (dict_put i flds es, p2)))", rotated]) (rule reads_id [OF assms(1)])
qed

lemma reads_stream:
  assumes "rdb_fits (DStream s)"
  shows "reads decode_stream (save_stream s)
     \<lparr>st_entries = fold (\<lambda>(i, flds). dict_put i flds) (sort_key fst (st_entries s)) [], st_groups = [],
      st_last_id = st_last_id s, st_deleted_ids = []\<rparr>"
proof -
  let ?es = "sort_key fst (st_entries s)" and ?enc = "\<lambda>(i, flds). save_id i @ encode_length (length flds) @ save_pairs flds"
  let ?mk = "\<lambda>es last_id. \<lparr>st_entries = es, st_groups = [], st_last_id = last_id, st_deleted_ids = []\<rparr>"
  have fits: "id_fits i \<and> pairs_fit flds" if "(i, flds) \<in> set ?es" for i flds
    using assms that by auto
  have loop: "reads (\<lambda>inp. for_n (length ?es) (decode_stream_entry inp) []) (concat (map ?enc ?es))
      (fold (\<lambda>(i, flds). dict_put i flds) ?es [])"
    by (rule reads_for) (use fits in \<open>auto intro!: reads_stream_entry\<close>)
  have last: "reads (\<lambda>inp p. rbind (decode_id inp p) (\<lambda>(last_id, p4). Inr (?mk es last_id, p4))) (save_id (st_last_id s))
      (?mk es (st_last_id s))" for es
    by (rule reads_map [of decode_id _ _ "?mk es"]) (use assms in \<open>simp add: reads_id\<close>)
  have tail: "reads (\<lambda>inp p. rbind (for_n (length ?es) (decode_stream_entry inp) [] p) (\<lambda>(es, p3).
      rbind (decode_id inp p3) (\<lambda>(last_id, p4). Inr (?mk es last_id, p4))))
      (concat (map ?enc ?es) @ save_id (st_last_id s)) (?mk (fold (\<lambda>(i, flds). dict_put i flds) ?es []) (st_last_id s))"
    by (rule reads_bind [OF loop, of "\<lambda>es inp p3. rbind (decode_id inp p3) (\<lambda>(last_id, p4). Inr (?mk es last_id, p4))", OF last])
  have len: "reads decode_length (encode_length (length (st_entries s))) (length (st_entries s))"
    "reads decode_length (encode_length (sum_list (map (length \<circ> snd) (st_entries s)))) (sum_list (map (length \<circ> snd) (st_entries s)))"
    using assms by (auto intro!: reads_length)
  have two: "reads (\<lambda>inp p. rbind (decode_length inp p) (\<lambda>(_, p2). rbind (for_n (length ?es) (decode_stream_entry inp) [] p2) (\<lambda>(es, p3).
      rbind (decode_id inp p3) (\<lambda>(last_id, p4). Inr (?mk es last_id, p4)))))
      (encode_length (sum_list (map (length \<circ> snd) (st_entries s))) @ concat (map ?enc ?es) @ save_id (st_last_id s))
      (?mk (fold (\<lambda>(i, flds). dict_put i flds) ?es []) (st_last_id s))"
    by (rule reads_bind [OF len(2), of "\<lambda>_ inp p2. rbind (for_n (length ?es) (decode_stream_entry inp) [] p2) (\<lambda>(es, p3).
      rbind (decode_id inp p3) (\<lambda>(last_id, p4). Inr (?mk es last_id, p4)))", OF tail])
  show ?thesis
    unfolding decode_stream_def save_stream_def Let_def
    by (rule reads_bind [OF len(1), of "\<lambda>n inp p1. rbind (decode_length inp p1) (\<lambda>(_, p2). rbind (for_n n (decode_stream_entry inp) [] p2) (\<lambda>(es, p3).
      rbind (decode_id inp p3) (\<lambda>(last_id, p4). Inr (?mk es last_id, p4))))"]) (use two in simp)
qed

lemma sort_dict_wf: "dict_wf m \<Longrightarrow> dict_wf (sort_key fst m)"
  by (simp add: dict_wf_def distinct_map)

lemma map_of_sort_key: "dict_wf m \<Longrightarrow> map_of (sort_key fst m) = map_of m"
  using sort_dict_wf [of m] by (intro map_of_inject_set [THEN iffD2]) (simp_all add: dict_wf_def)

text \<open>A value is restored: what is read back from its saved form means the same and is well formed.\<close>

definition restores :: "('s \<Rightarrow> bytes) \<Rightarrow> (bytes \<Rightarrow> 's) \<Rightarrow> 's DataType \<Rightarrow> bytes \<Rightarrow> 's DataType \<Rightarrow> bool" where
  "restores sle sread d v d' \<longleftrightarrow> save_value sle d = Ret v \<and> reads (decode_value sread (type_byte d)) v d'
     \<and> value_of d' = value_of d \<and> data_wf d'"

lemma restores_string:
  assumes "rdb_fits (DString s)"
  shows "restores sle sread (DString s) (rdb_encode_string s) (DString s)"
  using reads_map [OF reads_string, of s DString] assms by (simp add: restores_def reads_def decode_value_def)

lemma reads_list:
  "strings_fit l \<Longrightarrow> length l = n \<Longrightarrow> reads (decode_value sread 1) (encode_length n @ save_strings l) (DList l)"
  using reads_strings [of l n "\<lambda>x l. l @ [x]" "[]" DList]
  by (simp add: reads_def decode_value_def fold_snoc)

lemma restores_list:
  assumes "data_wf d" "rdb_fits d" "is_list_type d"
  shows "\<exists>v d'. restores sle sread d v d'"
proof (cases d)
  case (DList l)
  then have "restores sle sread d (encode_length (length l) @ save_strings l) d"
    using reads_list [of l "length l" sread] assms(2) by (simp add: restores_def)
  then show ?thesis by blast
next
  case (DListPack lp)
  obtain es where es: "lp_rep lp es" using assms(1) DListPack by auto
  then have "restores sle sread d (encode_length (length es) @ save_strings (map entry_to_bytes es)) (DList (map entry_to_bytes es))"
    using reads_list [of "map entry_to_bytes es" "length es" sread] assms(2) lp_rep_reads(1,4) [OF es] DListPack
    by (simp add: restores_def)
  then show ?thesis by blast
qed (use assms(3) in simp_all)

lemma reads_set:
  "strings_fit xs \<Longrightarrow> length xs = n \<Longrightarrow> reads (decode_value sread 2) (encode_length n @ save_strings xs)
    (DSet (fold (\<lambda>x s. fst (hset_insert x s)) xs []))"
  using reads_strings [of xs n "\<lambda>x s. fst (hset_insert x s)" "[]" DSet]
  by (simp add: reads_def decode_value_def)

lemma restores_set:
  assumes "data_wf d" "rdb_fits d" "is_set_type d"
  shows "\<exists>v d'. restores sle sread d v d'"
proof (cases d)
  case (DSet s)
  then have "restores sle sread d (encode_length (length s) @ save_strings s) (DSet (fold (\<lambda>x s. fst (hset_insert x s)) s []))"
    using reads_set [of s "length s" sread] assms(2) fold_hset_insert [of s "[]"] by (simp add: restores_def)
  then show ?thesis by blast
next
  case (DIntSet s)
  let ?v = "map show_int (intset_to_vec s)"
  have "length ?v = is_length s" using assms(1) DIntSet rep_length [OF inv_rep] by simp
  then have "restores sle sread d (encode_length (is_length s) @ save_strings ?v) (DSet (fold (\<lambda>x s. fst (hset_insert x s)) ?v []))"
    using reads_set [of ?v "is_length s" sread] assms(2) fold_hset_insert [of ?v "[]"] DIntSet by (simp add: restores_def)
  then show ?thesis by blast
qed (use assms(3) in simp_all)

lemma restores_hash:
  assumes "dict_wf h" "pairs_fit h"
  shows "restores sle sread (DHash h) (encode_length (length h) @ save_pairs h)
    (DHash (fold (\<lambda>fv. dict_put (fst fv) (snd fv)) h []))"
proof -
  let ?add = "\<lambda>fv. dict_put (fst fv) (snd fv)"
  have "length h < 2 ^ 32" using assms(2) by (simp add: pairs_fit_def strings_fit_def)
  note len = reads_length [OF this] and loop = reads_map [OF reads_pairs [OF assms(2), of ?add "[]"], of DHash]
  note r = reads_bind [OF len, of "\<lambda>n i p1. rbind (for_n n (\<lambda>a q. rbind (decode_pair i q)
        (\<lambda>(fv, q'). Inr (?add fv a, q'))) [] p1) (\<lambda>(l, p2). Inr (DHash l, p2))", OF loop]
  have "reads (decode_value sread 4) (encode_length (length h) @ save_pairs h) (DHash (fold ?add h []))"
    using r by (simp add: reads_def decode_value_def)
  moreover have "dict_wf (fold ?add h [])" "map_of (fold ?add h []) = map_of h"
    using hashmap.wf_fold_put [of "[]" h] map_of_fold_put [OF assms(1)]
    by (simp_all add: case_prod_beta' dict_wf_def [of "[]"])
  ultimately show ?thesis by (simp add: restores_def)
qed

lemma restores_zset:
  assumes "zset_inv z" "strings_fit (map fst (members z))" "\<And>s. length (sle s) = 8" "\<And>s. sread (sle s) = s"
  shows "restores sle sread (DZSet z) (encode_length (zset_len z) @ concat (map (\<lambda>(m, s). rdb_encode_string m @ sle s) (members z)))
    (DZSet (fold (\<lambda>(m, s). zset_add m s) (members z) zset_new))"
proof -
  have wf: "dict_wf (members z)" using assms(1) by (simp add: zset_inv_def)
  have len: "reads decode_length (encode_length (zset_len z)) (length (members z))"
    using assms(2) by (auto simp: zset_len_def strings_fit_def intro!: reads_length)
  have loop: "reads (\<lambda>i. for_n (length (members z)) (decode_member sread i) zset_new)
     (concat (map (\<lambda>(m, s). rdb_encode_string m @ sle s) (members z))) (fold (\<lambda>(m, s). zset_add m s) (members z) zset_new)"
    using wf assms(2-4) by (intro reads_members) (simp_all add: dict_wf_def zset_new_def)
  note r = reads_bind [OF len, of "\<lambda>n i p1. rbind (for_n n (decode_member sread i) zset_new p1) (\<lambda>(z, p2). Inr (DZSet z, p2))",
      OF reads_map [OF loop, of DZSet]]
  show ?thesis
    using r zset_fold_add [OF zset_new_inv, of "members z"] map_of_fold_put [OF wf]
    by (simp add: restores_def reads_def decode_value_def zset_new_def)
qed

lemma restores_stream:
  assumes "stream_inv s" "rdb_fits (DStream s)"
  shows "\<exists>v d'. restores sle sread (DStream s) v d'"
proof -
  let ?es = "fold (\<lambda>(i, flds). dict_put i flds) (sort_key fst (st_entries s)) []"
  let ?s = "\<lparr>st_entries = ?es, st_groups = [], st_last_id = st_last_id s, st_deleted_ids = []\<rparr>"
  have wf: "dict_wf (st_entries s)" using assms(1) by (simp add: stream_inv_def)
  have m: "map_of ?es = map_of (st_entries s)"
    using map_of_fold_put [OF sort_dict_wf [OF wf]] map_of_sort_key [OF wf] by simp
  moreover have "dict_wf ?es" by (simp add: hashmap.wf_fold_put dict_wf_def [of "[]"])
  moreover have "reads (decode_value sread 19) (save_stream s) (DStream ?s)"
    using reads_map [OF reads_stream [OF assms(2)], of DStream] by (simp add: reads_def decode_value_def)
  ultimately have "restores sle sread (DStream s) (save_stream s) (DStream ?s)"
    using assms(1) by (simp add: restores_def stream_inv_def)
  then show ?thesis by blast
qed

lemma value_restored:
  assumes "data_wf d" "rdb_fits d" "\<And>s. length (sle s) = 8" "\<And>s. sread (sle s) = s"
  shows "\<exists>v d'. restores sle sread d v d'"
proof (cases d)
  case (DZSet z)
  then have "zset_inv z" "strings_fit (map fst (members z))" using assms(1,2) by simp_all
  then show ?thesis unfolding DZSet using restores_zset assms(3,4) by blast
next
  case (DHash h)
  then have "dict_wf h" "pairs_fit h" using assms(1,2) by simp_all
  then show ?thesis unfolding DHash using restores_hash by blast
next
  case (DString s)
  then show ?thesis using restores_string [of s sle sread] assms(2) by blast
next
  case (DStream s)
  then have "stream_inv s" using assms(1) by simp
  then show ?thesis using restores_stream [of s sle sread] assms(2) DStream by simp
next
  case (DList l)
  then have "is_list_type d" by simp
  then show ?thesis by (rule restores_list [OF assms(1,2)])
next
  case (DListPack l)
  then have "is_list_type d" by simp
  then show ?thesis by (rule restores_list [OF assms(1,2)])
next
  case (DSet l)
  then have "is_set_type d" by simp
  then show ?thesis by (rule restores_set [OF assms(1,2)])
next
  case (DIntSet l)
  then have "is_set_type d" by simp
  then show ?thesis by (rule restores_set [OF assms(1,2)])
qed

subsection \<open>Entries and files\<close>

text \<open>
  The deadline an entry has after a save at one time and a load at another: the remaining time of
  the wall clock in milliseconds, and none once the deadline has passed.
\<close>

definition kept_deadline :: "env \<Rightarrow> env \<Rightarrow> instant option \<Rightarrow> instant option" where
  "kept_deadline env env' ea =
     (case ea of
        None \<Rightarrow> None
      | Some at \<Rightarrow>
          (let ms = e_wall env + (at - e_now env) div 10 ^ 6
           in if ms > e_wall env' then Some (e_now env' + millis (ms - e_wall env')) else None))"

definition deadline_fits :: "env \<Rightarrow> env \<Rightarrow> instant option \<Rightarrow> bool" where
  "deadline_fits env env' ea \<longleftrightarrow>
     (\<forall>at. ea = Some at \<longrightarrow> e_wall env + (at - e_now env) div 10 ^ 6 < 2 ^ 64
        \<and> e_now env' + millis (e_wall env + (at - e_now env) div 10 ^ 6 - e_wall env') \<le> instant_max)"

definition entry_fits :: "env \<Rightarrow> env \<Rightarrow> bytes \<Rightarrow> 's entry \<Rightarrow> bool" where
  "entry_fits env env' k e \<longleftrightarrow> length k < 2 ^ 32 \<and> rdb_fits (data e) \<and> deadline_fits env env' (expires_at e)"

definition entry_back :: "env \<Rightarrow> env \<Rightarrow> 's entry \<Rightarrow> 's entry \<Rightarrow> bool" where
  "entry_back env env' e e' \<longleftrightarrow> value_of (data e') = value_of (data e) \<and> data_wf (data e')
     \<and> expires_at e' = kept_deadline env env' (expires_at e)"

lemma type_byte_cases: "type_byte d \<in> {0, 1, 2, 3, 4, 19}"
  by (cases d) simp_all

lemma type_byte_opcode [simp]: "type_byte d \<noteq> 0xFC" "type_byte d \<noteq> 0xFD" "type_byte d \<noteq> 0xFF"
  by (cases d; simp)+

lemma load_header_saved:
  assumes "deadline_fits env env' ea"
    and "h = (case ea of None \<Rightarrow> [] | Some at \<Rightarrow> 0xFC # le_bytes 8 (int (save_deadline env at)))"
  shows "load_header env' (pre @ h @ [type_byte d] @ post) (length pre)
    = Ret (Inr ((kept_deadline env env' ea, type_byte d), length pre + length h + 1))"
proof (cases ea)
  case None
  then show ?thesis using assms(2) by (simp add: load_header_def kept_deadline_def nth_append)
next
  case (Some at)
  let ?ms = "e_wall env + (at - e_now env) div 10 ^ 6"
  have ms: "?ms < 2 ^ 64" "e_now env' + millis (?ms - e_wall env') \<le> instant_max"
    using assms(1) Some by (simp_all add: deadline_fits_def)
  then have d: "save_deadline env at = ?ms" by (simp add: save_deadline_def wrap_u64_def)
  have h: "h = 0xFC # le_bytes 8 (int ?ms)" using assms(2) Some d by simp
  have "take_le 8 (pre @ h @ [type_byte d] @ post) (length pre + 1) = Inr (?ms, length pre + 9)"
    using readsD [OF reads_take_le [of ?ms 8], of "pre @ [0xFC]" "[type_byte d] @ post"] ms(1) by (simp add: h)
  moreover have "(pre @ h @ [type_byte d] @ post) ! length pre = 0xFC"
    "(pre @ h @ [type_byte d] @ post) ! (length pre + 9) = type_byte d"
    by (simp_all add: h nth_append)
  ultimately show ?thesis
    using Some ms(2) by (simp add: load_header_def kept_deadline_def Let_def h instant_add_def)
qed

lemma load_entry_saved:
  assumes "entry_fits env env' k e" "restores sle sread (data e) v d'" "save_entry env sle k e = Ret b"
  shows "load_entry env' sread (pre @ b @ post) (length pre) = Ret (Inr ((k,
      \<lparr>data = d', expires_at = kept_deadline env env' (expires_at e), last_access = e_now env', access_count = 1, lfu_counter = 1\<rparr>),
      length pre + length b))"
proof -
  let ?h = "case expires_at e of None \<Rightarrow> [] | Some at \<Rightarrow> 0xFC # le_bytes 8 (int (save_deadline env at))"
  let ?k = "rdb_encode_string k" and ?at = "kept_deadline env env' (expires_at e)" and ?buf = "pre @ b @ post"
  have b: "b = ?h @ [type_byte (data e)] @ ?k @ v"
    using assms(2,3) by (simp add: save_entry_def restores_def)
  have "load_header env' ?buf (length pre) = Ret (Inr ((?at, type_byte (data e)), length pre + length ?h + 1))"
    using load_header_saved [of env env' "expires_at e" ?h pre "data e" "?k @ v @ post"] assms(1)
    by (simp add: b entry_fits_def)
  moreover have "rdb_decode_string ?buf (length pre + length ?h + 1) = Inr (k, length pre + length ?h + 1 + length ?k)"
    using readsD [OF reads_string, of k "pre @ ?h @ [type_byte (data e)]" "v @ post"] assms(1)
    by (simp add: b entry_fits_def)
  moreover have "decode_value sread (type_byte (data e)) ?buf (length pre + length ?h + 1 + length ?k) = Inr (d', length pre + length b)"
    using assms(2) readsD [of "decode_value sread (type_byte (data e))" v d' "pre @ ?h @ [type_byte (data e)] @ ?k" post]
    by (simp add: b restores_def add.assoc)
  moreover have "?at = Some a \<Longrightarrow> e_now env' \<le> a \<and> a \<le> instant_max" for a
    using assms(1) by (auto simp: entry_fits_def kept_deadline_def deadline_fits_def Let_def split: option.splits if_splits)
  ultimately show ?thesis
    by (cases ?at) (simp_all add: load_entry_def entry_new_def instant_add_def)
qed

lemma load_loop_saved:
  assumes "\<forall>(k, e) \<in> set items. entry_fits env env' k e \<and> data_wf (data e)"
    and "\<And>s. length (sle s) = 8" "\<And>s. sread (sle s) = s"
  shows "\<exists>bs es'. save_entries env sle items = Ret bs
    \<and> list_all2 (\<lambda>(k, e) (k', e'). k' = k \<and> entry_back env env' e e') items es'
    \<and> (\<forall>pre post st. load_loop env' sread (pre @ bs @ 0xFF # post) (length pre) st
         = Some (Ret (Inr (length pre + length bs + 1), st\<lparr>keyspace := fold (\<lambda>(k, e). dict_put k e) es' (keyspace st)\<rparr>)))"
  using assms(1)
proof (induction items)
  case Nil
  then show ?case by (simp add: load_loop.simps nth_append)
next
  case (Cons x items)
  obtain k e where x: "x = (k, e)" by fastforce
  have fits: "entry_fits env env' k e" "data_wf (data e)" using Cons.prems x by simp_all
  obtain v d' where r: "restores sle sread (data e) v d'"
    using value_restored [OF fits(2) _ assms(2,3)] fits(1) by (auto simp: entry_fits_def)
  obtain b where b: "save_entry env sle k e = Ret b" using r by (simp add: save_entry_def restores_def)
  let ?e = "\<lparr>data = d', expires_at = kept_deadline env env' (expires_at e), last_access = e_now env', access_count = 1, lfu_counter = 1\<rparr>"
  obtain bs es' where IH: "save_entries env sle items = Ret bs"
    "list_all2 (\<lambda>(k, e) (k', e'). k' = k \<and> entry_back env env' e e') items es'"
    "load_loop env' sread (pre @ bs @ 0xFF # post) (length pre) st
         = Some (Ret (Inr (length pre + length bs + 1), st\<lparr>keyspace := fold (\<lambda>(k, e). dict_put k e) es' (keyspace st)\<rparr>))" for pre post st
    using Cons by auto
  have ne: "b \<noteq> []" "hd b \<noteq> 0xFF"
    using b r by (auto simp: save_entry_def restores_def split: option.splits)
  have "load_loop env' sread (pre @ (b @ bs) @ 0xFF # post) (length pre) st
      = Some (Ret (Inr (length pre + length (b @ bs) + 1),
          st\<lparr>keyspace := fold (\<lambda>(k, e). dict_put k e) ((k, ?e) # es') (keyspace st)\<rparr>))" for pre post st
  proof -
    have "(pre @ (b @ bs) @ 0xFF # post) ! length pre = hd b" using ne(1) by (simp add: nth_append hd_conv_nth)
    then show ?thesis
      using ne load_entry_saved [OF fits(1) r b, of pre "bs @ 0xFF # post"] IH(3) [of "pre @ b"]
      by (subst load_loop.simps) simp
  qed
  moreover have "entry_back env env' e ?e" using r by (simp add: entry_back_def restores_def)
  ultimately show ?case
    using b IH(1,2) x by (intro exI [of _ "b @ bs"] exI [of _ "(k, ?e) # es'"]) simp
qed

subsection \<open>Arbitrary files\<close>

definition moves :: "(nat \<Rightarrow> 'e + ('a \<times> nat)) \<Rightarrow> bool" where
  "moves f \<longleftrightarrow> (\<forall>p x p'. f p = Inr (x, p') \<longrightarrow> p \<le> p')"

lemma movesD: "moves f \<Longrightarrow> f p = Inr (x, p') \<Longrightarrow> p \<le> p'"
  by (simp add: moves_def)

lemma moves_bind:
  assumes "moves f" "\<And>x. moves (g x)"
  shows "moves (\<lambda>p. rbind (f p) (\<lambda>(x, p'). g x p'))"
  unfolding moves_def
proof (intro allI impI)
  fix p y q
  assume "rbind (f p) (\<lambda>(x, p'). g x p') = Inr (y, q)"
  then obtain x p' where "f p = Inr (x, p')" "g x p' = Inr (y, q)" by (cases "f p") auto
  then show "p \<le> q" using movesD [OF assms(1)] movesD [OF assms(2)] by fastforce
qed

lemma moves_Inr [intro, simp]: "moves (\<lambda>p. Inr (h p, p))" "moves (\<lambda>p. Inl (k p))"
  by (simp_all add: moves_def)

lemma moves_for: "(\<And>a. moves (f a)) \<Longrightarrow> moves (for_n n f a)"
proof (induction n arbitrary: a)
  case 0
  then show ?case by (simp add: moves_def)
next
  case (Suc n)
  have "moves (\<lambda>p. rbind (f a p) (\<lambda>(a', p'). for_n n f a' p'))"
    by (rule moves_bind) (use Suc in auto)
  then show ?case by (simp add: moves_def)
qed

lemma moves_take_bytes [simp]: "moves (take_bytes n input)"
  by (simp add: moves_def take_bytes_def)

lemma moves_take_le [simp]: "moves (take_le n input)"
  unfolding take_le_def by (rule moves_bind) simp_all

lemma moves_length [simp]: "moves (decode_length input)"
  using movesD [OF moves_take_le] unfolding moves_def decode_length_def Let_def
  by (fastforce split: if_splits)

lemma moves_string [simp]: "moves (rdb_decode_string input)"
  unfolding rdb_decode_string_def by (rule moves_bind) simp_all

lemma moves_pair [simp]: "moves (decode_pair input)"
  unfolding decode_pair_def by (intro moves_bind) simp_all

lemma moves_id [simp]: "moves (decode_id input)"
proof -
  have "moves (\<lambda>p. rbind (take_le 8 input p) (\<lambda>(ms, p). rbind (take_le 8 input p) (\<lambda>(sq, p'). Inr (StreamId ms sq, p'))))"
    by (intro moves_bind) simp_all
  then show ?thesis by (simp add: decode_id_def moves_def)
qed

lemma moves_member [simp]: "moves (decode_member sread input z)"
  unfolding decode_member_def Let_def by (intro moves_bind) simp_all

lemma moves_stream_entry [simp]: "moves (decode_stream_entry input es)"
  unfolding decode_stream_entry_def by (intro moves_bind moves_for) simp_all

lemma moves_stream [simp]: "moves (decode_stream input)"
  unfolding decode_stream_def by (intro moves_bind moves_for) simp_all

lemma moves_value [simp]: "moves (decode_value sread t input)"
proof -
  have m: "moves (\<lambda>p. if b then f p else g p)" if "moves f" "moves g" for b and f g :: "nat \<Rightarrow> RdbError + ('b \<times> nat)"
    using that by (simp add: moves_def)
  show ?thesis unfolding decode_value_def by (intro m moves_bind moves_for) simp_all
qed

lemma load_header_moves: "load_header env buf pos = Ret (Inr (x, p)) \<Longrightarrow> pos < p"
  using movesD [OF moves_take_le [of _ buf]]
  by (fastforce simp: load_header_def Let_def obind_Ret_iff split: if_splits sum.splits option.splits)

lemma load_entry_moves:
  assumes "load_entry env sread buf pos = Ret (Inr (x, p))"
  shows "pos < p"
proof -
  let ?v = "\<lambda>t q. rbind (rdb_decode_string buf q) (\<lambda>(key, p1).
      rbind (decode_value sread t buf p1) (\<lambda>(d, p2). Inr ((key, d), p2)))"
  obtain at t q where h: "load_header env buf pos = Ret (Inr ((at, t), q))"
  proof -
    obtain h where "load_header env buf pos = Ret h"
      using assms by (auto simp: load_entry_def obind_Ret_iff)
    then show ?thesis using assms that by (cases h) (auto simp: load_entry_def)
  qed
  then obtain kd where v: "?v t q = Inr (kd, p)"
    using assms by (cases "?v t q") (auto simp: load_entry_def obind_Ret_iff Let_def)
  have m: "moves (\<lambda>q. rbind (rdb_decode_string buf q) (\<lambda>(key, p1).
        rbind (decode_value sread t buf p1) (\<lambda>(d, p2). Inr ((key, d), p2))))"
    by (intro moves_bind) simp_all
  show ?thesis using load_header_moves [OF h] movesD [OF m v] by simp
qed

lemma load_entry_returns: "load_entry env sread buf pos \<noteq> Deadlock"
  by (auto simp: load_entry_def load_header_def entry_new_def instant_add_def Let_def
      split: sum.splits option.splits if_splits)

lemma length_dict_put: "length (dict_put k v m) \<le> Suc (length m)"
  by (induction m) auto

lemma load_loop_total:
  "\<exists>r. load_loop env sread buf pos st = Some r \<and> r \<noteq> Deadlock
    \<and> (\<forall>res st'. r = Ret (res, st') \<longrightarrow> length (keyspace st') \<le> length (keyspace st) + (length buf - pos))"
proof (induction "length buf - pos" arbitrary: pos st rule: less_induct)
  case less
  show ?case
  proof (cases "pos < length buf \<and> buf ! pos \<noteq> 0xFF")
    case False
    then show ?thesis by (subst load_loop.simps) auto
  next
    case True
    show ?thesis
    proof (cases "\<exists>k e p. load_entry env sread buf pos = Ret (Inr ((k, e), p))")
      case False
      then show ?thesis
        using True load_entry_returns [of env sread buf pos]
        by (subst load_loop.simps) (auto split: outcome.splits sum.splits)
    next
      case ex: True
      then obtain k e p where e: "load_entry env sread buf pos = Ret (Inr ((k, e), p))" by blast
      have p: "pos < p" by (rule load_entry_moves [OF e])
      let ?st = "st\<lparr>keyspace := dict_put k e (keyspace st)\<rparr>"
      have "length buf - p < length buf - pos" using p True by linarith
      from less [OF this, of ?st] obtain r where r: "load_loop env sread buf p ?st = Some r" "r \<noteq> Deadlock"
        "\<And>res st'. r = Ret (res, st') \<Longrightarrow> length (keyspace st') \<le> length (dict_put k e (keyspace st)) + (length buf - p)"
        by auto
      moreover have "load_loop env sread buf pos st = Some r"
        using True e r(1) by (subst load_loop.simps) simp
      moreover have "length (dict_put k e (keyspace st)) + (length buf - p) \<le> length (keyspace st) + (length buf - pos)"
        using length_dict_put [of k e "keyspace st"] p True by linarith
      ultimately show ?thesis by (meson le_trans)
    qed
  qed
qed

lemma le_uint_inj: "length a = length b \<Longrightarrow> le_uint a = le_uint b \<Longrightarrow> a = b"
proof (induction a b rule: list_induct2)
  case Nil
  then show ?case by simp
next
  case (Cons x xs y ys)
  have "uint x < 256" "uint y < 256" using uint_lt2p [of x] uint_lt2p [of y] by simp_all
  moreover have "uint x + 256 * le_uint xs = uint y + 256 * le_uint ys" using Cons.prems by simp
  ultimately have "uint x = uint y"
    by (metis mod_mult_self2 mod_pos_pos_trivial uint_ge_0)
  moreover from this Cons.prems have "le_uint xs = le_uint ys" by simp
  ultimately
  show ?case using Cons.IH by (simp add: word_uint_eq_iff)
qed


text \<open>Scores as the bits of an \<^verbatim>\<open>f64\<close>.\<close>

abbreviation bits_le :: "64 word \<Rightarrow> bytes" where "bits_le w \<equiv> le_bytes 8 (uint w)"

abbreviation bits_of_le :: "bytes \<Rightarrow> 64 word" where "bits_of_le b \<equiv> word_of_int (le_uint b)"




end
