(* ===== verification/Cmd_Set.thy ===== *)
theory Cmd_Set
  imports Cmd_Base
begin

text \<open>
  The set commands, \<^verbatim>\<open>crates/commands/src/set.rs\<close>. A set is a \<^verbatim>\<open>HashSet\<close> or a packed integer
  set; every write stores the value anew without time to live. Random draws
  (\<^verbatim>\<open>fastrand\<close>, a third-party crate) are the numbers \<open>e_pick\<close> of the environment, reduced to the
  range of the draw.
\<close>

definition INTSET_THRESHOLD :: nat where "INTSET_THRESHOLD = 512"

subsection \<open>Adding, removing and testing\<close>

fun set_add_all :: "bytes list \<Rightarrow> bytes list \<Rightarrow> int \<Rightarrow> bytes list \<times> int" where
  "set_add_all [] s added = (s, added)"
| "set_add_all (m # ms) s added =
     (let (s', b) = hset_insert m s in set_add_all ms s' (if b then added + 1 else added))"

fun intset_add_all :: "bytes list \<Rightarrow> intset \<Rightarrow> int \<Rightarrow> intset \<times> int" where
  "intset_add_all [] s added = (s, added)"
| "intset_add_all (m # ms) s added =
     (case bytes_i64 m of
        None \<Rightarrow> intset_add_all ms s added
      | Some v \<Rightarrow> (let (s', b) = intset_add v s in intset_add_all ms s' (if b then added + 1 else added)))"

text \<open>The value SADD starts from, and the value with the members added.\<close>

definition sadd_start :: "'s DataType option \<Rightarrow> bytes list \<Rightarrow> 's DataType" where
  "sadd_start existing mems =
     (let all_integers = list_all (\<lambda>m. bytes_i64 m \<noteq> None) mems;
          entry = (case existing of
              None \<Rightarrow> if all_integers then DIntSet intset_new else DSet []
            | Some e \<Rightarrow> e)
      in if \<not> all_integers then upgrade_to_set entry else entry)"

fun sadd_into :: "bytes list \<Rightarrow> 's DataType \<Rightarrow> ('s DataType \<times> int) option" where
  "sadd_into mems (DSet s) = (let (s', added) = set_add_all mems s 0 in Some (DSet s', added))"
| "sadd_into mems (DIntSet s) =
     (let (s', added) = intset_add_all mems s 0
      in Some (if is_length s' > INTSET_THRESHOLD then upgrade_to_set (DIntSet s') else DIntSet s', added))"
| "sadd_into mems _ = None"

definition sadd :: "env \<Rightarrow> bytes list \<Rightarrow> 's store \<Rightarrow> 's result" where
  "sadd env args st =
     (case args of
        key # m # ms \<Rightarrow>
          (let (existing, st1) = read_data env key st in
           case sadd_into (m # ms) (sadd_start existing (m # ms)) of
             None \<Rightarrow> Ret (wrongtype, st1)
           | Some (entry, added) \<Rightarrow>
               obind (store_set (e_now env) key entry None st1) (\<lambda>st2. Ret (Integer added, st2)))
      | _ \<Rightarrow> Ret (wrong_args ''sadd'', st))"

definition smembers :: "env \<Rightarrow> bytes list \<Rightarrow> 's store \<Rightarrow> 's result" where
  "smembers env args st =
     (case args of
        [key] \<Rightarrow>
          (case read_data env key st of
             (None, st') \<Rightarrow> Ret (Array (Some []), st')
           | (Some d, st') \<Rightarrow>
               Ret (case to_set_clone d of Some s \<Rightarrow> Array (Some (map bull s)) | None \<Rightarrow> wrongtype, st'))
      | _ \<Rightarrow> Ret (wrong_args ''smembers'', st))"

definition sismember :: "env \<Rightarrow> bytes list \<Rightarrow> 's store \<Rightarrow> 's result" where
  "sismember env args st =
     (case args of
        [key, member] \<Rightarrow>
          (case read_data env key st of
             (None, st') \<Rightarrow> Ret (Integer 0, st')
           | (Some d, st') \<Rightarrow>
               Ret (case set_contains d member of
                      Some b \<Rightarrow> Integer (if b then 1 else 0)
                    | None \<Rightarrow> wrongtype, st'))
      | _ \<Rightarrow> Ret (wrong_args ''sismember'', st))"

definition smismember :: "env \<Rightarrow> bytes list \<Rightarrow> 's store \<Rightarrow> 's result" where
  "smismember env args st =
     (case args of
        key # m # ms \<Rightarrow>
          (case read_data env key st of
             (None, st') \<Rightarrow> Ret (Array (Some (map (\<lambda>_. Integer 0) (m # ms))), st')
           | (Some d, st') \<Rightarrow>
               Ret (case to_set_clone d of
                      Some s \<Rightarrow> Array (Some (map (\<lambda>x. Integer (if x \<in> set s then 1 else 0)) (m # ms)))
                    | None \<Rightarrow> wrongtype, st'))
      | _ \<Rightarrow> Ret (wrong_args ''smismember'', st))"

definition scard :: "env \<Rightarrow> bytes list \<Rightarrow> 's store \<Rightarrow> 's result" where
  "scard env args st =
     (case args of
        [key] \<Rightarrow>
          (case read_data env key st of
             (None, st') \<Rightarrow> Ret (Integer 0, st')
           | (Some d, st') \<Rightarrow> Ret (case set_len d of Some n \<Rightarrow> Integer (int n) | None \<Rightarrow> wrongtype, st'))
      | _ \<Rightarrow> Ret (wrong_args ''scard'', st))"

fun set_remove_all :: "bytes list \<Rightarrow> bytes list \<Rightarrow> int \<Rightarrow> bytes list \<times> int" where
  "set_remove_all [] s removed = (s, removed)"
| "set_remove_all (m # ms) s removed =
     (let (s', b) = hset_remove m s in set_remove_all ms s' (if b then removed + 1 else removed))"

definition srem :: "env \<Rightarrow> bytes list \<Rightarrow> 's store \<Rightarrow> 's result" where
  "srem env args st =
     (case args of
        key # m # ms \<Rightarrow>
          (case read_data env key st of
             (None, st') \<Rightarrow> Ret (Integer 0, st')
           | (Some d, st') \<Rightarrow>
               (case as_set_mut d of
                  (_, None) \<Rightarrow> Ret (wrongtype, st')
                | (_, Some s) \<Rightarrow>
                    (let (s', removed) = set_remove_all (m # ms) s 0
                     in obind (store_set (e_now env) key (DSet s') None st') (\<lambda>st''. Ret (Integer removed, st'')))))
      | _ \<Rightarrow> Ret (wrong_args ''srem'', st))"

subsection \<open>Random members\<close>

text \<open>A draw from the empty range panics, so popping more members than there are panics.\<close>

fun pop_n :: "env \<Rightarrow> nat \<Rightarrow> nat \<Rightarrow> bytes list \<Rightarrow> (bytes list \<times> bytes list) outcome" where
  "pop_n env 0 i s = Ret ([], s)"
| "pop_n env (Suc n) i s =
     (if s = [] then Panic
      else let chosen = s ! draw env i (length s)
           in obind (pop_n env n (Suc i) (fst (hset_remove chosen s))) (\<lambda>(ps, s'). Ret (chosen # ps, s')))"

definition spop :: "env \<Rightarrow> bytes list \<Rightarrow> 's store \<Rightarrow> 's result" where
  "spop env args st =
     (if args = [] \<or> length args > 2 then Ret (wrong_args ''spop'', st)
      else
        let key = hd args; counted = (length args = 2) in
        case (if counted then bytes_u64 (args ! 1) else Some 1) of
          None \<Rightarrow> Ret (not_int, st)
        | Some count \<Rightarrow>
            (let nothing = (if counted then Array (Some []) else null_bulk) in
             case read_data env key st of
               (None, st') \<Rightarrow> Ret (nothing, st')
             | (Some d, st') \<Rightarrow>
                 (case as_set_mut d of
                    (_, None) \<Rightarrow> Ret (wrongtype, st')
                  | (_, Some s) \<Rightarrow>
                      if s = [] then Ret (nothing, st')
                      else obind (pop_n env count 0 s) (\<lambda>(popped, s').
                             obind (store_set (e_now env) key (DSet s') None st') (\<lambda>st''.
                               Ret (if counted then Array (Some (map bull popped))
                                    else BulkString (case popped of [] \<Rightarrow> None | p # _ \<Rightarrow> Some p), st''))))))"

definition swap_at :: "nat \<Rightarrow> nat \<Rightarrow> 'a list \<Rightarrow> 'a list" where
  "swap_at i j xs = xs[i := xs ! j, j := xs ! i]"

definition shuffle :: "env \<Rightarrow> bytes list \<Rightarrow> bytes list" where
  "shuffle env xs = fold (\<lambda>i ys. swap_at i (draw env i (i + 1)) ys) (rev [1..<length xs]) xs"

definition srandmember :: "env \<Rightarrow> bytes list \<Rightarrow> 's store \<Rightarrow> 's result" where
  "srandmember env args st =
     (if args = [] \<or> length args > 2 then Ret (wrong_args ''srandmember'', st)
      else
        let key = hd args; counted = (length args = 2);
            nothing = (if counted then Array (Some []) else null_bulk) in
        case read_data env key st of
          (None, st') \<Rightarrow> Ret (nothing, st')
        | (Some d, st') \<Rightarrow>
            Ret (case to_set_clone d of
                   None \<Rightarrow> wrongtype
                 | Some s \<Rightarrow>
                     if s = [] then nothing
                     else if counted then
                       (case bytes_i64 (args ! 1) of
                          None \<Rightarrow> not_int
                        | Some count \<Rightarrow>
                            let count_abs = nat \<bar>count\<bar> in
                            Array (Some (if count < 0
                              then map (\<lambda>i. bull (s ! draw env i (length s))) [0..<count_abs]
                              else map bull (take (min count_abs (length s)) (shuffle env s)))))
                     else bull (s ! draw env 0 (length s)), st'))"

subsection \<open>Moving a member\<close>

definition smove :: "env \<Rightarrow> bytes list \<Rightarrow> 's store \<Rightarrow> 's result" where
  "smove env args st =
     (case args of
        [source, dest, member] \<Rightarrow>
          (case read_data env source st of
             (None, st1) \<Rightarrow> Ret (Integer 0, st1)
           | (Some d, st1) \<Rightarrow>
               (case as_set_mut d of
                  (_, None) \<Rightarrow> Ret (wrongtype, st1)
                | (_, Some s) \<Rightarrow>
                    (let (s', b) = hset_remove member s in
                     if \<not> b then Ret (Integer 0, st1)
                     else obind (store_set (e_now env) source (DSet s') None st1) (\<lambda>st2.
                       let (dd, st3) = read_data env dest st2 in
                       case as_set_mut (case dd of Some x \<Rightarrow> x | None \<Rightarrow> DSet []) of
                         (_, None) \<Rightarrow> Ret (wrongtype, st3)
                       | (_, Some t) \<Rightarrow>
                           obind (store_set (e_now env) dest (DSet (fst (hset_insert member t))) None st3)
                             (\<lambda>st4. Ret (Integer 1, st4))))))
      | _ \<Rightarrow> Ret (wrong_args ''smove'', st))"

subsection \<open>Algebra\<close>

datatype gathered = Missing | WrongKind | Sets "bytes list list"

fun gather_union :: "env \<Rightarrow> bytes list \<Rightarrow> bytes list \<Rightarrow> 's store \<Rightarrow> bytes list option \<times> 's store" where
  "gather_union env [] acc st = (Some acc, st)"
| "gather_union env (k # ks) acc st =
     (case read_data env k st of
        (None, st') \<Rightarrow> gather_union env ks acc st'
      | (Some d, st') \<Rightarrow>
          (case to_set_clone d of
             None \<Rightarrow> (None, st')
           | Some s \<Rightarrow> gather_union env ks (fold (\<lambda>x a. fst (hset_insert x a)) s acc) st'))"

fun gather_inter :: "env \<Rightarrow> bytes list \<Rightarrow> bytes list list \<Rightarrow> 's store \<Rightarrow> gathered \<times> 's store" where
  "gather_inter env [] acc st = (Sets acc, st)"
| "gather_inter env (k # ks) acc st =
     (case read_data env k st of
        (None, st') \<Rightarrow> (Missing, st')
      | (Some d, st') \<Rightarrow>
          (case to_set_clone d of
             None \<Rightarrow> (WrongKind, st')
           | Some s \<Rightarrow> gather_inter env ks (acc @ [s]) st'))"

fun gather_diff :: "env \<Rightarrow> nat \<Rightarrow> bytes list \<Rightarrow> bytes list list \<Rightarrow> 's store \<Rightarrow> gathered \<times> 's store" where
  "gather_diff env idx [] acc st = (Sets acc, st)"
| "gather_diff env idx (k # ks) acc st =
     (case read_data env k st of
        (None, st') \<Rightarrow> if idx = 0 then (Missing, st') else gather_diff env (Suc idx) ks (acc @ [[]]) st'
      | (Some d, st') \<Rightarrow>
          (case to_set_clone d of
             None \<Rightarrow> (WrongKind, st')
           | Some s \<Rightarrow> gather_diff env (Suc idx) ks (acc @ [s]) st'))"

text \<open>The index of the first shortest set.\<close>

definition min_idx :: "bytes list list \<Rightarrow> nat" where
  "min_idx sets = unwrap_or 0 (position (\<lambda>s. length s = Min (length ` set sets)) sets)"

definition inter_sets :: "bytes list list \<Rightarrow> bytes list" where
  "inter_sets sets =
     (if sets = [] then []
      else let mi = min_idx sets
           in fold (\<lambda>(i, s) r. if i = mi then r else filter (\<lambda>x. x \<in> set s) r) (enumerate 0 sets) (sets ! mi))"

definition diff_sets :: "bytes list list \<Rightarrow> bytes list" where
  "diff_sets sets =
     (case sets of
        [] \<Rightarrow> []
      | s # rest \<Rightarrow> fold (\<lambda>t r. filter (\<lambda>x. x \<notin> set t) r) rest s)"

definition sunion :: "env \<Rightarrow> bytes list \<Rightarrow> 's store \<Rightarrow> 's result" where
  "sunion env args st =
     (if args = [] then Ret (wrong_args ''sunion'', st)
      else case gather_union env args [] st of
             (None, st') \<Rightarrow> Ret (wrongtype, st')
           | (Some r, st') \<Rightarrow> Ret (Array (Some (map bull r)), st'))"

definition sinter :: "env \<Rightarrow> bytes list \<Rightarrow> 's store \<Rightarrow> 's result" where
  "sinter env args st =
     (if args = [] then Ret (wrong_args ''sinter'', st)
      else case gather_inter env args [] st of
             (WrongKind, st') \<Rightarrow> Ret (wrongtype, st')
           | (Missing, st') \<Rightarrow> Ret (Array (Some []), st')
           | (Sets sets, st') \<Rightarrow> Ret (Array (Some (map bull (inter_sets sets))), st'))"

definition sdiff :: "env \<Rightarrow> bytes list \<Rightarrow> 's store \<Rightarrow> 's result" where
  "sdiff env args st =
     (if args = [] then Ret (wrong_args ''sdiff'', st)
      else case gather_diff env 0 args [] st of
             (WrongKind, st') \<Rightarrow> Ret (wrongtype, st')
           | (Missing, st') \<Rightarrow> Ret (Array (Some []), st')
           | (Sets sets, st') \<Rightarrow> Ret (Array (Some (map bull (diff_sets sets))), st'))"

text \<open>Storing a result under the destination and answering its size.\<close>

definition store_members :: "env \<Rightarrow> bytes \<Rightarrow> bytes list \<Rightarrow> 's store \<Rightarrow> 's result" where
  "store_members env dest r st =
     obind (store_set (e_now env) dest (DSet r) None st) (\<lambda>st'. Ret (Integer (int (length r)), st'))"

definition sunionstore :: "env \<Rightarrow> bytes list \<Rightarrow> 's store \<Rightarrow> 's result" where
  "sunionstore env args st =
     (case args of
        dest # k # ks \<Rightarrow>
          (case gather_union env (k # ks) [] st of
             (None, st') \<Rightarrow> Ret (wrongtype, st')
           | (Some r, st') \<Rightarrow> store_members env dest r st')
      | _ \<Rightarrow> Ret (wrong_args ''sunionstore'', st))"

definition sinterstore :: "env \<Rightarrow> bytes list \<Rightarrow> 's store \<Rightarrow> 's result" where
  "sinterstore env args st =
     (case args of
        dest # k # ks \<Rightarrow>
          (case gather_inter env (k # ks) [] st of
             (WrongKind, st') \<Rightarrow> Ret (wrongtype, st')
           | (Missing, st') \<Rightarrow> store_members env dest [] st'
           | (Sets sets, st') \<Rightarrow> store_members env dest (inter_sets sets) st')
      | _ \<Rightarrow> Ret (wrong_args ''sinterstore'', st))"

definition sdiffstore :: "env \<Rightarrow> bytes list \<Rightarrow> 's store \<Rightarrow> 's result" where
  "sdiffstore env args st =
     (case args of
        dest # k # ks \<Rightarrow>
          (case gather_diff env 0 (k # ks) [] st of
             (WrongKind, st') \<Rightarrow> Ret (wrongtype, st')
           | (Missing, st') \<Rightarrow> store_members env dest [] st'
           | (Sets sets, st') \<Rightarrow> store_members env dest (diff_sets sets) st')
      | _ \<Rightarrow> Ret (wrong_args ''sdiffstore'', st))"

text \<open>Counting the candidates of the shortest set, up to the limit.\<close>

fun count_inter :: "bytes list list \<Rightarrow> nat \<Rightarrow> nat option \<Rightarrow> bytes list \<Rightarrow> nat \<Rightarrow> nat" where
  "count_inter sets mi limit [] count = count"
| "count_inter sets mi limit (c # cs) count =
     (if list_all (\<lambda>(i, s). i = mi \<or> c \<in> set s) (enumerate 0 sets)
      then (case limit of
              Some lim \<Rightarrow> if count + 1 \<ge> lim then count + 1 else count_inter sets mi limit cs (count + 1)
            | None \<Rightarrow> count_inter sets mi limit cs (count + 1))
      else count_inter sets mi limit cs count)"

fun card_options :: "bytes list \<Rightarrow> nat option \<Rightarrow> nat option option" where
  "card_options [] limit = Some limit"
| "card_options (a # rest) limit =
     (if to_upper (utf8_or_empty a) = ascii ''LIMIT'' then
        (case rest of [] \<Rightarrow> Some limit | v # rest' \<Rightarrow> card_options rest' (bytes_u64 v))
      else None)"

definition sintercard :: "env \<Rightarrow> bytes list \<Rightarrow> 's store \<Rightarrow> 's result" where
  "sintercard env args st =
     (case args of
        n # k # ks \<Rightarrow>
          (case bytes_u64 n of
             None \<Rightarrow> Ret (not_int, st)
           | Some numkeys \<Rightarrow>
               (let last = wrap_u64 (1 + numkeys) in
                if numkeys = 0 then Ret (not_int, st)
                else if length args < last then Ret (wrong_args ''sintercard'', st)
                else if last < 1 then Panic
                else case card_options (drop last args) None of
                  None \<Rightarrow> Ret (syntax_error, st)
                | Some limit \<Rightarrow>
                    (case gather_inter env (take numkeys (k # ks)) [] st of
                       (WrongKind, st') \<Rightarrow> Ret (wrongtype, st')
                     | (Missing, st') \<Rightarrow> Ret (Integer 0, st')
                     | (Sets sets, st') \<Rightarrow>
                         Ret (Integer (int (if sets = [] then 0
                           else count_inter sets (min_idx sets) limit (sets ! min_idx sets) 0)), st'))))
      | _ \<Rightarrow> Ret (wrong_args ''sintercard'', st))"

subsection \<open>Iteration\<close>

record scan_opts =
  sc_pattern :: "bytes option"
  sc_count :: nat

fun scan_options :: "bytes list \<Rightarrow> scan_opts \<Rightarrow> RespValue + scan_opts" where
  "scan_options [] so = Inr so"
| "scan_options (a # rest) so =
     (let opt = map_option to_upper (from_utf8 a) in
      if opt = Some (ascii ''MATCH'') then
        (case rest of
           [] \<Rightarrow> Inl syntax_error
         | p # rest' \<Rightarrow> scan_options rest' (so\<lparr>sc_pattern := from_utf8 p\<rparr>))
      else if opt = Some (ascii ''COUNT'') then
        (case rest of
           [] \<Rightarrow> Inl syntax_error
         | c # rest' \<Rightarrow>
             (let count = unwrap_or 0 (bytes_u64 c) in
              if count = 0 then Inl not_int else scan_options rest' (so\<lparr>sc_count := count\<rparr>)))
      else Inl syntax_error)"

definition scan_filter :: "bytes option \<Rightarrow> bytes list \<Rightarrow> bytes list" where
  "scan_filter pattern ms =
     (case pattern of
        None \<Rightarrow> ms
      | Some pat \<Rightarrow>
          (case split_once 42 pat of
             Some (prefix, suffix) \<Rightarrow>
               filter (\<lambda>m. starts_with (utf8_or_empty m) prefix \<and> ends_with (utf8_or_empty m) suffix) ms
           | None \<Rightarrow> filter (\<lambda>m. utf8_or_empty m = pat) ms))"

text \<open>One page of the sorted members and the next cursor; the sum of cursor and count may wrap.\<close>

definition scan_page :: "nat \<Rightarrow> nat \<Rightarrow> bytes list \<Rightarrow> nat \<times> bytes list" where
  "scan_page cursor count ms =
     (let next = wrap_u64 (cursor + count)
      in (if next \<ge> length ms then 0 else next, take count (drop cursor ms)))"

definition sscan :: "env \<Rightarrow> bytes list \<Rightarrow> 's store \<Rightarrow> 's result" where
  "sscan env args st =
     (case args of
        key # c # opts \<Rightarrow>
          (case bytes_u64 c of
             None \<Rightarrow> Ret (not_int, st)
           | Some cursor \<Rightarrow>
               (case scan_options opts \<lparr>sc_pattern = None, sc_count = 10\<rparr> of
                  Inl err \<Rightarrow> Ret (err, st)
                | Inr so \<Rightarrow>
                    (case read_data env key st of
                       (None, st') \<Rightarrow> Ret (Array (Some [bull (ascii ''0''), Array (Some [])]), st')
                     | (Some d, st') \<Rightarrow>
                         Ret (case to_set_clone d of
                                None \<Rightarrow> wrongtype
                              | Some s \<Rightarrow>
                                  (let (next, page) = scan_page cursor (sc_count so) (scan_filter (sc_pattern so) (sort s))
                                   in Array (Some [bull (show_nat next), Array (Some (map bull page))])), st'))))
      | _ \<Rightarrow> Ret (wrong_args ''sscan'', st))"

subsection \<open>The dispatcher\<close>

definition set_handle :: "env \<Rightarrow> bytes list \<Rightarrow> 's store \<Rightarrow> 's result" where
  "set_handle env args st =
     (case args of
        [] \<Rightarrow> Ret (Error (ascii ''ERR wrong number of arguments''), st)
      | name # rest \<Rightarrow>
          (case from_utf8 name of
             None \<Rightarrow> Ret (Error (ascii ''ERR invalid command name''), st)
           | Some s \<Rightarrow>
               (let cmd = to_upper s in
                if cmd = ascii ''SADD'' then sadd env rest st
                else if cmd = ascii ''SMEMBERS'' then smembers env rest st
                else if cmd = ascii ''SISMEMBER'' then sismember env rest st
                else if cmd = ascii ''SMISMEMBER'' then smismember env rest st
                else if cmd = ascii ''SCARD'' then scard env rest st
                else if cmd = ascii ''SREM'' then srem env rest st
                else if cmd = ascii ''SPOP'' then spop env rest st
                else if cmd = ascii ''SRANDMEMBER'' then srandmember env rest st
                else if cmd = ascii ''SMOVE'' then smove env rest st
                else if cmd = ascii ''SUNION'' then sunion env rest st
                else if cmd = ascii ''SINTER'' then sinter env rest st
                else if cmd = ascii ''SDIFF'' then sdiff env rest st
                else if cmd = ascii ''SUNIONSTORE'' then sunionstore env rest st
                else if cmd = ascii ''SINTERSTORE'' then sinterstore env rest st
                else if cmd = ascii ''SDIFFSTORE'' then sdiffstore env rest st
                else if cmd = ascii ''SSCAN'' then sscan env rest st
                else if cmd = ascii ''SINTERCARD'' then sintercard env rest st
                else Ret (Error (ascii ''ERR unknown command '' @ [39] @ cmd @ [39]), st))))"

end
