(* ===== verification/Set_Props.thy ===== *)
theory Set_Props
  imports Cmd_Set
begin

text \<open>
  What the set commands do to the sets a client sees: the algebra commands compute unions,
  intersections and differences, the updates change one set, iteration with SSCAN lists every
  member once, and the paths that lose a member, panic or answer the wrong error.
\<close>

subsection \<open>The members of a key\<close>

text \<open>The members a client sees under a key: none if the key is absent, undefined for other types.\<close>

definition key_set :: "env \<Rightarrow> 's store \<Rightarrow> bytes \<Rightarrow> bytes set option" where
  "key_set env st k =
     (case live (e_now env) (kmap st) k of None \<Rightarrow> Some {} | Some e \<Rightarrow> data_set (data e))"

lemma key_set_cong: "live (e_now env) (kmap st') = live (e_now env) (kmap st) \<Longrightarrow> key_set env st' = key_set env st"
  by (rule ext) (simp add: key_set_def)

subsection \<open>Algebra\<close>

lemma gather_union_spec:
  assumes "store_wf st" "\<forall>k \<in> set ks. key_set env st k \<noteq> None" "distinct acc"
  shows "\<exists>r st'. gather_union env ks acc st = (Some r, st') \<and> distinct r
    \<and> set r = set acc \<union> (\<Union>k \<in> set ks. the (key_set env st k))
    \<and> live (e_now env) (kmap st') = live (e_now env) (kmap st) \<and> store_wf st'"
  using assms
proof (induction ks arbitrary: acc st)
  case Nil
  then show ?case by simp
next
  case (Cons k ks)
  show ?case
  proof (cases rule: read_data_cases [of env k st])
    case (absent st')
    then have "key_set env st' = key_set env st" "key_set env st k = Some {}"
      by (auto intro: key_set_cong simp: key_set_def)
    then show ?thesis using Cons.IH [of st' acc] Cons.prems absent by auto
  next
    case (present e)
    then obtain s where s: "to_set_clone (data e) = Some s" "data_set (data e) = Some (set s)"
      using Cons.prems live_data_wf [OF Cons.prems(1) present(2)]
      by (auto simp: key_set_def data_set_clone)
    let ?acc = "fold (\<lambda>x a. fst (hset_insert x a)) s acc"
    have a: "distinct ?acc" "set ?acc = set acc \<union> set s"
      using fold_hset_insert [of s acc] Cons.prems(3) by auto
    obtain r st' where "gather_union env ks ?acc st = (Some r, st')" "distinct r"
      "set r = set ?acc \<union> (\<Union>k \<in> set ks. the (key_set env st k))"
      "live (e_now env) (kmap st') = live (e_now env) (kmap st)" "store_wf st'"
      using Cons.IH [of st ?acc] Cons.prems a(1) by auto
    then show ?thesis using present s a by (auto simp: key_set_def)
  qed
qed

lemma gather_inter_spec:
  assumes "store_wf st" "\<forall>k \<in> set ks. key_set env st k \<noteq> None"
  shows "\<exists>g st'. gather_inter env ks acc st = (g, st')
    \<and> live (e_now env) (kmap st') = live (e_now env) (kmap st) \<and> store_wf st'
    \<and> (case g of
         Missing \<Rightarrow> \<exists>k \<in> set ks. key_set env st k = Some {}
       | WrongKind \<Rightarrow> False
       | Sets ss \<Rightarrow> \<exists>sets. ss = acc @ sets \<and> list_all2 (\<lambda>s k. key_set env st k = Some (set s) \<and> distinct s) sets ks)"
  using assms
proof (induction ks arbitrary: acc)
  case Nil
  then show ?case by simp
next
  case (Cons k ks)
  show ?case
  proof (cases rule: read_data_cases [of env k st])
    case (absent st')
    then have "key_set env st k = Some {}" by (simp add: key_set_def)
    then show ?thesis using absent Cons.prems by auto
  next
    case (present e)
    then obtain s where s: "to_set_clone (data e) = Some s" "data_set (data e) = Some (set s)" "distinct s"
      using Cons.prems live_data_wf [OF Cons.prems(1) present(2)] to_set_clone_distinct
      by (auto simp: key_set_def data_set_clone)
    have k: "key_set env st k = Some (set s)" using present s(2) by (simp add: key_set_def)
    have g: "gather_inter env (k # ks) acc st = gather_inter env ks (acc @ [s]) st" using present s(1) by simp
    obtain g st' where IH: "gather_inter env ks (acc @ [s]) st = (g, st')"
      "live (e_now env) (kmap st') = live (e_now env) (kmap st)" "store_wf st'"
      "case g of
         Missing \<Rightarrow> \<exists>k \<in> set ks. key_set env st k = Some {}
       | WrongKind \<Rightarrow> False
       | Sets ss \<Rightarrow> \<exists>sets. ss = (acc @ [s]) @ sets \<and> list_all2 (\<lambda>s k. key_set env st k = Some (set s) \<and> distinct s) sets ks"
      using Cons.IH [of "acc @ [s]"] Cons.prems by (meson list.set_intros(2))
    show ?thesis
    proof (cases g)
      case (Sets ss)
      then obtain sets where "ss = acc @ (s # sets)"
        "list_all2 (\<lambda>s k. key_set env st k = Some (set s) \<and> distinct s) (s # sets) (k # ks)"
        using IH(4) k s(3) by auto
      then show ?thesis unfolding g IH(1) Sets using IH(2,3) by auto
    qed (use IH g in auto)
  qed
qed

text \<open>The first of the sets is given at the start, so no key after it counts as absent.\<close>

lemma gather_diff_rest:
  assumes "store_wf st" "\<forall>k \<in> set ks. key_set env st k \<noteq> None" "0 < idx"
  shows "\<exists>sets st'. gather_diff env idx ks acc st = (Sets (acc @ sets), st')
    \<and> live (e_now env) (kmap st') = live (e_now env) (kmap st) \<and> store_wf st'
    \<and> list_all2 (\<lambda>s k. key_set env st k = Some (set s)) sets ks"
  using assms
proof (induction ks arbitrary: acc st idx)
  case Nil
  then show ?case by simp
next
  case (Cons k ks)
  show ?case
  proof (cases rule: read_data_cases [of env k st])
    case (absent st')
    then have e: "key_set env st' = key_set env st" "key_set env st k = Some {}"
      by (auto intro: key_set_cong simp: key_set_def)
    obtain sets st'' where "gather_diff env (Suc idx) ks (acc @ [[]]) st' = (Sets ((acc @ [[]]) @ sets), st'')"
      "live (e_now env) (kmap st'') = live (e_now env) (kmap st)" "store_wf st''"
      "list_all2 (\<lambda>s k. key_set env st k = Some (set s)) sets ks"
      using Cons.IH [of st' "Suc idx" "acc @ [[]]"] Cons.prems absent(3,4) e by auto
    then show ?thesis using absent(1) Cons.prems(3) e(2)
      by (intro exI [of _ "[] # sets"] exI [of _ st'']) simp
  next
    case (present e)
    then obtain s where s: "to_set_clone (data e) = Some s" "data_set (data e) = Some (set s)"
      using Cons.prems live_data_wf [OF Cons.prems(1) present(2)]
      by (auto simp: key_set_def data_set_clone)
    have k: "key_set env st k = Some (set s)" using present s(2) by (simp add: key_set_def)
    obtain sets st'' where "gather_diff env (Suc idx) ks (acc @ [s]) st = (Sets ((acc @ [s]) @ sets), st'')"
      "live (e_now env) (kmap st'') = live (e_now env) (kmap st)" "store_wf st''"
      "list_all2 (\<lambda>s k. key_set env st k = Some (set s)) sets ks"
      using Cons.IH [of st "Suc idx" "acc @ [s]"] Cons.prems by auto
    then show ?thesis using present(1) s(1) k
      by (intro exI [of _ "s # sets"] exI [of _ st'']) simp
  qed
qed

lemma min_idx_less: "sets \<noteq> [] \<Longrightarrow> min_idx sets < length sets"
proof -
  assume "sets \<noteq> []"
  then have "Min (length ` set sets) \<in> length ` set sets" by (intro Min_in) auto
  then have "position (\<lambda>s. length s = Min (length ` set sets)) sets \<noteq> None" by (auto simp: position_None_iff)
  then show ?thesis by (auto simp: min_idx_def dest: position_SomeD)
qed

lemma fold_retain:
  "fold (\<lambda>(i, s) r. if i = mi then r else filter (\<lambda>x. x \<in> set s) r) xs r
    = filter (\<lambda>x. list_all (\<lambda>(i, s). i = mi \<or> x \<in> set s) xs) r"
proof (induction xs arbitrary: r)
  case Nil
  then show ?case by simp
next
  case (Cons p xs)
  obtain i s where "p = (i, s)" by fastforce
  then show ?case using Cons.IH by (auto intro: filter_cong)
qed

lemma candidate_inter:
  assumes "mi < length sets" "x \<in> set (sets ! mi)"
  shows "list_all (\<lambda>(i, s). i = mi \<or> x \<in> set s) (enumerate 0 sets) \<longleftrightarrow> x \<in> (\<Inter>s \<in> set sets. set s)"
proof -
  have "list_all (\<lambda>(i, s). i = mi \<or> x \<in> set s) (enumerate 0 sets)
      \<longleftrightarrow> (\<forall>i < length sets. i = mi \<or> x \<in> set (sets ! i))"
    by (auto simp: list_all_iff in_set_enumerate_eq)
  also have "\<dots> \<longleftrightarrow> (\<forall>i < length sets. x \<in> set (sets ! i))" using assms by blast
  also have "\<dots> \<longleftrightarrow> x \<in> (\<Inter>s \<in> set sets. set s)" by (simp add: all_set_conv_all_nth)
  finally show ?thesis .
qed

text \<open>Starting from the shortest set gives the intersection of all.\<close>

lemma inter_sets_filter:
  assumes "sets \<noteq> []"
  shows "inter_sets sets = filter (\<lambda>x. x \<in> (\<Inter>s \<in> set sets. set s)) (sets ! min_idx sets)"
  unfolding inter_sets_def Let_def fold_retain
  using assms candidate_inter [OF min_idx_less [OF assms]] by (auto intro: filter_cong)

lemma inter_sets_spec:
  assumes "sets \<noteq> []" "\<forall>s \<in> set sets. distinct s"
  shows "set (inter_sets sets) = (\<Inter>s \<in> set sets. set s) \<and> distinct (inter_sets sets)"
  using assms min_idx_less [OF assms(1)] by (auto simp: inter_sets_filter)

lemma diff_sets_spec:
  "distinct s \<Longrightarrow> set (diff_sets (s # rest)) = set s - (\<Union>t \<in> set rest. set t) \<and> distinct (diff_sets (s # rest))"
proof -
  have "set (fold (\<lambda>t r. filter (\<lambda>x. x \<notin> set t) r) rest s) = set s - (\<Union>t \<in> set rest. set t)
      \<and> (distinct s \<longrightarrow> distinct (fold (\<lambda>t r. filter (\<lambda>x. x \<notin> set t) r) rest s))"
    by (induction rest arbitrary: s) auto
  then show "distinct s \<Longrightarrow> ?thesis" by (simp add: diff_sets_def)
qed

lemma count_inter_filter:
  "count_inter sets mi limit cs n =
    (let m = n + length (filter (\<lambda>x. list_all (\<lambda>(i, s). i = mi \<or> x \<in> set s) (enumerate 0 sets)) cs)
     in case limit of None \<Rightarrow> m | Some lim \<Rightarrow> if n < lim then min lim m else min (Suc n) m)"
proof (induction cs arbitrary: n)
  case Nil
  then show ?case by (simp split: option.split)
next
  case (Cons c cs)
  show ?case using Cons.IH [of "n + 1"] Cons.IH [of n]
    by (auto simp: Let_def min_def split: option.splits if_splits)
qed

lemma count_inter_spec:
  assumes "sets \<noteq> []" "\<forall>s \<in> set sets. distinct s"
  shows "count_inter sets (min_idx sets) limit (sets ! min_idx sets) 0
    = (let n = card (\<Inter>s \<in> set sets. set s) in case limit of None \<Rightarrow> n | Some lim \<Rightarrow> min (max lim 1) n)"
proof -
  have "length (filter (\<lambda>x. list_all (\<lambda>(i, s). i = min_idx sets \<or> x \<in> set s) (enumerate 0 sets)) (sets ! min_idx sets))
      = length (inter_sets sets)"
    unfolding inter_sets_def Let_def fold_retain using assms(1) by simp
  also have "\<dots> = card (\<Inter>s \<in> set sets. set s)"
    using inter_sets_spec [OF assms] distinct_card by metis
  finally show ?thesis by (simp add: count_inter_filter Let_def split: option.split)
qed

text \<open>A key holds a plain set without expiry.\<close>

definition holds_set :: "'s store \<Rightarrow> bytes \<Rightarrow> bytes set \<Rightarrow> bool" where
  "holds_set st k X \<longleftrightarrow> (\<exists>e s. kmap st k = Some e \<and> data e = DSet s \<and> distinct s \<and> set s = X \<and> expires_at e = None)"

lemma holds_set_put: "distinct s \<Longrightarrow> store_set now k (DSet s) None st = Ret st' \<Longrightarrow> holds_set st' k (set s)"
  unfolding store_set_Ret holds_set_def by (auto simp: dict_simps)

lemma store_members_spec:
  assumes "distinct r" "set r = X"
  shows "\<exists>st'. store_members env dest r st = Ret (Integer (int (card X)), st') \<and> holds_set st' dest X"
proof -
  obtain st' where "store_set (e_now env) dest (DSet r) None st = Ret st'" by (simp add: store_set_Ret)
  then show ?thesis
    using holds_set_put [OF assms(1)] assms(2) distinct_card [OF assms(1)] by (simp add: store_members_def)
qed

lemma sunion_spec:
  assumes "store_wf st" "ks \<noteq> []" "\<forall>k \<in> set ks. key_set env st k = Some (A k)"
  shows "(\<exists>r st'. sunion env ks st = Ret (Array (Some (map bull r)), st') \<and> distinct r \<and> set r = (\<Union>k \<in> set ks. A k))
    \<and> (\<exists>st'. sunionstore env (dest # ks) st = Ret (Integer (int (card (\<Union>k \<in> set ks. A k))), st')
        \<and> holds_set st' dest (\<Union>k \<in> set ks. A k))"
proof -
  obtain r st' where r: "gather_union env ks [] st = (Some r, st')" "distinct r" "set r = (\<Union>k \<in> set ks. A k)"
    using gather_union_spec [OF assms(1), of ks env "[]"] assms(3) by auto
  have "sunionstore env (dest # ks) st = store_members env dest r st'"
    using r(1) assms(2) by (cases ks) (simp_all add: sunionstore_def)
  then show ?thesis
    using store_members_spec [OF r(2,3), of env dest st'] r assms(2) by (auto simp: sunion_def)
qed

lemma sinter_gathered [consumes 3]:
  assumes "store_wf st" "ks \<noteq> []" "\<forall>k \<in> set ks. key_set env st k = Some (A k)"
  obtains (missing) st' where "gather_inter env ks [] st = (Missing, st')" "(\<Inter>k \<in> set ks. A k) = {}"
  | (sets) st' sets where "gather_inter env ks [] st = (Sets sets, st')" "sets \<noteq> []" "\<forall>s \<in> set sets. distinct s"
      "(\<Inter>s \<in> set sets. set s) = (\<Inter>k \<in> set ks. A k)"
proof -
  obtain g st' where g: "gather_inter env ks [] st = (g, st')"
    "case g of
         Missing \<Rightarrow> \<exists>k \<in> set ks. key_set env st k = Some {}
       | WrongKind \<Rightarrow> False
       | Sets ss \<Rightarrow> \<exists>sets. ss = [] @ sets \<and> list_all2 (\<lambda>s k. key_set env st k = Some (set s) \<and> distinct s) sets ks"
    using gather_inter_spec [OF assms(1), of ks env "[]"] assms(3) by auto
  show ?thesis
  proof (cases g)
    case Missing
    then have "(\<Inter>k \<in> set ks. A k) = {}" using g(2) assms(3) by fastforce
    then show ?thesis using g(1) Missing missing by simp
  next
    case (Sets ss)
    then have l: "list_all2 (\<lambda>s k. key_set env st k = Some (set s) \<and> distinct s) ss ks" using g(2) by simp
    then have m: "map set ss = map A ks" "\<forall>s \<in> set ss. distinct s"
      using assms(3) by (induction rule: list_all2_induct) auto
    then have "set ` set ss = A ` set ks" by (metis list.set_map)
    moreover have "ss \<noteq> []" using l assms(2) by auto
    ultimately show ?thesis using g(1) Sets m(2) sets [of ss st'] by simp
  qed (use g in simp)
qed

lemma sinter_spec:
  assumes "store_wf st" "ks \<noteq> []" "\<forall>k \<in> set ks. key_set env st k = Some (A k)"
  shows "(\<exists>r st'. sinter env ks st = Ret (Array (Some (map bull r)), st') \<and> distinct r \<and> set r = (\<Inter>k \<in> set ks. A k))
    \<and> (\<exists>st'. sinterstore env (dest # ks) st = Ret (Integer (int (card (\<Inter>k \<in> set ks. A k))), st')
        \<and> holds_set st' dest (\<Inter>k \<in> set ks. A k))"
proof -
  obtain r st' where r: "distinct r" "set r = (\<Inter>k \<in> set ks. A k)"
    and s: "sinterstore env (dest # ks) st = store_members env dest r st'" "sinter env ks st = Ret (Array (Some (map bull r)), st')"
    using assms
  proof (cases rule: sinter_gathered)
    case (missing st')
    then show ?thesis using that [of "[]" st'] assms(2) by (cases ks) (simp_all add: sinterstore_def sinter_def)
  next
    case (sets st' ss)
    have "set (inter_sets ss) = (\<Inter>k \<in> set ks. A k)" "distinct (inter_sets ss)"
      using inter_sets_spec [OF sets(2,3)] sets(4) by simp_all
    then show ?thesis using that [of "inter_sets ss" st'] sets(1) assms(2) by (cases ks) (simp_all add: sinterstore_def sinter_def)
  qed
  then show ?thesis using store_members_spec [OF r, of env dest st'] by auto
qed

lemma sdiff_spec:
  assumes "store_wf st" "\<forall>k \<in> set (k # ks). key_set env st k = Some (A k)"
  shows "(\<exists>r st'. sdiff env (k # ks) st = Ret (Array (Some (map bull r)), st') \<and> distinct r \<and> set r = A k - (\<Union>k \<in> set ks. A k))
    \<and> (\<exists>st'. sdiffstore env (dest # k # ks) st = Ret (Integer (int (card (A k - (\<Union>k \<in> set ks. A k)))), st')
        \<and> holds_set st' dest (A k - (\<Union>k \<in> set ks. A k)))"
proof -
  obtain r st' g where g: "gather_diff env 0 (k # ks) [] st = (g, st')" and r: "distinct r" "set r = A k - (\<Union>k \<in> set ks. A k)"
    and "g = Missing \<and> r = [] \<or> (\<exists>sets. g = Sets sets \<and> r = diff_sets sets)"
  proof (cases rule: read_data_cases [of env k st])
    case (absent st')
    then have "A k = {}" using assms(2) by (simp add: key_set_def)
    then show ?thesis using that [of Missing st' "[]"] absent(1) by simp
  next
    case (present e)
    then obtain s where s: "to_set_clone (data e) = Some s" "data_set (data e) = Some (set s)" "distinct s"
      using assms live_data_wf [OF assms(1) present(2)] to_set_clone_distinct
      by (auto simp: key_set_def data_set_clone)
    have "A k = set s" using assms(2) present s(2) by (simp add: key_set_def)
    obtain sets st' where d: "gather_diff env (Suc 0) ks [s] st = (Sets ([s] @ sets), st')"
      "list_all2 (\<lambda>s k. key_set env st k = Some (set s)) sets ks"
      using gather_diff_rest [OF assms(1), of ks env "Suc 0" "[s]"] assms(2) by auto
    have "map set sets = map A ks"
      using d(2) assms(2) by (induction rule: list_all2_induct) auto
    then have "set ` set sets = A ` set ks" by (metis list.set_map)
    then show ?thesis
      using that [of "Sets (s # sets)" st' "diff_sets (s # sets)"] diff_sets_spec [OF s(3), of sets] d(1) present(1) s(1) \<open>A k = set s\<close>
      by auto
  qed
  then have "sdiffstore env (dest # k # ks) st = store_members env dest r st'" "sdiff env (k # ks) st = Ret (Array (Some (map bull r)), st')"
    by (auto simp: sdiffstore_def sdiff_def)
  then show ?thesis using store_members_spec [OF r, of env dest st'] r by auto
qed

lemma sintercard_spec:
  assumes "store_wf st" "ks \<noteq> []" "\<forall>k \<in> set ks. key_set env st k = Some (A k)" "Suc (length ks) < 2 ^ 64" "lim < 2 ^ 64"
  shows "\<exists>st'. sintercard env (show_nat (length ks) # ks) st = Ret (Integer (int (card (\<Inter>k \<in> set ks. A k))), st')
    \<and> sintercard env (show_nat (length ks) # ks @ [ascii ''LIMIT'', show_nat lim]) st
        = Ret (Integer (int (min (max lim 1) (card (\<Inter>k \<in> set ks. A k)))), st')"
proof -
  obtain k ks' where k: "ks = k # ks'" using assms(2) by (cases ks) auto
  have n: "bytes_u64 (show_nat (length ks)) = Some (length ks)" "wrap_u64 (1 + length ks) = Suc (length ks)"
    using assms(4) by (simp_all add: bytes_u64_show_nat wrap_u64_def)
  have lim: "card_options [ascii ''LIMIT'', show_nat lim] None = Some (Some lim)"
    using bytes_u64_show_nat [OF assms(5)] by (simp add: utf8_or_empty_def ascii_def to_upper_def upper_byte_def)
  have run: "sintercard env (show_nat (length ks) # ks @ opts) st =
      (case gather_inter env ks [] st of
         (WrongKind, st') \<Rightarrow> Ret (wrongtype, st')
       | (Missing, st') \<Rightarrow> Ret (Integer 0, st')
       | (Sets sets, st') \<Rightarrow> Ret (Integer (int (if sets = [] then 0
           else count_inter sets (min_idx sets) limit (sets ! min_idx sets) 0)), st'))"
    if "card_options opts None = Some limit" for opts limit
  proof -
    have "take (length ks) (k # ks' @ opts) = ks" by (simp add: k)
    then show ?thesis using n that by (simp add: sintercard_def k del: gather_inter.simps take_Suc_Cons)
  qed
  from assms(1-3) show ?thesis
  proof (cases rule: sinter_gathered)
    case (missing st')
    then show ?thesis using run [OF lim] run [of "[]" None] by simp
  next
    case (sets st' ss)
    have "count_inter ss (min_idx ss) None (ss ! min_idx ss) 0 = card (\<Inter>k \<in> set ks. A k)"
      "count_inter ss (min_idx ss) (Some lim) (ss ! min_idx ss) 0 = min (max lim 1) (card (\<Inter>k \<in> set ks. A k))"
      using count_inter_spec [OF sets(2,3)] sets(4) by simp_all
    then show ?thesis using run [OF lim] run [of "[]" None] sets(1,2) by simp
  qed
qed

text \<open>
  C29. The set algebra is that of sets: for keys that are absent or hold sets, SUNION, SINTER and
  SDIFF answer the union, the intersection and the difference of the sets without repetition,
  although SINTER starts from a shortest set; the storing forms put exactly that set under the
  destination, without expiry, and answer its size. SINTERCARD answers the size of the
  intersection, cut off at the limit (a limit of zero acts as one).
\<close>

theorem set_algebra:
  fixes A :: "bytes \<Rightarrow> bytes set" and st :: "'s store"
  assumes "store_wf st" "\<forall>k' \<in> set (k # ks). key_set env st k' = Some (A k')"
    and "length ks < 2 ^ 63" "lim < 2 ^ 64"
  shows "(\<exists>r st'. sunion env (k # ks) st = Ret (Array (Some (map bull r)), st') \<and> distinct r \<and> set r = (\<Union>k' \<in> set (k # ks). A k'))
    \<and> (\<exists>r st'. sinter env (k # ks) st = Ret (Array (Some (map bull r)), st') \<and> distinct r \<and> set r = (\<Inter>k' \<in> set (k # ks). A k'))
    \<and> (\<exists>r st'. sdiff env (k # ks) st = Ret (Array (Some (map bull r)), st') \<and> distinct r \<and> set r = A k - (\<Union>k' \<in> set ks. A k'))
    \<and> (\<exists>st'. sunionstore env (dest # k # ks) st = Ret (Integer (int (card (\<Union>k' \<in> set (k # ks). A k'))), st')
         \<and> holds_set st' dest (\<Union>k' \<in> set (k # ks). A k'))
    \<and> (\<exists>st'. sinterstore env (dest # k # ks) st = Ret (Integer (int (card (\<Inter>k' \<in> set (k # ks). A k'))), st')
         \<and> holds_set st' dest (\<Inter>k' \<in> set (k # ks). A k'))
    \<and> (\<exists>st'. sdiffstore env (dest # k # ks) st = Ret (Integer (int (card (A k - (\<Union>k' \<in> set ks. A k')))), st')
         \<and> holds_set st' dest (A k - (\<Union>k' \<in> set ks. A k')))
    \<and> (\<exists>st'. sintercard env (show_nat (length (k # ks)) # (k # ks)) st = Ret (Integer (int (card (\<Inter>k' \<in> set (k # ks). A k'))), st')
         \<and> sintercard env (show_nat (length (k # ks)) # (k # ks) @ [ascii ''LIMIT'', show_nat lim]) st
             = Ret (Integer (int (min (max lim 1) (card (\<Inter>k' \<in> set (k # ks). A k')))), st'))"
proof -
  have n: "k # ks \<noteq> []" "Suc (length (k # ks)) < 2 ^ 64" using assms(3) by simp_all
  note u = sunion_spec [OF assms(1) n(1) assms(2), of dest] and i = sinter_spec [OF assms(1) n(1) assms(2), of dest]
    and d = sdiff_spec [OF assms(1,2), of dest] and c = sintercard_spec [OF assms(1) n(1) assms(2) n(2) assms(4)]
  show ?thesis
    by (rule conjI [OF conjunct1 [OF u] conjI [OF conjunct1 [OF i] conjI [OF conjunct1 [OF d]
        conjI [OF conjunct2 [OF u] conjI [OF conjunct2 [OF i] conjI [OF conjunct2 [OF d] c]]]]]])
qed

theorem set_algebra_witness:
  "\<exists>r st'. sinter env0 [[1], [2]] (store_new\<lparr>keyspace := [([1], fresh_entry (DSet [[7], [8]])), ([2], fresh_entry (DSet [[8]]))]\<rparr> :: nat store)
      = Ret (Array (Some (map bull r)), st') \<and> distinct r \<and> set r = {[8]}"
proof -
  let ?st = "store_new\<lparr>keyspace := [([1], fresh_entry (DSet [[7], [8]])), ([2], fresh_entry (DSet [[8]]))]\<rparr> :: nat store"
  let ?A = "\<lambda>k. if k = [1] then {[7], [8]} else {[8 :: byte]}"
  have wf: "store_wf ?st" by (auto simp: store_wf_def dict_wf_def split: if_splits)
  have k: "\<forall>k' \<in> set ([1] # [[2]]). key_set env0 ?st k' = Some (?A k')"
    by (simp add: key_set_def live_def is_expired_def)
  have l: "length [[2 :: byte]] < 2 ^ 63" "(0 :: nat) < 2 ^ 64" by simp_all
  have i: "(\<Inter>k' \<in> set ([1 :: byte] # [[2]]). ?A k') = {[8]}" by auto
  show ?thesis using set_algebra [OF wf k l, of "[]", unfolded i] by blast
qed

subsection \<open>Updates\<close>

lemma set_add_all_eq: "set_add_all ms s n = (fst (hashset.add_all ms s), n + int (snd (hashset.add_all ms s)))"
  by (induction ms arbitrary: s n) (auto simp: Let_def split: prod.splits)

lemma set_remove_all_eq: "set_remove_all ms s n = (fst (hashset.rem_all ms s), n + int (snd (hashset.rem_all ms s)))"
  by (induction ms arbitrary: s n) (auto simp: Let_def split: prod.splits)

lemma intset_add_all_eq:
  "list_all (\<lambda>m. bytes_i64 m \<noteq> None) ms \<Longrightarrow> intset_add_all ms s n
    = (fst (intset_set.add_all (map (the \<circ> bytes_i64) ms) s), n + int (snd (intset_set.add_all (map (the \<circ> bytes_i64) ms) s)))"
  by (induction ms arbitrary: s n) (auto simp: Let_def split: prod.splits)

lemma store_set_sees:
  assumes "store_set (e_now env) k d None st = Ret st'"
  shows "key_set env st' k = data_set d"
    "k' \<noteq> k \<Longrightarrow> live (e_now env) (kmap st') k' = live (e_now env) (kmap st) k'"
    "\<exists>e. kmap st' k = Some e \<and> data e = d \<and> expires_at e = None"
  by (simp_all add: store_set_map [OF assms] key_set_def live_def is_expired_def)

text \<open>The text under which a packed integer set lists a member.\<close>

definition canonical :: "bytes \<Rightarrow> bytes" where
  "canonical m = (case bytes_i64 m of Some v \<Rightarrow> show_int v | None \<Rightarrow> m)"

definition packs :: "env \<Rightarrow> 's store \<Rightarrow> bytes \<Rightarrow> bytes list \<Rightarrow> bool" where
  "packs env st k ms \<longleftrightarrow> list_all (\<lambda>m. bytes_i64 m \<noteq> None) ms
     \<and> (case live (e_now env) (kmap st) k of None \<Rightarrow> True | Some e \<Rightarrow> (\<exists>s. data e = DIntSet s))"

lemma intset_add_all_spec:
  assumes "intset_inv s" "list_all (\<lambda>m. bytes_i64 m \<noteq> None) ms"
  shows "\<exists>s' n. intset_add_all ms s 0 = (s', int n) \<and> intset_inv s'
    \<and> show_int ` set (intset_to_vec s') = show_int ` set (intset_to_vec s) \<union> canonical ` set ms
    \<and> n = card (canonical ` set ms - show_int ` set (intset_to_vec s))"
proof -
  let ?vs = "map (the \<circ> bytes_i64) ms"
  have ok: "\<forall>v \<in> set ?vs. i64_ok v"
    using assms(2) by (force simp: list_all_iff dest: bytes_i64_range)
  note a = intset_set.add_all_spec [OF assms(1) ok]
  have c: "canonical m = show_int (the (bytes_i64 m))" if "m \<in> set ms" for m
    using assms(2) that by (auto simp: canonical_def list_all_iff)
  have im: "show_int ` set ?vs = canonical ` set ms" using c by (auto simp: image_iff)
  have "\<forall>v \<in> set ?vs \<union> set (intset_to_vec s). i64_ok v"
    using ok intset_to_vec_i64 [OF assms(1)] by blast
  then have inj: "inj_on show_int (set ?vs \<union> set (intset_to_vec s))"
    using show_int_inj by (meson inj_onI)
  have "card (set ?vs - set (intset_to_vec s)) = card (show_int ` (set ?vs - set (intset_to_vec s)))"
    using inj by (metis Diff_subset card_image inj_on_subset sup.coboundedI1)
  also have "show_int ` (set ?vs - set (intset_to_vec s)) = canonical ` set ms - show_int ` set (intset_to_vec s)"
    using inj_on_image_set_diff [OF inj, of "set ?vs" "set (intset_to_vec s)"] im by auto
  finally have n: "card (set ?vs - set (intset_to_vec s)) = card (canonical ` set ms - show_int ` set (intset_to_vec s))" .
  show ?thesis using a n im unfolding intset_add_all_eq [OF assms(2)] by (auto simp: image_Un)
qed

lemma upgraded_wf: "intset_inv s \<Longrightarrow> data_wf (if b then upgrade_to_set (DIntSet s) else DIntSet s)
    \<and> data_set (if b then upgrade_to_set (DIntSet s) else DIntSet s) = Some (show_int ` set (intset_to_vec s))"
  using upgrade_to_set_data [of "DIntSet s"] by simp

text \<open>The set a value optionally present stands for.\<close>

definition starts :: "'s DataType option \<Rightarrow> bytes set \<Rightarrow> bool" where
  "starts d0 A \<longleftrightarrow> (case d0 of None \<Rightarrow> A = {} | Some d \<Rightarrow> data_wf d \<and> data_set d = Some A)"

lemma sadd_start_spec:
  assumes "starts d0 A"
  shows "data_wf (sadd_start d0 ms) \<and> data_set (sadd_start d0 ms) = Some A"
  using assms intset_new_inv intset_set.abs_emp upgrade_to_set_data [of "the d0"]
  by (cases d0) (auto simp: starts_def sadd_start_def Let_def)

lemma sadd_start_packs:
  assumes "starts d0 A"
  shows "(\<exists>s. sadd_start d0 ms = DIntSet s) \<longleftrightarrow> list_all (\<lambda>m. bytes_i64 m \<noteq> None) ms
     \<and> (case d0 of None \<Rightarrow> True | Some d \<Rightarrow> \<exists>s. d = DIntSet s)"
proof -
  have "upgrade_to_set d \<noteq> DIntSet s" for d :: "'a DataType" and s by (cases d) simp_all
  then show ?thesis by (auto simp: sadd_start_def Let_def split: option.split)
qed

lemma sadd_into_spec:
  assumes "data_wf d" "data_set d = Some A" "\<And>s. d = DIntSet s \<Longrightarrow> list_all (\<lambda>m. bytes_i64 m \<noteq> None) ms"
  shows "\<exists>d'. sadd_into ms d = Some (d', int (card ((if \<exists>s. d = DIntSet s then canonical ` set ms else set ms) - A)))
    \<and> data_wf d' \<and> data_set d' = Some (A \<union> (if \<exists>s. d = DIntSet s then canonical ` set ms else set ms))"
proof (cases d)
  case (DSet s)
  then have s: "distinct s" "A = set s" using assms(1,2) by simp_all
  show ?thesis using hashset.add_all_spec [OF s(1), of ms] s(2) DSet by (auto simp: set_add_all_eq Let_def)
next
  case (DIntSet s)
  then have s: "intset_inv s" "A = show_int ` set (intset_to_vec s)" using assms(1,2) by simp_all
  obtain s' n where a: "intset_add_all ms s 0 = (s', int n)" "intset_inv s'"
    "show_int ` set (intset_to_vec s') = A \<union> canonical ` set ms" "n = card (canonical ` set ms - A)"
    using intset_add_all_spec [OF s(1) assms(3) [OF DIntSet]] s(2) by auto
  show ?thesis
    using a upgraded_wf [OF a(2), where ?'a = 'a and b = "is_length s' > INTSET_THRESHOLD"] DIntSet by simp
qed (use assms(2) in simp_all)

lemma read_data_starts:
  assumes "store_wf st" "key_set env st k = Some A"
  obtains d0 st1 where "read_data env k st = (d0, st1)" "store_wf st1" "starts d0 A"
    "d0 = map_option data (live (e_now env) (kmap st) k)"
    "live (e_now env) (kmap st1) = live (e_now env) (kmap st)"
proof (cases rule: read_data_cases [of env k st])
  case (absent st')
  moreover have "starts (None :: 'a DataType option) A" using absent(2) assms(2) by (simp add: key_set_def starts_def)
  ultimately show ?thesis using assms(1) by (intro that [of None st']) simp_all
next
  case (present e)
  moreover have "starts (Some (data e)) A"
    using present(2) assms(2) live_data_wf [OF assms(1) present(2)] by (simp add: key_set_def starts_def)
  ultimately show ?thesis using assms(1) by (intro that [of "Some (data e)" st]) simp_all
qed

lemma sadd_spec:
  assumes "store_wf st" "key_set env st k = Some A" "ms \<noteq> []"
  shows "\<exists>st'. sadd env (k # ms) st = Ret (Integer (int (card ((if packs env st k ms then canonical ` set ms else set ms) - A))), st')
    \<and> key_set env st' k = Some (A \<union> (if packs env st k ms then canonical ` set ms else set ms))
    \<and> store_wf st' \<and> (\<exists>e. kmap st' k = Some e \<and> expires_at e = None)"
proof -
  obtain m ms' where ms: "ms = m # ms'" using assms(3) by (cases ms) auto
  obtain d0 st1 where r: "read_data env k st = (d0, st1)" "store_wf st1" "starts d0 A"
    "d0 = map_option data (live (e_now env) (kmap st) k)" using read_data_starts [OF assms(1,2)] .
  let ?d = "sadd_start d0 ms"
  have p: "(\<exists>s. ?d = DIntSet s) \<longleftrightarrow> packs env st k ms"
    using sadd_start_packs [OF r(3), of ms] unfolding r(4)
    by (cases "live (e_now env) (kmap st) k") (simp_all add: packs_def)
  have i: "list_all (\<lambda>m. bytes_i64 m \<noteq> None) ms" if "?d = DIntSet s" for s
    using p that by (auto simp: packs_def)
  obtain d' where d': "sadd_into ms ?d = Some (d', int (card ((if packs env st k ms then canonical ` set ms else set ms) - A)))"
    "data_wf d'" "data_set d' = Some (A \<union> (if packs env st k ms then canonical ` set ms else set ms))"
    using sadd_into_spec [of ?d A ms] sadd_start_spec [OF r(3), of ms] i unfolding p by blast
  obtain st' where st': "store_set (e_now env) k d' None st1 = Ret st'" using store_set_ok by blast
  have "sadd env (k # ms) st = Ret (Integer (int (card ((if packs env st k ms then canonical ` set ms else set ms) - A))), st')"
    using r(1) d'(1) st' unfolding ms by (simp add: sadd_def del: sadd_into.simps)
  moreover have "store_wf st'" using r(2) d'(2) st' by (rule store_wf_set)
  moreover have "key_set env st' k = Some (A \<union> (if packs env st k ms then canonical ` set ms else set ms))"
    using store_set_sees(1) [OF st'] d'(3) by simp
  ultimately show ?thesis using store_set_sees(3) [OF st'] by blast
qed

lemma as_set_mut_data:
  assumes "data_wf d" "data_set d = Some A"
  shows "\<exists>s. as_set_mut d = (DSet s, Some s) \<and> distinct s \<and> set s = A"
proof (cases d)
  case (DIntSet s)
  then have "set (intset_members s) = A" "distinct (intset_members s)"
    using assms by (simp_all add: intset_members_def)
  then show ?thesis using DIntSet by (simp add: as_set_mut_def)
qed (use assms in \<open>simp_all add: as_set_mut_def\<close>)

lemma as_set_mut_other: "data_set d = None \<Longrightarrow> as_set_mut d = (d, None)"
  by (cases d) (simp_all add: as_set_mut_def)

lemma srem_spec:
  assumes "store_wf st" "key_set env st k = Some A" "ms \<noteq> []"
  shows "\<exists>st'. srem env (k # ms) st = Ret (Integer (int (card (set ms \<inter> A))), st')
    \<and> key_set env st' k = Some (A - set ms) \<and> store_wf st'
    \<and> (\<forall>e. kmap st' k = Some e \<longrightarrow> A \<noteq> {} \<longrightarrow> expires_at e = None)"
proof -
  obtain m ms' where ms: "ms = m # ms'" using assms(3) by (cases ms) auto
  obtain d0 st1 where r: "read_data env k st = (d0, st1)" "store_wf st1" "starts d0 A"
    "live (e_now env) (kmap st1) = live (e_now env) (kmap st)" using read_data_starts [OF assms(1,2)] .
  show ?thesis
  proof (cases d0)
    case None
    then have "A = {}" "key_set env st1 k = Some A"
      using r(3) key_set_cong [OF r(4)] assms(2) by (simp_all add: starts_def)
    then show ?thesis using r(1,2) None unfolding ms by (simp add: srem_def)
  next
    case (Some d)
    then obtain s where s: "as_set_mut d = (DSet s, Some s)" "distinct s" "set s = A"
      using as_set_mut_data [of d A] r(3) by (auto simp: starts_def)
    note a = hashset.rem_all_spec [OF s(2), of ms]
    obtain st' where st': "store_set (e_now env) k (DSet (fst (hashset.rem_all ms s))) None st1 = Ret st'"
      using store_set_ok by blast
    have "srem env (k # ms) st = Ret (Integer (int (snd (hashset.rem_all ms s))), st')"
      using r(1) Some s(1) st' unfolding ms by (simp add: srem_def set_remove_all_eq del: hashset.rem_all.simps)
    moreover have "store_wf st'" by (rule store_wf_set [OF r(2) _ st']) (use a in simp)
    moreover have "key_set env st' k = Some (A - set ms)" using store_set_sees(1) [OF st'] a s(3) by simp
    moreover have "\<forall>e. kmap st' k = Some e \<longrightarrow> expires_at e = None" using store_set_sees(3) [OF st'] by auto
    ultimately show ?thesis using a s(3) by simp
  qed
qed

lemma smove_spec:
  assumes "store_wf st" "key_set env st src = Some A" "m \<in> A" "src \<noteq> dest"
  shows "case key_set env st dest of
      Some B \<Rightarrow> (\<exists>st'. smove env [src, dest, m] st = Ret (Integer 1, st') \<and> store_wf st'
        \<and> key_set env st' src = Some (A - {m}) \<and> key_set env st' dest = Some (insert m B))
    | None \<Rightarrow> (\<exists>st'. smove env [src, dest, m] st = Ret (wrongtype, st') \<and> store_wf st'
        \<and> key_set env st' src = Some (A - {m}) \<and> key_set env st' dest = None)"
proof -
  obtain d0 st1 where r: "read_data env src st = (d0, st1)" "store_wf st1" "starts d0 A"
    "live (e_now env) (kmap st1) = live (e_now env) (kmap st)" using read_data_starts [OF assms(1,2)] .
  then obtain d where d: "d0 = Some d" using assms(3) by (cases d0) (auto simp: starts_def)
  then obtain s where s: "as_set_mut d = (DSet s, Some s)" "distinct s" "set s = A"
    using as_set_mut_data [of d A] r(3) by (auto simp: starts_def)
  have rem: "hset_remove m s = (removeAll m s, True)" using assms(3) s(3) by (simp add: hset_remove_def)
  obtain st2 where st2: "store_set (e_now env) src (DSet (removeAll m s)) None st1 = Ret st2" using store_set_ok by blast
  have wf2: "store_wf st2" by (rule store_wf_set [OF r(2) _ st2]) (use s(2) in \<open>simp add: distinct_removeAll\<close>)
  have dest: "live (e_now env) (kmap st2) dest = live (e_now env) (kmap st) dest"
    using store_set_sees(2) [OF st2, of dest] r(4) assms(4) by simp
  have src: "key_set env st2 src = Some (A - {m})" using store_set_sees(1) [OF st2] s(3) by simp
  have run: "smove env [src, dest, m] st = (case read_data env dest st2 of (dd, st3) \<Rightarrow>
      case as_set_mut (case dd of Some x \<Rightarrow> x | None \<Rightarrow> DSet []) of
        (_, None) \<Rightarrow> Ret (wrongtype, st3)
      | (_, Some t) \<Rightarrow> obind (store_set (e_now env) dest (DSet (fst (hset_insert m t))) None st3) (\<lambda>st4. Ret (Integer 1, st4)))"
    using r(1) d s(1) rem st2 by (simp add: smove_def)
  show ?thesis
  proof (cases "key_set env st dest")
    case None
    then obtain e where e: "live (e_now env) (kmap st2) dest = Some e" "data_set (data e) = None"
      using dest by (auto simp: key_set_def split: option.splits)
    then have "read_data env dest st2 = (Some (data e), st2)"
      by (cases rule: read_data_cases [of env dest st2]) simp_all
    then have "smove env [src, dest, m] st = Ret (wrongtype, st2)" using run as_set_mut_other [OF e(2)] by simp
    then show ?thesis using None wf2 src dest by (simp add: key_set_def)
  next
    case (Some B)
    then have k2: "key_set env st2 dest = Some B" using dest by (simp add: key_set_def)
    obtain dd st3 where r3: "read_data env dest st2 = (dd, st3)" "store_wf st3" "starts dd B"
      "live (e_now env) (kmap st3) = live (e_now env) (kmap st2)" using read_data_starts [OF wf2 k2] .
    obtain d' t where t: "as_set_mut (case dd of Some x \<Rightarrow> x | None \<Rightarrow> DSet []) = (d', Some t)" "distinct t" "set t = B"
      using as_set_mut_data [of "case dd of Some x \<Rightarrow> x | None \<Rightarrow> DSet []" B] r3(3) by (cases dd) (auto simp: starts_def)
    obtain st4 where st4: "store_set (e_now env) dest (DSet (fst (hset_insert m t))) None st3 = Ret st4" using store_set_ok by blast
    have ins: "distinct (fst (hset_insert m t))" "set (fst (hset_insert m t)) = insert m B"
      using hashset.inv_add [OF t(2)] hashset.abs_add [OF t(2)] t(3) by simp_all
    have "store_wf st4" by (rule store_wf_set [OF r3(2) _ st4]) (use ins in simp)
    moreover have "key_set env st4 src = Some (A - {m})"
      using store_set_sees(2) [OF st4, of src] r3(4) assms(4) src by (simp add: key_set_def)
    moreover have "key_set env st4 dest = Some (insert m B)" using store_set_sees(1) [OF st4] ins by simp
    ultimately show ?thesis using Some run r3(1) t(1) st4 by simp
  qed
qed

lemma pop_too_many: "length s < n \<Longrightarrow> pop_n env n i s = Panic"
proof (induction n arbitrary: i s)
  case 0
  then show ?case by simp
next
  case (Suc n)
  show ?case
  proof (cases "s = []")
    case False
    let ?c = "s ! draw env i (length s)"
    have "?c \<in> set s" using False by (intro nth_mem) (simp add: draw_def)
    then have "length (removeAll ?c s) < length s" by (rule length_removeAll_less)
    then have "pop_n env n (Suc i) (fst (hset_remove ?c s)) = Panic"
      using Suc by (simp add: hset_remove_def)
    then show ?thesis by (simp add: Let_def)
  qed simp
qed

lemma spop_too_many:
  assumes "store_wf st" "key_set env st k = Some A" "A \<noteq> {}" "card A < n" "n < 2 ^ 64"
  shows "spop env [k, show_nat n] st = Panic"
proof -
  obtain d0 st1 where r: "read_data env k st = (d0, st1)" "starts d0 A" using read_data_starts [OF assms(1,2)] .
  then obtain d where d: "d0 = Some d" using assms(3) by (cases d0) (auto simp: starts_def)
  then obtain s where s: "as_set_mut d = (DSet s, Some s)" "distinct s" "set s = A"
    using as_set_mut_data [of d A] r(2) by (auto simp: starts_def)
  have "length s < n" "s \<noteq> []" using s assms(3,4) distinct_card [OF s(2)] by auto
  then show ?thesis
    using r(1) d s(1) bytes_u64_show_nat [OF assms(5)] pop_too_many [of s n env 0] by (simp add: spop_def Let_def)
qed



text \<open>
  Defects of the set commands. SMOVE to a key of another type answers the type error after the
  member has left the source, so the member is lost. SPOP with a count above the number of
  members panics. SISMEMBER on a packed integer set answers the type error for every text that is not an
  integer, instead of zero.
\<close>

theorem set_damage:
  fixes st :: "'s store"
  assumes "store_wf st" "key_set env st k = Some A" "m \<in> A" "dest \<noteq> k" "key_set env st dest = None"
    and "card A < n" "n < 2 ^ 64"
    and "live (e_now env) (kmap st) key = Some e" "data e = DIntSet s" "bytes_i64 x = None"
  shows "(\<exists>st'. smove env [k, dest, m] st = Ret (wrongtype, st')
        \<and> key_set env st' k = Some (A - {m}) \<and> key_set env st' dest = None)
    \<and> spop env [k, show_nat n] st = Panic
    \<and> (\<exists>st'. sismember env [key, x] st = Ret (wrongtype, st'))"
proof -
  have "A \<noteq> {}" using assms(3) by blast
  moreover have "read_data env key st = (Some (DIntSet s), st)"
    using assms(8,9) by (cases rule: read_data_cases [of env key st]) simp_all
  then have "sismember env [key, x] st = Ret (wrongtype, st)" using assms(10) by (simp add: sismember_def)
  ultimately show ?thesis
    using smove_spec [OF assms(1-3), of dest] assms(4,5) spop_too_many [OF assms(1,2) _ assms(6,7)] by auto
qed

theorem set_damage_witness:
  "spop env0 [[1], show_nat 2] (store_new\<lparr>keyspace := [([1], fresh_entry (DSet [[8]])), ([2], fresh_entry (DString [])),
      ([3], fresh_entry (DIntSet intset_new))]\<rparr> :: nat store) = Panic"
proof -
  let ?st = "store_new\<lparr>keyspace := [([1], fresh_entry (DSet [[8]])), ([2], fresh_entry (DString [])),
      ([3], fresh_entry (DIntSet intset_new))]\<rparr> :: nat store"
  have wf: "store_wf ?st" by (auto simp: store_wf_def dict_wf_def intset_new_inv split: if_splits)
  have k: "key_set env0 ?st [1] = Some {[8]}" "key_set env0 ?st [2] = None"
    "live (e_now env0) (kmap ?st) [3] = Some (fresh_entry (DIntSet intset_new))"
    by (simp_all add: key_set_def live_def is_expired_def)
  have n: "[8] \<in> {[8 :: byte]}" "[2 :: byte] \<noteq> [1]" "card {[8 :: byte]} < 2" "(2 :: nat) < 2 ^ 64" by simp_all
  have x: "bytes_i64 [120] = None" by code_simp
  show ?thesis using set_damage [OF wf k(1) n(1,2) k(2) n(3,4) k(3) entry.select_convs(1) x] by blast
qed

subsection \<open>Following the cursors\<close>

text \<open>The members of a page of SSCAN, and a client that follows the cursors until it receives zero.\<close>

fun scan_answer :: "RespValue \<Rightarrow> (bytes \<times> bytes list) option" where
  "scan_answer (Array (Some [BulkString (Some c), Array (Some page)])) =
     Some (c, map (\<lambda>r. case r of BulkString (Some m) \<Rightarrow> m | _ \<Rightarrow> []) page)"
| "scan_answer _ = None"

partial_function (option) sscan_client :: "env \<Rightarrow> bytes \<Rightarrow> nat \<Rightarrow> bytes \<Rightarrow> 's store \<Rightarrow> (nat \<times> bytes list) option" where
  "sscan_client env key count cursor st =
     (case sscan env [key, cursor, ascii ''COUNT'', show_nat count] st of
        Ret (r, st') \<Rightarrow>
          (case scan_answer r of
             None \<Rightarrow> None
           | Some (c, page) \<Rightarrow>
               if c = ascii ''0'' then Some (1, page)
               else Option.bind (sscan_client env key count c st') (\<lambda>(calls, rest). Some (Suc calls, page @ rest)))
      | _ \<Rightarrow> None)"

lemma show_nat_zero: "show_nat n = ascii ''0'' \<longleftrightarrow> n = 0"
proof -
  have z: "show_nat 0 = ascii ''0''" by (simp add: show_nat.simps ascii_def)
  show ?thesis using digits_val_show_nat [of n] digits_val_show_nat [of 0] z by auto
qed

lemma scan_count_option:
  "count < 2 ^ 64 \<Longrightarrow> 0 < count \<Longrightarrow> scan_options [ascii ''COUNT'', show_nat count] \<lparr>sc_pattern = None, sc_count = 10\<rparr>
     = Inr \<lparr>sc_pattern = None, sc_count = count\<rparr>"
  using bytes_u64_show_nat [of count] by (simp add: from_utf8_def ascii_def to_upper_def upper_byte_def)

lemma sscan_page:
  assumes "live (e_now env) (kmap st) key = Some e" "to_set_clone (data e) = Some s"
    and "cursor < 2 ^ 64" "count < 2 ^ 64" "0 < count"
  shows "\<exists>r. sscan env [key, show_nat cursor, ascii ''COUNT'', show_nat count] st = Ret (r, st)
    \<and> scan_answer r = Some (show_nat (fst (scan_page cursor count (sort s))), snd (scan_page cursor count (sort s)))"
proof -
  have "read_data env key st = (Some (data e), st)"
    using assms(1) by (cases rule: read_data_cases [of env key st]) simp_all
  then show ?thesis
    using assms(2) bytes_u64_show_nat [OF assms(3)] scan_count_option [OF assms(4,5)]
    by (simp add: sscan_def scan_filter_def bull_def comp_def split: prod.split)
qed

declare ascii_Cons [simp del]

lemma sscan_client_rest:
  assumes "live (e_now env) (kmap st) key = Some e" "to_set_clone (data e) = Some s"
    and "length s + count < 2 ^ 64" "0 < count" "cursor < length s \<or> cursor = 0"
  shows "sscan_client env key count (show_nat cursor) st
    = Some (max 1 ((length s - cursor + count - 1) div count), drop cursor (sort s))"
  using assms(5)
proof (induction "length s - cursor" arbitrary: cursor rule: less_induct)
  case less
  have c: "cursor < 2 ^ 64" "count < 2 ^ 64" "wrap_u64 (cursor + count) = cursor + count"
    using less.prems assms(3) by (auto simp: wrap_u64_def)
  obtain r where r: "sscan env [key, show_nat cursor, ascii ''COUNT'', show_nat count] st = Ret (r, st)"
    "scan_answer r = Some (show_nat (fst (scan_page cursor count (sort s))), snd (scan_page cursor count (sort s)))"
    using sscan_page [OF assms(1,2) c(1,2) assms(4)] by blast
  show ?case
  proof (cases "length s \<le> cursor + count")
    case True
    have "max 1 ((length s - cursor + count - 1) div count) = 1"
    proof -
      have "length s - cursor + count - 1 < 2 * count" using True assms(4) by linarith
      then have "(length s - cursor + count - 1) div count < 2" using assms(4) by (simp add: div_less_iff_less_mult)
      then show ?thesis by linarith
    qed
    moreover have "scan_page cursor count (sort s) = (0, drop cursor (sort s))"
      using True by (simp add: scan_page_def c(3))
    ultimately show ?thesis
      using r by (subst sscan_client.simps) (simp add: show_nat_zero)
  next
    case False
    let ?n = "cursor + count"
    have p: "scan_page cursor count (sort s) = (?n, take count (drop cursor (sort s)))"
      using False by (simp add: scan_page_def c(3))
    have IH: "sscan_client env key count (show_nat ?n) st
        = Some (max 1 ((length s - ?n + count - 1) div count), drop ?n (sort s))"
      using False assms(4) by (intro less.hyps) auto
    have e: "length s - cursor + count - 1 = (length s - ?n + count - 1) + count" using False assms(4) by simp
    have "(length s - cursor + count - 1) div count = Suc ((length s - ?n + count - 1) div count)"
      unfolding e using assms(4) by (simp only: div_add_self2)
    moreover have "1 \<le> (length s - ?n + count - 1) div count"
      using False assms(4) by (simp add: less_eq_div_iff_mult_less_eq)
    ultimately have "max 1 ((length s - cursor + count - 1) div count) = Suc (max 1 ((length s - ?n + count - 1) div count))"
      by simp
    moreover have "take count (drop cursor (sort s)) @ drop ?n (sort s) = drop cursor (sort s)"
      using append_take_drop_id [of count "drop cursor (sort s)"] by (simp add: add.commute del: append_take_drop_id)
    moreover have "show_nat ?n \<noteq> ascii ''0''" using assms(4) by (simp add: show_nat_zero)
    ultimately show ?thesis
      using r IH p by (subst sscan_client.simps) (simp)
  qed
qed

text \<open>
  C31. Iteration with SSCAN ends: on a set that does not change, a client that starts with cursor
  zero and follows the cursors with any positive count gets cursor zero back after the number of
  members divided by the count, rounded up, calls (one for an empty set), and the pages
  together list every member exactly once.
\<close>

theorem sscan_completes:
  assumes "store_wf st" "live (e_now env) (kmap st) key = Some e" "data_set (data e) = Some A"
    and "card A + count < 2 ^ 64" "0 < count"
  shows "\<exists>ms. sscan_client env key count (show_nat 0) st = Some (max 1 ((card A + count - 1) div count), ms)
    \<and> set ms = A \<and> distinct ms"
proof -
  have wf: "data_wf (data e)" by (rule live_data_wf [OF assms(1,2)])
  obtain s where s: "to_set_clone (data e) = Some s" "set s = A"
    using data_set_clone [OF wf] assms(3) by (cases "to_set_clone (data e)") auto
  have d: "distinct s" by (rule to_set_clone_distinct [OF wf s(1)])
  have "length s = card A" using s(2) distinct_card [OF d] by simp
  then show ?thesis
    using sscan_client_rest [OF assms(2) s(1), of count 0] assms(4,5) s(2) d by simp
qed

theorem sscan_completes_witness:
  "\<exists>ms. sscan_client env0 [1] 2 (show_nat 0)
      (store_new\<lparr>keyspace := [([1], fresh_entry (DSet [[7], [8], [9]]))]\<rparr> :: nat store) = Some (2, ms) \<and> set ms = {[7], [8], [9]}"
proof -
  let ?e = "fresh_entry (DSet [[7], [8], [9]]) :: nat entry"
  let ?st = "store_new\<lparr>keyspace := [([1], ?e)]\<rparr>"
  have wf: "store_wf ?st" by (simp add: store_wf_def dict_wf_def)
  have k: "live (e_now env0) (kmap ?st) [1] = Some ?e" by (simp add: live_def is_expired_def)
  have A: "data_set (data ?e) = Some {[7], [8], [9]}" by simp
  have n: "card {[7 :: byte], [8], [9]} + 2 < 2 ^ 64" "(0 :: nat) < 2" "max 1 ((card {[7 :: byte], [8], [9]} + 2 - 1) div 2) = 2" by simp_all
  show ?thesis using sscan_completes [OF wf k A n(1,2), unfolded n(3)] by blast
qed

end
