(* ===== verification/Cmd_Hash.thy ===== *)
theory Cmd_Hash
  imports Cmd_Set Rust_Float
begin

text \<open>
  The hash commands, \<^verbatim>\<open>crates/commands/src/hash.rs\<close>. Reads go through \<^verbatim>\<open>Store::get\<close>; writes use the
  entry of the key map directly: they neither test the expiry of the entry, nor notify watchers, nor
  count a change. Each command gets the arguments after its name, of which the dispatcher has
  tested that there is at least one.
\<close>

subsection \<open>Access\<close>

definition update_hash ::
  "env \<Rightarrow> bytes \<Rightarrow> ((bytes, bytes) dict \<Rightarrow> (bytes, bytes) dict \<times> RespValue) \<Rightarrow> 's store \<Rightarrow> 's result" where
  "update_hash env key f st =
     (let (e, st1) = or_insert env key (DHash []) st in
      case data e of
        DHash h \<Rightarrow> (let (h', r) = f h in Ret (r, write_data key e (DHash h') st1))
      | _ \<Rightarrow> Ret (wrongtype, st1))"

definition read_hash :: "env \<Rightarrow> bytes \<Rightarrow> ((bytes, bytes) dict \<Rightarrow> RespValue) \<Rightarrow> RespValue \<Rightarrow> 's store \<Rightarrow> 's result" where
  "read_hash env key f absent st =
     (case read_data env key st of
        (None, st') \<Rightarrow> Ret (absent, st')
      | (Some d, st') \<Rightarrow> Ret (case d of DHash h \<Rightarrow> f h | _ \<Rightarrow> wrongtype, st'))"

definition field_reply :: "(bytes, bytes) dict \<Rightarrow> bytes \<Rightarrow> RespValue" where
  "field_reply h f = (case dict_get h f of Some v \<Rightarrow> bull v | None \<Rightarrow> null_bulk)"

subsection \<open>Fields\<close>

fun hset_pairs :: "(bytes \<times> bytes) list \<Rightarrow> (bytes, bytes) dict \<Rightarrow> int \<Rightarrow> (bytes, bytes) dict \<times> int" where
  "hset_pairs [] h added = (h, added)"
| "hset_pairs ((f, v) # r) h added =
     hset_pairs r (dict_put f v h) (if dict_get h f = None then added + 1 else added)"

definition hset :: "env \<Rightarrow> bytes list \<Rightarrow> 's store \<Rightarrow> 's result" where
  "hset env args st =
     (if length args < 3 \<or> (length args - 1) mod 2 \<noteq> 0 then Ret (wrong_args ''hset'', st)
      else update_hash env (hd args)
             (\<lambda>h. let (h', added) = hset_pairs (chunks2 (tl args)) h 0 in (h', Integer added)) st)"

definition hget :: "env \<Rightarrow> bytes list \<Rightarrow> 's store \<Rightarrow> 's result" where
  "hget env args st =
     (if length args < 2 then Ret (wrong_args ''hget'', st)
      else read_hash env (hd args) (\<lambda>h. field_reply h (args ! 1)) null_bulk st)"

definition hmget :: "env \<Rightarrow> bytes list \<Rightarrow> 's store \<Rightarrow> 's result" where
  "hmget env args st =
     (if length args < 2 then Ret (wrong_args ''hmget'', st)
      else read_hash env (hd args) (\<lambda>h. Array (Some (map (field_reply h) (tl args))))
             (Array (Some (map (\<lambda>_. null_bulk) (tl args)))) st)"

definition hmset :: "env \<Rightarrow> bytes list \<Rightarrow> 's store \<Rightarrow> 's result" where
  "hmset env args st =
     (if length args < 3 \<or> (length args - 1) mod 2 \<noteq> 0 then Ret (wrong_args ''hmset'', st)
      else update_hash env (hd args) (\<lambda>h. (fold (\<lambda>(f, v). dict_put f v) (chunks2 (tl args)) h, ok)) st)"

definition hgetall :: "env \<Rightarrow> bytes list \<Rightarrow> 's store \<Rightarrow> 's result" where
  "hgetall env args st =
     read_hash env (hd args) (\<lambda>h. Array (Some (concat (map (\<lambda>(k, v). [bull k, bull v]) h)))) (Array (Some [])) st"

fun hdel_fields :: "bytes list \<Rightarrow> (bytes, bytes) dict \<Rightarrow> int \<Rightarrow> (bytes, bytes) dict \<times> int" where
  "hdel_fields [] h count = (h, count)"
| "hdel_fields (f # fs) h count =
     hdel_fields fs (dict_del f h) (if dict_get h f \<noteq> None then count + 1 else count)"

definition hdel :: "env \<Rightarrow> bytes list \<Rightarrow> 's store \<Rightarrow> 's result" where
  "hdel env args st =
     (if length args < 2 then Ret (wrong_args ''hdel'', st)
      else case dict_get (keyspace st) (hd args) of
             None \<Rightarrow> Ret (Integer 0, st)
           | Some e \<Rightarrow>
               (case data e of
                  DHash h \<Rightarrow>
                    (let (h', count) = hdel_fields (tl args) h 0
                     in Ret (Integer count, write_data (hd args) e (DHash h') st))
                | _ \<Rightarrow> Ret (wrongtype, st)))"

definition hexists :: "env \<Rightarrow> bytes list \<Rightarrow> 's store \<Rightarrow> 's result" where
  "hexists env args st =
     (if length args < 2 then Ret (wrong_args ''hexists'', st)
      else read_hash env (hd args) (\<lambda>h. Integer (if dict_get h (args ! 1) \<noteq> None then 1 else 0)) (Integer 0) st)"

definition hlen :: "env \<Rightarrow> bytes list \<Rightarrow> 's store \<Rightarrow> 's result" where
  "hlen env args st = read_hash env (hd args) (\<lambda>h. Integer (int (length h))) (Integer 0) st"

definition hkeys :: "env \<Rightarrow> bytes list \<Rightarrow> 's store \<Rightarrow> 's result" where
  "hkeys env args st = read_hash env (hd args) (\<lambda>h. Array (Some (map (bull \<circ> fst) h))) (Array (Some [])) st"

definition hvals :: "env \<Rightarrow> bytes list \<Rightarrow> 's store \<Rightarrow> 's result" where
  "hvals env args st = read_hash env (hd args) (\<lambda>h. Array (Some (map (bull \<circ> snd) h))) (Array (Some [])) st"

subsection \<open>Counters\<close>

definition hincrby :: "env \<Rightarrow> bytes list \<Rightarrow> 's store \<Rightarrow> 's result" where
  "hincrby env args st =
     (if length args < 3 then Ret (wrong_args ''hincrby'', st)
      else case bytes_i64 (args ! 2) of
             None \<Rightarrow> Ret (not_int, st)
           | Some incr \<Rightarrow>
               update_hash env (hd args) (\<lambda>h.
                 let cur = (case dict_get h (args ! 1) of None \<Rightarrow> 0 | Some v \<Rightarrow> unwrap_or 0 (bytes_i64 v));
                     nv = wrap_i64 (cur + incr)
                 in (dict_put (args ! 1) (show_int nv) h, Integer nv)) st)"

definition hincrbyfloat :: "env \<Rightarrow> bytes list \<Rightarrow> 's store \<Rightarrow> 's result" where
  "hincrbyfloat env args st =
     (if length args < 3 then Ret (wrong_args ''hincrbyfloat'', st)
      else case parse_f64 (utf8_or_empty (args ! 2)) of
             None \<Rightarrow> Ret (Error (ascii ''ERR value is not a valid float or out of range''), st)
           | Some incr \<Rightarrow>
               update_hash env (hd args) (\<lambda>h.
                 let cur = (case dict_get h (args ! 1) of None \<Rightarrow> 0 | Some v \<Rightarrow> unwrap_or 0 (parse_f64 (utf8_or_empty v)));
                     repr = show_f64 (f64_add cur incr)
                 in (dict_put (args ! 1) repr h, bull repr)) st)"

subsection \<open>Iteration\<close>

record hscan_opts =
  hs_cursor :: nat
  hs_pattern :: "bytes option"
  hs_count :: nat

fun hscan_options :: "bytes list \<Rightarrow> hscan_opts \<Rightarrow> RespValue + hscan_opts" where
  "hscan_options [] ho = Inr ho"
| "hscan_options (a # rest) ho =
     (let tok = to_upper (utf8_or_empty a) in
      if tok = ascii ''MATCH'' then
        (case rest of
           [] \<Rightarrow> Inl syntax_error
         | p # rest' \<Rightarrow> hscan_options rest' (ho\<lparr>hs_pattern := from_utf8 p\<rparr>))
      else if tok = ascii ''COUNT'' then
        (case rest of
           [] \<Rightarrow> Inl syntax_error
         | c # rest' \<Rightarrow>
             (case bytes_u64 c of
                None \<Rightarrow> Inl not_int
              | Some n \<Rightarrow> hscan_options rest' (ho\<lparr>hs_count := n\<rparr>)))
      else
        (case bytes_u64 a of
           None \<Rightarrow> Inl syntax_error
         | Some n \<Rightarrow> hscan_options rest (ho\<lparr>hs_cursor := n\<rparr>)))"

text \<open>\<^verbatim>\<open>str::contains\<close>.\<close>

definition contains_sub :: "bytes \<Rightarrow> bytes \<Rightarrow> bool" where
  "contains_sub s p \<longleftrightarrow> list_ex (\<lambda>i. starts_with (drop i s) p) [0..<length s + 1]"

definition hscan_match :: "bytes \<Rightarrow> bytes \<Rightarrow> bool" where
  "hscan_match pat k =
     (let ks = utf8_or_empty k; n = length pat in
      if starts_with pat [42] \<and> ends_with pat [42] then contains_sub ks (take (n - 2) (drop 1 pat))
      else if starts_with pat [42] then ends_with ks (drop 1 pat)
      else if ends_with pat [42] then starts_with ks (take (n - 1) pat)
      else ks = pat)"

text \<open>A page of the fields; the end may wrap below the start, and then the slice panics.\<close>

definition hscan_page :: "hscan_opts \<Rightarrow> (bytes, bytes) dict \<Rightarrow> (nat \<times> (bytes \<times> bytes) list) outcome" where
  "hscan_page ho h =
     (let sorted = sort_key fst h;
          filtered = (case hs_pattern ho of
              None \<Rightarrow> sorted
            | Some pat \<Rightarrow> if pat \<noteq> [42] then filter (\<lambda>(k, _). hscan_match pat k) sorted else sorted);
          start = min (hs_cursor ho) (length filtered);
          end = min (wrap_u64 (start + max (hs_count ho) 1)) (length filtered)
      in if start \<le> end
         then Ret (if end \<ge> length filtered then 0 else end, take (end - start) (drop start filtered))
         else Panic)"

definition hscan :: "env \<Rightarrow> bytes list \<Rightarrow> 's store \<Rightarrow> 's result" where
  "hscan env args st =
     (if args = [] then Ret (wrong_args ''hscan'', st)
      else case hscan_options (tl args) \<lparr>hs_cursor = 0, hs_pattern = None, hs_count = 10\<rparr> of
             Inl err \<Rightarrow> Ret (err, st)
           | Inr ho \<Rightarrow>
               (let reply = (\<lambda>next items. Array (Some [bull (show_nat next), Array (Some items)])) in
                case read_data env (hd args) st of
                  (None, st') \<Rightarrow> Ret (reply 0 [], st')
                | (Some d, st') \<Rightarrow>
                    (case d of
                       DHash h \<Rightarrow>
                         obind (hscan_page ho h) (\<lambda>(next, page).
                           Ret (reply next (concat (map (\<lambda>(k, v). [bull k, bull v]) page)), st'))
                     | _ \<Rightarrow> Ret (wrongtype, st'))))"

fun hrand_options :: "bytes list \<Rightarrow> int \<Rightarrow> bool \<Rightarrow> RespValue + (int \<times> bool)" where
  "hrand_options [] count with_values = Inr (count, with_values)"
| "hrand_options (a # rest) count with_values =
     (if to_upper (utf8_or_empty a) = ascii ''WITHVALUES'' then hrand_options rest count True
      else case bytes_i64 a of
             None \<Rightarrow> Inl not_int
           | Some n \<Rightarrow> hrand_options rest n with_values)"

text \<open>The first steps of a shuffle: draw the element of each position from those not yet placed.\<close>

definition partial_shuffle :: "env \<Rightarrow> nat \<Rightarrow> nat list \<Rightarrow> nat list" where
  "partial_shuffle env k idx =
     fold (\<lambda>i xs. swap_at i (i + draw env i (length idx - i)) xs) [0..<k] idx"

definition hrandfield :: "env \<Rightarrow> bytes list \<Rightarrow> 's store \<Rightarrow> 's result" where
  "hrandfield env args st =
     (if args = [] then Ret (wrong_args ''hrandfield'', st)
      else case hrand_options (tl args) 1 False of
             Inl err \<Rightarrow> Ret (err, st)
           | Inr (count, with_values) \<Rightarrow>
               read_hash env (hd args) (\<lambda>h.
                 if h = [] then null_bulk
                 else
                   let n = length h; abs_c = nat \<bar>count\<bar>;
                       picks = (if count \<ge> 0
                                then take (min abs_c n) (partial_shuffle env (min abs_c n) [0..<n])
                                else map (\<lambda>i. draw env i n) [0..<abs_c]);
                       r = concat (map (\<lambda>i. bull (fst (h ! i)) # (if with_values then [bull (snd (h ! i))] else [])) picks)
                   in if r = [] then null_bulk else Array (Some r)) null_bulk st)"

definition hsetnx :: "env \<Rightarrow> bytes list \<Rightarrow> 's store \<Rightarrow> 's result" where
  "hsetnx env args st =
     (case args of
        [key, f, v] \<Rightarrow>
          update_hash env key (\<lambda>h. if dict_get h f \<noteq> None then (h, Integer 0) else (dict_put f v h, Integer 1)) st
      | _ \<Rightarrow> Ret (wrong_args ''hsetnx'', st))"

definition hstrlen :: "env \<Rightarrow> bytes list \<Rightarrow> 's store \<Rightarrow> 's result" where
  "hstrlen env args st =
     (case args of
        [key, f] \<Rightarrow>
          read_hash env key
            (\<lambda>h. Integer (case dict_get h f of Some v \<Rightarrow> int (length v) | None \<Rightarrow> 0)) (Integer 0) st
      | _ \<Rightarrow> Ret (wrong_args ''hstrlen'', st))"

subsection \<open>The dispatcher\<close>

definition hash_handle :: "env \<Rightarrow> bytes list \<Rightarrow> 's store \<Rightarrow> 's result" where
  "hash_handle env cmd st =
     (if length cmd < 2 then Ret (Error (ascii ''ERR wrong number of arguments''), st)
      else case from_utf8 (hd cmd) of
        None \<Rightarrow> Ret (Error (ascii ''ERR invalid command name''), st)
      | Some s \<Rightarrow>
          (let name = to_upper s; args = tl cmd in
           if name = ascii ''HSET'' then hset env args st
           else if name = ascii ''HGET'' then hget env args st
           else if name = ascii ''HMGET'' then hmget env args st
           else if name = ascii ''HMSET'' then hmset env args st
           else if name = ascii ''HGETALL'' then hgetall env args st
           else if name = ascii ''HDEL'' then hdel env args st
           else if name = ascii ''HEXISTS'' then hexists env args st
           else if name = ascii ''HLEN'' then hlen env args st
           else if name = ascii ''HKEYS'' then hkeys env args st
           else if name = ascii ''HVALS'' then hvals env args st
           else if name = ascii ''HINCRBY'' then hincrby env args st
           else if name = ascii ''HINCRBYFLOAT'' then hincrbyfloat env args st
           else if name = ascii ''HSCAN'' then hscan env args st
           else if name = ascii ''HRANDFIELD'' then hrandfield env args st
           else if name = ascii ''HSETNX'' then hsetnx env args st
           else if name = ascii ''HSTRLEN'' then hstrlen env args st
           else Ret (Error (ascii ''ERR unknown command '' @ [39] @ name @ [39]), st)))"

end
