(* ===== verification/Hash_Props.thy ===== *)
theory Hash_Props
  imports Cmd_Hash
begin

text \<open>
  What the hash commands do to the map of fields a client sees under a key, and what the direct
  access to the key map costs: writes to an entry that has expired are lost, no write is announced,
  and a hash without fields stays.
\<close>

subsection \<open>The fields of a key\<close>

text \<open>The fields a client sees under a key: none if the key is absent, undefined for other types.\<close>

definition key_hash :: "env \<Rightarrow> 's store \<Rightarrow> bytes \<Rightarrow> (bytes \<rightharpoonup> bytes) option" where
  "key_hash env st k =
     (case live (e_now env) (kmap st) k of
        None \<Rightarrow> Some Map.empty
      | Some e \<Rightarrow> (case data e of DHash h \<Rightarrow> Some (dict_get h) | _ \<Rightarrow> None))"

text \<open>The command line of a list of fields and values.\<close>

definition flat :: "(bytes \<times> bytes) list \<Rightarrow> bytes list" where
  "flat fvs = concat (map (\<lambda>(f, v). [f, v]) fvs)"

lemma flat_simps [simp]: "flat [] = []" "flat ((f, v) # r) = f # v # flat r"
  by (simp_all add: flat_def)

lemma chunks2_flat [simp]: "chunks2 (flat fvs) = fvs"
  by (induction fvs) auto

lemma length_flat [simp]: "length (flat fvs) = 2 * length fvs"
  by (induction fvs) auto

subsection \<open>The loops\<close>

lemma hset_pairs_spec:
  assumes "dict_wf h"
  shows "\<exists>h'. hset_pairs fvs h n = (h', n + int (card (fst ` set fvs - dom (dict_get h))))
    \<and> dict_wf h' \<and> dict_get h' = dict_get h ++ map_of (rev fvs)"
  using assms
proof (induction fvs arbitrary: h n)
  case (Cons p r)
  obtain f v where p: "p = (f, v)" by fastforce
  let ?D = "dom (dict_get h)"
  let ?h = "dict_put f v h"
  let ?m = "if dict_get h f = None then n + 1 else n"
  have wf: "dict_wf ?h" using Cons.prems by (simp add: hashmap.wf_put)
  have dm: "dom (dict_get ?h) = insert f ?D" by (simp add: dict_simps)
  obtain h' where h': "hset_pairs r ?h ?m = (h', ?m + int (card (fst ` set r - insert f ?D)))"
    "dict_wf h'" "dict_get h' = dict_get ?h ++ map_of (rev r)"
    using Cons.IH [OF wf, of ?m] unfolding dm by blast
  have "card (fst ` set (p # r) - ?D) = card (fst ` set r - insert f ?D) + (if dict_get h f = None then 1 else 0)"
  proof (cases "dict_get h f")
    case None
    then have "fst ` set (p # r) - ?D = insert f (fst ` set r - insert f ?D)" using p by auto
    then show ?thesis using None by simp
  next
    case (Some w)
    then have "f \<in> ?D" by auto
    then have "fst ` set (p # r) - ?D = fst ` set r - insert f ?D" using p by auto
    then show ?thesis using Some by simp
  qed
  then show ?case using h' p by (auto simp: dict_simps)
qed simp

lemma hdel_fields_spec:
  assumes "dict_wf h"
  shows "\<exists>h'. hdel_fields fs h n = (h', n + int (card (dom (dict_get h) \<inter> set fs)))
    \<and> dict_wf h' \<and> dict_get h' = dict_get h |` (- set fs)"
  using assms
proof (induction fs arbitrary: h n)
  case (Cons f fs)
  let ?D = "dom (dict_get h)"
  let ?h = "dict_del f h"
  let ?m = "if dict_get h f \<noteq> None then n + 1 else n"
  have wf: "dict_wf ?h" using Cons.prems by (simp add: hashmap.wf_del)
  have dm: "dom (dict_get ?h) = ?D - {f}" by (simp add: dict_simps)
  obtain h' where h': "hdel_fields fs ?h ?m = (h', ?m + int (card ((?D - {f}) \<inter> set fs)))"
    "dict_wf h'" "dict_get h' = dict_get ?h |` (- set fs)"
    using Cons.IH [OF wf, of ?m] unfolding dm by blast
  have "card (?D \<inter> set (f # fs)) = card ((?D - {f}) \<inter> set fs) + (if dict_get h f \<noteq> None then 1 else 0)"
  proof (cases "dict_get h f")
    case None
    then have "?D \<inter> set (f # fs) = (?D - {f}) \<inter> set fs" by auto
    then show ?thesis using None by simp
  next
    case (Some w)
    then have "?D \<inter> set (f # fs) = insert f ((?D - {f}) \<inter> set fs)" by auto
    then show ?thesis using Some by simp
  qed
  moreover have "dict_get ?h |` (- set fs) = dict_get h |` (- set (f # fs))"
    by (rule ext) (auto simp: dict_simps restrict_map_def)
  ultimately show ?case using h' by auto
qed (simp add: restrict_map_def)

subsection \<open>Access to one hash\<close>

text \<open>
  A write to the hash of one key: its fields become the given map, its expiry and every other key
  stay, and nothing but the key map changes: no watcher is told and no change is counted.
\<close>

definition hash_becomes :: "env \<Rightarrow> bytes \<Rightarrow> (bytes \<rightharpoonup> bytes) \<Rightarrow> 's store \<Rightarrow> 's store \<Rightarrow> bool" where
  "hash_becomes env k M st st' \<longleftrightarrow>
     key_hash env st' k = Some M \<and> store_wf st'
     \<and> (\<exists>e'. kmap st' = (kmap st)(k \<mapsto> e') \<and> expires_at e' = (case kmap st k of None \<Rightarrow> None | Some e \<Rightarrow> expires_at e))
     \<and> st'\<lparr>keyspace := keyspace st\<rparr> = st"

lemma write_becomes:
  assumes "store_wf st" "dict_wf h" "\<not> is_expired (e_now env) e"
    and "expires_at e = (case kmap st k of None \<Rightarrow> None | Some e \<Rightarrow> expires_at e)"
  shows "hash_becomes env k (dict_get h) st (write_data k e (DHash h) st)"
  using assms
  by (auto simp: hash_becomes_def key_hash_def live_def is_expired_def write_data_def dict_simps
      intro!: store_wf_put)

lemma update_hash_spec:
  assumes "store_wf st" "key_hash env st k = Some M" "live (e_now env) (kmap st) k = kmap st k"
  obtains h where "dict_wf h" "dict_get h = M"
    "\<And>f h' r. f h = (h', r) \<Longrightarrow> dict_wf h' \<Longrightarrow>
       \<exists>st'. update_hash env k f st = Ret (r, st') \<and> hash_becomes env k (dict_get h') st st'"
proof (cases "kmap st k")
  case None
  let ?e = "\<lparr>data = DHash [], expires_at = None, last_access = e_now env, access_count = 1, lfu_counter = 1\<rparr> :: 'a entry"
  let ?st = "st\<lparr>keyspace := dict_put k ?e (keyspace st)\<rparr>"
  have M: "M = Map.empty" using assms(2,3) None by (simp add: key_hash_def)
  have w: "hash_becomes env k (dict_get h') st (write_data k ?e (DHash h') ?st)" if "dict_wf h'" for h'
    using assms(1) that None
    by (auto simp: hash_becomes_def key_hash_def live_def is_expired_def write_data_def dict_simps dict_wf_def
        intro!: store_wf_put)
  show ?thesis
  proof (rule that [of "[]"])
    fix f :: "(bytes, bytes) dict \<Rightarrow> (bytes, bytes) dict \<times> RespValue" and h' r
    assume "f [] = (h', r)" "dict_wf h'"
    then show "\<exists>st'. update_hash env k f st = Ret (r, st') \<and> hash_becomes env k (dict_get h') st st'"
      using None w by (simp add: update_hash_def or_insert_def Let_def)
  qed (simp_all add: M dict_wf_def)
next
  case (Some e)
  then have l: "live (e_now env) (kmap st) k = Some e" using assms(3) by simp
  then obtain h where h: "data e = DHash h" "dict_get h = M"
    using assms(2) by (auto simp: key_hash_def split: DataType.splits)
  have ne: "\<not> is_expired (e_now env) e" using l Some by (auto simp: live_def split: if_splits)
  show ?thesis
  proof (rule that [of h])
    show "dict_wf h" using store_wf_data [OF assms(1) Some] h(1) by simp
    fix f :: "(bytes, bytes) dict \<Rightarrow> (bytes, bytes) dict \<times> RespValue" and h' r
    assume "f h = (h', r)" "dict_wf h'"
    then show "\<exists>st'. update_hash env k f st = Ret (r, st') \<and> hash_becomes env k (dict_get h') st st'"
      using Some h(1) write_becomes [OF assms(1) _ ne, of h' k]
      by (simp add: update_hash_def or_insert_def)
  qed (rule h(2))
qed

lemma hdel_spec:
  assumes "store_wf st" "key_hash env st k = Some M" "live (e_now env) (kmap st) k = kmap st k" "fs \<noteq> []"
  shows "\<exists>st'. hdel env (k # fs) st = Ret (Integer (int (card (dom M \<inter> set fs))), st')
    \<and> (st' = st \<and> kmap st k = None \<or> hash_becomes env k (M |` (- set fs)) st st')"
proof (cases "kmap st k")
  case None
  then have "M = Map.empty" using assms(2,3) by (simp add: key_hash_def)
  then show ?thesis using None assms(4) by (cases fs) (simp_all add: hdel_def)
next
  case (Some e)
  then have l: "live (e_now env) (kmap st) k = Some e" using assms(3) by simp
  then obtain h where h: "data e = DHash h" "dict_get h = M"
    using assms(2) by (auto simp: key_hash_def split: DataType.splits)
  have ne: "\<not> is_expired (e_now env) e" using l Some by (auto simp: live_def split: if_splits)
  have wf: "dict_wf h" using store_wf_data [OF assms(1) Some] h(1) by simp
  obtain h' where h': "hdel_fields fs h 0 = (h', 0 + int (card (dom M \<inter> set fs)))" "dict_wf h'" "dict_get h' = M |` (- set fs)"
    using hdel_fields_spec [OF wf, of fs 0] h(2) by auto
  have "hdel env (k # fs) st = Ret (Integer (int (card (dom M \<inter> set fs))), write_data k e (DHash h') st)"
    using Some h(1) h'(1) assms(4) by (cases fs) (simp_all add: hdel_def)
  then show ?thesis using write_becomes [OF assms(1) h'(2) ne, of k] Some h'(3) by simp
qed

lemma read_hash_spec:
  assumes "store_wf st" "key_hash env st k = Some M"
  obtains h st' where "dict_wf h" "dict_get h = M" "live (e_now env) (kmap st') = live (e_now env) (kmap st)"
    "\<And>f absent. f [] = absent \<Longrightarrow> read_hash env k f absent st = Ret (f h, st')"
proof (cases rule: read_data_cases [of env k st])
  case (absent st')
  then show ?thesis using assms that [of "[]" st']
    by (simp add: read_hash_def key_hash_def dict_wf_def)
next
  case (present e)
  then obtain h where h: "data e = DHash h" "dict_get h = M"
    using assms(2) by (auto simp: key_hash_def split: DataType.splits)
  moreover have "dict_wf h" using live_data_wf [OF assms(1) present(2)] h(1) by simp
  ultimately show ?thesis using that [of h st] present by (simp add: read_hash_def)
qed

subsection \<open>Claims\<close>



text \<open>
  The costs of the direct access. A hash that has expired but is not yet removed accepts HSET and
  answers it as a success, but the next read of the key finds nothing. HINCRBY on a field that is not
  an integer replaces it by the increment. Deleting the last field leaves a key with an empty hash.
  HSCAN with a cursor inside the fields and the largest count panics.
\<close>

theorem hash_damage:
  assumes "kmap st k = Some e" "data e = DHash [(f, w)]" "bytes_i64 w = None" "bytes_i64 incr = Some i"
    and "1 \<le> c" "c < length big" "length big < 2 ^ 64"
  shows "(\<exists>st'. hset env [k, g, v] st = Ret (Integer (if g = f then 0 else 1), st')
      \<and> (is_expired (e_now env) e \<longrightarrow> fst (read_data env k st') = None))
    \<and> (\<exists>st'. hincrby env [k, f, incr] st = Ret (Integer (wrap_i64 i), st')
      \<and> kmap st' k = Some (e\<lparr>data := DHash [(f, show_int (wrap_i64 i))]\<rparr>))
    \<and> (\<exists>st'. hdel env [k, f] st = Ret (Integer 1, st') \<and> kmap st' k = Some (e\<lparr>data := DHash []\<rparr>))
    \<and> hscan_page \<lparr>hs_cursor = c, hs_pattern = None, hs_count = 2 ^ 64 - 1\<rparr> big = Panic"
proof -
  have a: "\<exists>st'. hset env [k, g, v] st = Ret (Integer (if g = f then 0 else 1), st')
      \<and> (is_expired (e_now env) e \<longrightarrow> fst (read_data env k st') = None)"
    using assms(1,2) by (auto simp: hset_def update_hash_def or_insert_def write_data_def read_data_def store_get_def
        is_expired_def dict_simps)
  have b: "\<exists>st'. hincrby env [k, f, incr] st = Ret (Integer (wrap_i64 i), st')
      \<and> kmap st' k = Some (e\<lparr>data := DHash [(f, show_int (wrap_i64 i))]\<rparr>)"
    using assms(1-4) by (simp add: hincrby_def update_hash_def or_insert_def Let_def write_data_def dict_simps)
  have d: "\<exists>st'. hdel env [k, f] st = Ret (Integer 1, st') \<and> kmap st' k = Some (e\<lparr>data := DHash []\<rparr>)"
    using assms(1,2) by (simp add: hdel_def write_data_def dict_simps)
  have "c + (2 ^ 64 - 1) = c - 1 + 2 ^ 64" using assms(5) by simp
  then have "wrap_u64 (c + (2 ^ 64 - 1)) = c - 1"
    using assms(6,7) unfolding wrap_u64_def by (metis less_imp_diff_less less_trans mod_add_self2 mod_less)
  then have "hscan_page \<lparr>hs_cursor = c, hs_pattern = None, hs_count = 2 ^ 64 - 1\<rparr> big = Panic"
    using assms(5,6) by (simp add: hscan_page_def Let_def)
  then show ?thesis using a b d by blast
qed

theorem hash_damage_witness:
  "let e = (fresh_entry (DHash [([7], [120])]))\<lparr>expires_at := Some 1\<rparr>;
       st = store_new\<lparr>keyspace := [([1], e)]\<rparr> :: nat store; env = env0\<lparr>e_now := 5\<rparr> in
     (\<exists>st'. hset env [[1], [8], [9]] st = Ret (Integer 1, st') \<and> fst (read_data env [1] st') = None)
   \<and> hscan_page \<lparr>hs_cursor = 1, hs_pattern = None, hs_count = 2 ^ 64 - 1\<rparr> [([1], []), ([2], [])] = Panic"
proof -
  let ?e = "(fresh_entry (DHash [([7], [120])]))\<lparr>expires_at := Some 1\<rparr> :: nat entry"
  let ?st = "store_new\<lparr>keyspace := [([1], ?e)]\<rparr>"
  have k: "kmap ?st [1] = Some ?e" "data ?e = DHash [([7], [120])]" by simp_all
  have i: "bytes_i64 [120] = None" "bytes_i64 [50] = Some 2" by code_simp+
  have c: "(1 :: nat) \<le> 1" "1 < length [([1 :: byte], [] :: bytes), ([2], [])]" "length [([1 :: byte], [] :: bytes), ([2], [])] < 2 ^ 64" by simp_all
  have x: "is_expired (e_now (env0\<lparr>e_now := 5\<rparr>)) ?e" by (simp add: is_expired_def)
  note H = hash_damage [OF k i c, of "env0\<lparr>e_now := 5\<rparr>" "[8]" "[9]"]
  have "\<exists>st'. hset (env0\<lparr>e_now := 5\<rparr>) [[1], [8], [9]] ?st = Ret (Integer 1, st') \<and> fst (read_data (env0\<lparr>e_now := 5\<rparr>) [1] st') = None"
    using conjunct1 [OF H] x by auto
  then show ?thesis unfolding Let_def using conjunct2 [OF conjunct2 [OF conjunct2 [OF H]]] by (rule conjI)
qed

end
