(* ===== verification/Cmd_List.thy ===== *)
theory Cmd_List
  imports Cmd_Base Rust_Float
begin

text \<open>
  The list commands, \<^verbatim>\<open>crates/commands/src/list.rs\<close>. All of them use the key map directly and do not
  test the expiry of an entry. A pop, an update or a trim turns a packed list into a plain one.
  The blocking commands poll: a round tries every key, and between two rounds other clients may
  change the store. These changes, and the number of rounds before the timer of a timeout
  fires, are parameters.
\<close>

definition LIST_COMPACT_THRESHOLD :: nat where "LIST_COMPACT_THRESHOLD = 128"

definition ni :: "int \<Rightarrow> int \<Rightarrow> int" where
  "ni i len = (if i < 0 then (let r = len + i in if r < 0 then 0 else r) else i)"

subsection \<open>Access\<close>

text \<open>
  \<^verbatim>\<open>get_mut\<close> and \<^verbatim>\<open>as_list_mut\<close>: the entry with its value unpacked, and the list if it is one. A changed
  list is written back into the entry; one that became empty takes the key with it.
\<close>

definition get_list :: "bytes \<Rightarrow> 's store \<Rightarrow> ('s entry \<times> bytes list option) option outcome" where
  "get_list key st =
     (case dict_get (keyspace st) key of
        None \<Rightarrow> Ret None
      | Some e \<Rightarrow> obind (as_list_mut (data e)) (\<lambda>(d, l). Ret (Some (e\<lparr>data := d\<rparr>, l))))"

definition put_list :: "bytes \<Rightarrow> 's entry \<Rightarrow> bytes list \<Rightarrow> 's store \<Rightarrow> 's store" where
  "put_list key e l st = write_data key e (DList l) st"

definition put_or_remove :: "bytes \<Rightarrow> 's entry \<Rightarrow> bytes list \<Rightarrow> 's store \<Rightarrow> 's store" where
  "put_or_remove key e l st = (if l = [] then store_drop key st else put_list key e l st)"

definition pop_side :: "bool \<Rightarrow> 'a list \<Rightarrow> 'a \<times> 'a list" where
  "pop_side left l = (if left then (hd l, tl l) else (last l, butlast l))"

fun pop_times :: "bool \<Rightarrow> nat \<Rightarrow> 'a list \<Rightarrow> 'a list \<times> 'a list" where
  "pop_times left 0 l = ([], l)"
| "pop_times left (Suc n) l =
     (let (v, l') = pop_side left l; (vs, l'') = pop_times left n l' in (v # vs, l''))"

definition parse_side :: "bytes \<Rightarrow> bool option" where
  "parse_side b =
     (case from_utf8 b of
        None \<Rightarrow> None
      | Some x \<Rightarrow>
          if to_upper x = ascii ''LEFT'' then Some True
          else if to_upper x = ascii ''RIGHT'' then Some False else None)"

subsection \<open>Pushing\<close>

fun push_value :: "bool \<Rightarrow> bytes \<Rightarrow> 's DataType \<Rightarrow> 's DataType outcome" where
  "push_value left v (DListPack lp) =
     (if left then obind (lp_push_front lp (LString v)) (\<lambda>lp'. Ret (DListPack lp'))
      else Ret (DListPack (lp_push_back lp (LString v))))"
| "push_value left v (DList l) = Ret (DList (if left then v # l else l @ [v]))"
| "push_value left v d = Ret d"

fun push_values :: "bool \<Rightarrow> bytes list \<Rightarrow> 's DataType \<Rightarrow> 's DataType outcome" where
  "push_values left [] d = Ret d"
| "push_values left (v # vs) d = obind (push_value left v d) (push_values left vs)"

definition list_push :: "bool \<Rightarrow> string \<Rightarrow> env \<Rightarrow> bytes list \<Rightarrow> 's store \<Rightarrow> 's result" where
  "list_push left name env a st =
     (if length a < 2 then Ret (wrong_args name, st)
      else
        let (e, st1) = or_insert env (hd a) (DListPack lp_new) st in
        if \<not> is_list_type (data e) then Ret (wrongtype, st1)
        else obind (push_values left (tl a) (data e)) (\<lambda>d.
               let len = unwrap_or 0 (list_len d) in
               obind (maybe_upgrade_list LIST_COMPACT_THRESHOLD d) (\<lambda>d'.
                 Ret (Integer (int len), notify_watchers (hd a) (write_data (hd a) e d' st1)))))"

definition lp :: "env \<Rightarrow> bytes list \<Rightarrow> 's store \<Rightarrow> 's result" where
  "lp env a st = list_push True ''lpush'' env a st"

definition rp :: "env \<Rightarrow> bytes list \<Rightarrow> 's store \<Rightarrow> 's result" where
  "rp env a st = list_push False ''rpush'' env a st"

definition pushx :: "bool \<Rightarrow> env \<Rightarrow> bytes list \<Rightarrow> 's store \<Rightarrow> 's result" where
  "pushx left env a st =
     (if length a < 2 then Ret (wrong_args (if left then ''lpushx'' else ''rpushx''), st)
      else case read_data env (hd a) st of
             (None, st') \<Rightarrow> Ret (Integer 0, st')
           | (Some d, st') \<Rightarrow>
               if \<not> is_list_type d then Ret (wrongtype, st')
               else if left then lp env a st' else rp env a st')"

subsection \<open>Popping\<close>

definition list_pop :: "bool \<Rightarrow> string \<Rightarrow> bytes list \<Rightarrow> 's store \<Rightarrow> 's result" where
  "list_pop left name a st =
     (if a = [] then Ret (wrong_args name, st)
      else case (if length a \<ge> 2 then bytes_u64 (a ! 1) else Some 1) of
             None \<Rightarrow> Ret (not_int, st)
           | Some c \<Rightarrow>
               obind (get_list (hd a) st) (\<lambda>g.
                 case g of
                   None \<Rightarrow> Ret (if c > 1 then Array (Some []) else null_bulk, st)
                 | Some (e, None) \<Rightarrow> Ret (wrongtype, st)
                 | Some (e, Some l) \<Rightarrow>
                     if l = [] then Ret (null_bulk, put_list (hd a) e l st)
                     else
                       let n = min c (length l) in
                       if n = 1 then
                         (let (v, l') = pop_side left l in Ret (bull v, put_or_remove (hd a) e l' st))
                       else
                         (let (vs, l') = pop_times left n l
                          in Ret (Array (Some (map bull vs)), put_or_remove (hd a) e l' st))))"

definition lpo :: "bytes list \<Rightarrow> 's store \<Rightarrow> 's result" where
  "lpo a st = list_pop True ''lpop'' a st"

definition rpo :: "bytes list \<Rightarrow> 's store \<Rightarrow> 's result" where
  "rpo a st = list_pop False ''rpop'' a st"

subsection \<open>Reading\<close>

definition lr :: "bytes list \<Rightarrow> 's store \<Rightarrow> 's result" where
  "lr a st =
     (if length a < 3 then Ret (wrong_args ''lrange'', st)
      else case (bytes_i64 (a ! 1), bytes_i64 (a ! 2)) of
             (Some start, Some stop) \<Rightarrow>
               (case dict_get (keyspace st) (hd a) of
                  None \<Rightarrow> Ret (Array (Some []), st)
                | Some e \<Rightarrow>
                    obind (list_range (data e) start stop) (\<lambda>r.
                      Ret (case r of Some items \<Rightarrow> Array (Some (map bull items)) | None \<Rightarrow> wrongtype, st)))
           | _ \<Rightarrow> Ret (not_int, st))"

definition ll :: "bytes list \<Rightarrow> 's store \<Rightarrow> 's result" where
  "ll a st =
     (if a = [] then Ret (wrong_args ''llen'', st)
      else Ret (case dict_get (keyspace st) (hd a) of
                  None \<Rightarrow> Integer 0
                | Some e \<Rightarrow> (case list_len (data e) of Some n \<Rightarrow> Integer (int n) | None \<Rightarrow> wrongtype), st))"

definition li :: "bytes list \<Rightarrow> 's store \<Rightarrow> 's result" where
  "li a st =
     (if length a < 2 then Ret (wrong_args ''lindex'', st)
      else case bytes_i64 (a ! 1) of
             None \<Rightarrow> Ret (not_int, st)
           | Some idx \<Rightarrow>
               (case dict_get (keyspace st) (hd a) of
                  None \<Rightarrow> Ret (null_bulk, st)
                | Some e \<Rightarrow>
                    obind (list_get (data e) idx) (\<lambda>r.
                      Ret (case r of
                             Some v \<Rightarrow> bull v
                           | None \<Rightarrow> if is_list_type (data e) then null_bulk else wrongtype, st))))"

subsection \<open>Updating\<close>

definition ls :: "bytes list \<Rightarrow> 's store \<Rightarrow> 's result" where
  "ls a st =
     (if length a < 3 then Ret (wrong_args ''lset'', st)
      else case bytes_i64 (a ! 1) of
             None \<Rightarrow> Ret (not_int, st)
           | Some idx \<Rightarrow>
               obind (get_list (hd a) st) (\<lambda>g.
                 case g of
                   None \<Rightarrow> Ret (Error (ascii ''ERR no such key''), st)
                 | Some (e, None) \<Rightarrow> Ret (wrongtype, st)
                 | Some (e, Some l) \<Rightarrow>
                     (let len = int (length l); i = ni idx len in
                      if i < 0 \<or> i \<ge> len then Ret (Error (ascii ''ERR index out of range''), put_list (hd a) e l st)
                      else Ret (ok, put_list (hd a) e (l[nat i := a ! 2]) st))))"

definition lins :: "bytes list \<Rightarrow> 's store \<Rightarrow> 's result" where
  "lins a st =
     (if length a < 4 then Ret (wrong_args ''linsert'', st)
      else
        let side = map_option to_upper (from_utf8 (a ! 1)) in
        if side \<noteq> Some (ascii ''BEFORE'') \<and> side \<noteq> Some (ascii ''AFTER'') then Ret (syntax_error, st)
        else obind (get_list (hd a) st) (\<lambda>g.
               case g of
                 None \<Rightarrow> Ret (Integer (-1), st)
               | Some (e, None) \<Rightarrow> Ret (wrongtype, st)
               | Some (e, Some l) \<Rightarrow>
                   (case position (\<lambda>v. v = a ! 2) l of
                      None \<Rightarrow> Ret (Integer (-1), put_list (hd a) e l st)
                    | Some p \<Rightarrow>
                        (let l' = insert_at (if side = Some (ascii ''BEFORE'') then p else p + 1) (a ! 3) l
                         in Ret (Integer (int (length l')), put_list (hd a) e l' st)))))"

text \<open>The two loops of LREM, forwards from an index and backwards from one.\<close>

function lrem_front :: "bytes \<Rightarrow> bytes list \<Rightarrow> nat \<Rightarrow> int \<Rightarrow> bytes list" where
  "lrem_front x l i rm =
     (if i < length l \<and> rm > 0 then
        (if l ! i = x then lrem_front x (remove_at i l) i (rm - 1) else lrem_front x l (i + 1) rm)
      else l)"
  by auto
termination
  by (relation "measure (\<lambda>(x, l, i, rm). length l - i)") (auto simp: remove_at_def)

function lrem_back :: "bytes \<Rightarrow> bytes list \<Rightarrow> int \<Rightarrow> int \<Rightarrow> bytes list" where
  "lrem_back x l i rm =
     (if i \<ge> 0 \<and> rm > 0 then
        (if l ! nat i = x then lrem_back x (remove_at (nat i) l) (i - 1) (rm - 1) else lrem_back x l (i - 1) rm)
      else l)"
  by auto
termination
  by (relation "measure (\<lambda>(x, l, i, rm). nat (i + 1))") auto

declare lrem_front.simps [simp del] lrem_back.simps [simp del]

definition lrem_list :: "int \<Rightarrow> bytes \<Rightarrow> bytes list \<Rightarrow> bytes list" where
  "lrem_list c x l =
     (if c > 0 then lrem_front x l 0 c
      else if c < 0 then lrem_back x l (int (length l) - 1) (wrap_i64 \<bar>c\<bar>)
      else filter (\<lambda>v. v \<noteq> x) l)"

definition lre :: "bytes list \<Rightarrow> 's store \<Rightarrow> 's result" where
  "lre a st =
     (if length a < 3 then Ret (wrong_args ''lrem'', st)
      else case bytes_i64 (a ! 1) of
             None \<Rightarrow> Ret (not_int, st)
           | Some c \<Rightarrow>
               obind (get_list (hd a) st) (\<lambda>g.
                 case g of
                   None \<Rightarrow> Ret (Integer 0, st)
                 | Some (e, None) \<Rightarrow> Ret (wrongtype, st)
                 | Some (e, Some l) \<Rightarrow>
                     (let l' = lrem_list c (a ! 2) l
                      in Ret (Integer (int (length l - length l')), put_or_remove (hd a) e l' st))))"

definition ltrim_list :: "int \<Rightarrow> int \<Rightarrow> bytes list \<Rightarrow> bytes list" where
  "ltrim_list start stop l =
     (let len = int (length l); si = ni start len; ei = ni stop len in
      if si > ei \<or> si \<ge> len then []
      else let s = nat (max si 0); t = nat (min ei (len - 1)) in map (\<lambda>i. l ! i) [s..<t + 1])"

definition ltr :: "bytes list \<Rightarrow> 's store \<Rightarrow> 's result" where
  "ltr a st =
     (if length a < 3 then Ret (wrong_args ''ltrim'', st)
      else case (bytes_i64 (a ! 1), bytes_i64 (a ! 2)) of
             (Some start, Some stop) \<Rightarrow>
               obind (get_list (hd a) st) (\<lambda>g.
                 case g of
                   None \<Rightarrow> Ret (ok, st)
                 | Some (e, None) \<Rightarrow> Ret (wrongtype, st)
                 | Some (e, Some l) \<Rightarrow>
                     Ret (ok, put_list (hd a) e (if l = [] then l else ltrim_list start stop l) st))
           | _ \<Rightarrow> Ret (not_int, st))"

subsection \<open>Moving\<close>

text \<open>Taking one element off a list: an error reply, or the element if there is one.\<close>

definition take_one :: "bool \<Rightarrow> bytes \<Rightarrow> 's store \<Rightarrow> ((RespValue + bytes option) \<times> 's store) outcome" where
  "take_one left key st =
     obind (get_list key st) (\<lambda>g.
       case g of
         None \<Rightarrow> Ret (Inr None, st)
       | Some (e, None) \<Rightarrow> Ret (Inl wrongtype, st)
       | Some (e, Some l) \<Rightarrow>
           if l = [] then Ret (Inr None, put_list key e l st)
           else let (v, l') = pop_side left l in Ret (Inr (Some v), put_or_remove key e l' st))"

text \<open>Adding one element to a list; the flag tells whether the destination is a list.\<close>

definition push_to_dest :: "env \<Rightarrow> bytes \<Rightarrow> bytes \<Rightarrow> bool \<Rightarrow> 's store \<Rightarrow> (bool \<times> 's store) outcome" where
  "push_to_dest env dest v to_left st =
     (let (e, st1) = or_insert env dest (DListPack lp_new) st in
      obind (as_list_mut (data e)) (\<lambda>(d, l).
        case l of
          None \<Rightarrow> Ret (False, st1)
        | Some l \<Rightarrow>
            Ret (True, notify_watchers dest (put_list dest e (if to_left then v # l else l @ [v]) st1))))"

definition lmo :: "env \<Rightarrow> bytes list \<Rightarrow> 's store \<Rightarrow> 's result" where
  "lmo env a st =
     (if length a < 4 then Ret (wrong_args ''lmove'', st)
      else case (parse_side (a ! 2), parse_side (a ! 3)) of
             (Some from_left, Some to_left) \<Rightarrow>
               obind (take_one from_left (hd a) st) (\<lambda>(popped, st1).
                 case popped of
                   Inl err \<Rightarrow> Ret (err, st1)
                 | Inr None \<Rightarrow> Ret (null_bulk, st1)
                 | Inr (Some v) \<Rightarrow>
                     obind (push_to_dest env (a ! 1) v to_left st1) (\<lambda>(is_list, st2).
                       Ret (if is_list then bull v else wrongtype, st2)))
           | _ \<Rightarrow> Ret (syntax_error, st))"

definition rpoplpush :: "env \<Rightarrow> bytes list \<Rightarrow> 's store \<Rightarrow> 's result" where
  "rpoplpush env a st =
     (if length a \<noteq> 2 then Ret (wrong_args ''rpoplpush'', st)
      else lmo env [a ! 0, a ! 1, ascii ''RIGHT'', ascii ''LEFT''] st)"

subsection \<open>Searching\<close>

record lpos_opts =
  lpo_rank :: int
  lpo_count :: "nat option"
  lpo_maxlen :: "nat option"

fun lpos_options :: "bytes list \<Rightarrow> lpos_opts \<Rightarrow> RespValue + lpos_opts" where
  "lpos_options [] po = Inr po"
| "lpos_options (a # rest) po =
     (let arg = map_option to_upper (from_utf8 a) in
      if arg = Some (ascii ''RANK'') then
        (case rest of
           [] \<Rightarrow> Inl syntax_error
         | b # rest' \<Rightarrow>
             (case bytes_i64 b of None \<Rightarrow> Inl not_int | Some v \<Rightarrow> lpos_options rest' (po\<lparr>lpo_rank := v\<rparr>)))
      else if arg = Some (ascii ''COUNT'') then
        (case rest of
           [] \<Rightarrow> Inl syntax_error
         | b # rest' \<Rightarrow>
             (case bytes_u64 b of None \<Rightarrow> Inl not_int | Some v \<Rightarrow> lpos_options rest' (po\<lparr>lpo_count := Some v\<rparr>)))
      else if arg = Some (ascii ''MAXLEN'') then
        (case rest of
           [] \<Rightarrow> Inl syntax_error
         | b # rest' \<Rightarrow>
             (case bytes_u64 b of None \<Rightarrow> Inl not_int | Some v \<Rightarrow> lpos_options rest' (po\<lparr>lpo_maxlen := Some v\<rparr>)))
      else Inl syntax_error)"

text \<open>The loop over the candidate positions, which stops once enough are found.\<close>

fun lpos_scan :: "bytes list \<Rightarrow> bytes \<Rightarrow> nat \<Rightarrow> nat list \<Rightarrow> nat list \<Rightarrow> nat list" where
  "lpos_scan l x count [] found = found"
| "lpos_scan l x count (p # ps) found =
     (if l ! p = x then
        (let found' = found @ [p] in if length found' \<ge> count then found' else lpos_scan l x count ps found')
      else lpos_scan l x count ps found)"

definition lpos_reply :: "lpos_opts \<Rightarrow> bytes \<Rightarrow> bytes list \<Rightarrow> RespValue" where
  "lpos_reply po x l =
     (if l = [] then Integer (-1)
      else
        let len = length l; maxlen = unwrap_or len (lpo_maxlen po); count = unwrap_or 1 (lpo_count po);
            positions = (if lpo_rank po > 0 then take maxlen [0..<len] else rev (take maxlen (rev [0..<len])));
            found = lpos_scan l x count positions []
        in if found = [] then (if count > 1 then Array (Some []) else Integer (-1))
           else if count = 1 then Integer (int (hd found))
           else Array (Some (map (Integer \<circ> int) found)))"

definition lpos :: "bytes list \<Rightarrow> 's store \<Rightarrow> 's result" where
  "lpos a st =
     (if length a < 2 then Ret (wrong_args ''lpos'', st)
      else case lpos_options (drop 2 a) \<lparr>lpo_rank = 1, lpo_count = None, lpo_maxlen = None\<rparr> of
             Inl err \<Rightarrow> Ret (err, st)
           | Inr po \<Rightarrow>
               (case dict_get (keyspace st) (hd a) of
                  None \<Rightarrow> Ret (Integer (-1), st)
                | Some e \<Rightarrow>
                    obind (list_range (data e) (- (2 ^ 63)) (2 ^ 63 - 1)) (\<lambda>r.
                      Ret (case r of None \<Rightarrow> wrongtype | Some l \<Rightarrow> lpos_reply po (a ! 1) l, st))))"

subsection \<open>Popping from the first list that has elements\<close>

fun try_pop ::
  "bool \<Rightarrow> nat \<Rightarrow> (bytes list \<Rightarrow> RespValue) \<Rightarrow> bytes list \<Rightarrow> 's store \<Rightarrow> (RespValue option \<times> 's store) outcome" where
  "try_pop left count item [] st = Ret (None, st)"
| "try_pop left count item (key # keys) st =
     obind (get_list key st) (\<lambda>g.
       case g of
         Some (e, Some l) \<Rightarrow>
           if l = [] then try_pop left count item keys (put_list key e l st)
           else
             let (vs, l') = pop_times left (min count (length l)) l
             in Ret (Some (Array (Some [bull key, item vs])), put_or_remove key e l' st)
       | _ \<Rightarrow> try_pop left count item keys st)"

text \<open>The arguments of LMPOP and BLMPOP from the number of keys on; the end of the keys may wrap.\<close>

definition mpop_args :: "nat \<Rightarrow> bytes list \<Rightarrow> (RespValue + (bool \<times> bytes list \<times> nat option)) outcome" where
  "mpop_args off a =
     (case bytes_u64 (a ! (off - 2)) of
        None \<Rightarrow> Ret (Inl not_int)
      | Some num_keys \<Rightarrow>
          (let stop = wrap_u64 (off + num_keys) in
           if num_keys = 0 then Ret (Inl not_int)
           else if length a < stop then Ret (Inl syntax_error)
           else case parse_side (a ! (off - 1)) of
             None \<Rightarrow> Ret (Inl syntax_error)
           | Some direction \<Rightarrow>
               if stop < off then Panic
               else
                 let keys = take (stop - off) (drop off a) in
                 if length a > stop then
                   (if map_option to_upper (from_utf8 (a ! stop)) = Some (ascii ''COUNT'') then
                      if length a \<le> stop + 1 then Ret (Inl syntax_error)
                      else (case bytes_u64 (a ! (stop + 1)) of
                              None \<Rightarrow> Ret (Inl not_int)
                            | Some n \<Rightarrow> Ret (Inr (direction, keys, Some n)))
                    else Ret (Inl syntax_error))
                 else Ret (Inr (direction, keys, None))))"

definition popped_array :: "bytes list \<Rightarrow> RespValue" where
  "popped_array vs = Array (Some (map bull vs))"

definition lmpop :: "bytes list \<Rightarrow> 's store \<Rightarrow> 's result" where
  "lmpop a st =
     (if length a < 3 then Ret (wrong_args ''lmpop'', st)
      else obind (mpop_args 2 a) (\<lambda>p.
             case p of
               Inl err \<Rightarrow> Ret (err, st)
             | Inr (direction, keys, count) \<Rightarrow>
                 obind (try_pop direction (unwrap_or 1 count) popped_array keys st) (\<lambda>(r, st').
                   Ret (unwrap_or null_bulk r, st'))))"

subsection \<open>Blocking\<close>

text \<open>
  The polling loop. A round is one attempt; if it finds nothing the loop looks for a notification and
  sleeps if there is none, during which other clients run: \<open>others i\<close> is what they do to the store
  after round \<open>i\<close>. The timer of a limit fires in the sleep after that round.
\<close>

partial_function (option) block_loop ::
  "('s store \<Rightarrow> (RespValue option \<times> 's store) outcome) \<Rightarrow> (nat \<Rightarrow> 's store \<Rightarrow> 's store) \<Rightarrow> nat option \<Rightarrow> nat
    \<Rightarrow> 's store \<Rightarrow> 's result option" where
  "block_loop attempt others limit i st =
     (case attempt st of
        Panic \<Rightarrow> Some Panic
      | Deadlock \<Rightarrow> Some Deadlock
      | Ret (Some r, st') \<Rightarrow> Some (Ret (r, st'))
      | Ret (None, st') \<Rightarrow>
          if limit = Some i then Some (Ret (null_bulk, others i st'))
          else block_loop attempt others limit (Suc i) (others i st'))"

declare block_loop.simps [code]

definition f64_is_zero :: "f64 \<Rightarrow> bool" where
  "f64_is_zero d \<longleftrightarrow> f64_exp d = 0 \<and> f64_frac d = 0"

text \<open>\<^verbatim>\<open>Duration::from_secs_f64\<close> panics on a negative number, on NaN and from \<open>2 ^ 64\<close> on.\<close>

definition duration_ok :: "f64 \<Rightarrow> bool" where
  "duration_ok d \<longleftrightarrow> \<not> f64_is_nan d \<and> \<not> f64_is_infinite d \<and> (f64_is_zero d \<or> \<not> f64_neg d)
     \<and> (let (n, q) = f64_ratio d in n < 2 ^ 64 * q)"

definition watch_all :: "bytes list \<Rightarrow> 's store \<Rightarrow> 's store" where
  "watch_all keys st = fold (\<lambda>k s. snd (store_watch k s)) keys st"

text \<open>
  A blocking command: one attempt at once, then the loop, without a limit for the timeout zero and
  otherwise with the number of rounds the timer allows.
\<close>

definition block_on ::
  "('s store \<Rightarrow> (RespValue option \<times> 's store) outcome) \<Rightarrow> bytes list \<Rightarrow> f64 \<Rightarrow> nat \<Rightarrow> (nat \<Rightarrow> 's store \<Rightarrow> 's store)
    \<Rightarrow> 's store \<Rightarrow> 's result option" where
  "block_on attempt keys timeout rounds others st =
     (case attempt st of
        Panic \<Rightarrow> Some Panic
      | Deadlock \<Rightarrow> Some Deadlock
      | Ret (Some r, st') \<Rightarrow> Some (Ret (r, st'))
      | Ret (None, st') \<Rightarrow>
          if f64_is_zero timeout then block_loop attempt others None 0 (watch_all keys st')
          else if \<not> duration_ok timeout then Some Panic
          else block_loop attempt others (Some rounds) 0 (watch_all keys st'))"

definition not_timeout :: RespValue where
  "not_timeout = Error (ascii ''ERR timeout is not a float or out of range'')"

definition block_pop ::
  "bool \<Rightarrow> string \<Rightarrow> nat \<Rightarrow> (nat \<Rightarrow> 's store \<Rightarrow> 's store) \<Rightarrow> bytes list \<Rightarrow> 's store \<Rightarrow> 's result option" where
  "block_pop left name rounds others a st =
     (if length a < 2 then Some (Ret (wrong_args name, st))
      else case parse_f64 (utf8_or_empty (last a)) of
             None \<Rightarrow> Some (Ret (not_timeout, st))
           | Some timeout \<Rightarrow>
               block_on (try_pop left 1 (\<lambda>vs. bull (hd vs)) (butlast a)) (butlast a) timeout rounds others st)"

definition bl :: "nat \<Rightarrow> (nat \<Rightarrow> 's store \<Rightarrow> 's store) \<Rightarrow> bytes list \<Rightarrow> 's store \<Rightarrow> 's result option" where
  "bl rounds others a st = block_pop True ''blpop'' rounds others a st"

definition br :: "nat \<Rightarrow> (nat \<Rightarrow> 's store \<Rightarrow> 's store) \<Rightarrow> bytes list \<Rightarrow> 's store \<Rightarrow> 's result option" where
  "br rounds others a st = block_pop False ''brpop'' rounds others a st"

definition blmpop :: "nat \<Rightarrow> (nat \<Rightarrow> 's store \<Rightarrow> 's store) \<Rightarrow> bytes list \<Rightarrow> 's store \<Rightarrow> 's result option" where
  "blmpop rounds others a st =
     (if length a < 4 then Some (Ret (wrong_args ''blmpop'', st))
      else case parse_f64 (utf8_or_empty (hd a)) of
             None \<Rightarrow> Some (Ret (not_timeout, st))
           | Some timeout \<Rightarrow>
               (case mpop_args 3 a of
                  Panic \<Rightarrow> Some Panic
                | Deadlock \<Rightarrow> Some Deadlock
                | Ret (Inl err) \<Rightarrow> Some (Ret (err, st))
                | Ret (Inr (direction, keys, count)) \<Rightarrow>
                    block_on (try_pop direction (unwrap_or 1 count) popped_array keys) keys timeout rounds others st))"

text \<open>The attempt of BLMOVE. It does not look at whether the destination took the element.\<close>

definition try_move :: "env \<Rightarrow> bytes \<Rightarrow> bytes \<Rightarrow> bool \<Rightarrow> bool \<Rightarrow> 's store \<Rightarrow> (RespValue option \<times> 's store) outcome" where
  "try_move env source destination from_left to_left st =
     obind (take_one from_left source st) (\<lambda>(popped, st1).
       case popped of
         Inl err \<Rightarrow> Ret (Some err, st1)
       | Inr None \<Rightarrow> Ret (None, st1)
       | Inr (Some v) \<Rightarrow> obind (push_to_dest env destination v to_left st1) (\<lambda>(_, st2). Ret (Some (bull v), st2)))"

definition blmove :: "env \<Rightarrow> nat \<Rightarrow> (nat \<Rightarrow> 's store \<Rightarrow> 's store) \<Rightarrow> bytes list \<Rightarrow> 's store \<Rightarrow> 's result option" where
  "blmove env rounds others a st =
     (if length a < 5 then Some (Ret (wrong_args ''blmove'', st))
      else case (parse_side (a ! 2), parse_side (a ! 3)) of
             (Some from_dir, Some to_dir) \<Rightarrow>
               (case parse_f64 (utf8_or_empty (a ! 4)) of
                  None \<Rightarrow> Some (Ret (not_timeout, st))
                | Some timeout \<Rightarrow>
                    block_on (try_move env (a ! 0) (a ! 1) from_dir to_dir) [a ! 0] timeout rounds others st)
           | _ \<Rightarrow> Some (Ret (syntax_error, st)))"

definition brpoplpush :: "env \<Rightarrow> nat \<Rightarrow> (nat \<Rightarrow> 's store \<Rightarrow> 's store) \<Rightarrow> bytes list \<Rightarrow> 's store \<Rightarrow> 's result option" where
  "brpoplpush env rounds others a st =
     (if length a \<noteq> 3 then Some (Ret (wrong_args ''brpoplpush'', st))
      else blmove env rounds others [a ! 0, a ! 1, ascii ''RIGHT'', ascii ''LEFT'', a ! 2] st)"

subsection \<open>The dispatcher\<close>

definition list_handle ::
  "env \<Rightarrow> nat \<Rightarrow> (nat \<Rightarrow> 's store \<Rightarrow> 's store) \<Rightarrow> bytes list \<Rightarrow> 's store \<Rightarrow> 's result option" where
  "list_handle env rounds others a st =
     (if a = [] then Some (Ret (Error (ascii ''ERR wrong number of arguments''), st))
      else case from_utf8 (hd a) of
        None \<Rightarrow> Some (Ret (Error (ascii ''ERR invalid command name''), st))
      | Some x \<Rightarrow>
          (let cmd = to_upper x; args = tl a in
           if cmd = ascii ''LPUSH'' then Some (lp env args st)
           else if cmd = ascii ''RPUSH'' then Some (rp env args st)
           else if cmd = ascii ''LPUSHX'' then Some (pushx True env args st)
           else if cmd = ascii ''RPUSHX'' then Some (pushx False env args st)
           else if cmd = ascii ''RPOPLPUSH'' then Some (rpoplpush env args st)
           else if cmd = ascii ''BRPOPLPUSH'' then brpoplpush env rounds others args st
           else if cmd = ascii ''LPOP'' then Some (lpo args st)
           else if cmd = ascii ''RPOP'' then Some (rpo args st)
           else if cmd = ascii ''LRANGE'' then Some (lr args st)
           else if cmd = ascii ''LLEN'' then Some (ll args st)
           else if cmd = ascii ''LINDEX'' then Some (li args st)
           else if cmd = ascii ''LSET'' then Some (ls args st)
           else if cmd = ascii ''LINSERT'' then Some (lins args st)
           else if cmd = ascii ''LREM'' then Some (lre args st)
           else if cmd = ascii ''LTRIM'' then Some (ltr args st)
           else if cmd = ascii ''LMOVE'' then Some (lmo env args st)
           else if cmd = ascii ''BLPOP'' then bl rounds others args st
           else if cmd = ascii ''BRPOP'' then br rounds others args st
           else if cmd = ascii ''LMPOP'' then Some (lmpop args st)
           else if cmd = ascii ''BLMPOP'' then blmpop rounds others args st
           else if cmd = ascii ''BLMOVE'' then blmove env rounds others args st
           else if cmd = ascii ''LPOS'' then Some (lpos args st)
           else Some (Ret (Error (ascii ''ERR unknown command '' @ [96] @ cmd @ [96]), st))))"

end
