(* ===== verification/List_Props.thy ===== *)
theory List_Props
  imports Cmd_List
begin

text \<open>
  What the list commands do to the lists a client sees, whatever their encoding: pushes, pops,
  removals and moves, the blocking pops as a liveness property, and the paths that lose an element,
  pick the wrong one or panic.
\<close>

subsection \<open>The list of a key\<close>

text \<open>The list the commands see under a key: empty if it is absent, undefined for other types.\<close>

definition key_list :: "'s store \<Rightarrow> bytes \<Rightarrow> bytes list option" where
  "key_list st k = (case kmap st k of None \<Rightarrow> Some [] | Some e \<Rightarrow> data_list (data e))"

text \<open>The list of one key becomes the given one; every other key stays.\<close>

definition list_becomes :: "bytes \<Rightarrow> bytes list \<Rightarrow> 's store \<Rightarrow> 's store \<Rightarrow> bool" where
  "list_becomes k xs st st' \<longleftrightarrow>
     key_list st' k = Some xs \<and> store_wf st' \<and> kmap st' |` (- {k}) = kmap st |` (- {k})"

lemma list_becomes_other: "list_becomes k xs st st' \<Longrightarrow> k' \<noteq> k \<Longrightarrow> kmap st' k' = kmap st k'"
  unfolding list_becomes_def by (auto dest!: fun_cong [where x = k'] simp: restrict_map_def)

lemma list_becomes_notify: "list_becomes k xs st st' \<Longrightarrow> list_becomes k xs st (notify_watchers j st')"
  by (simp add: list_becomes_def key_list_def store_wf_notify)

lemma restrict_upd_same: "(m(k := v)) |` (- {k}) = m |` (- {k})"
  by (rule ext) (simp add: restrict_map_def)

lemma put_list_becomes: "store_wf st \<Longrightarrow> list_becomes k l st (put_list k e l st)"
  by (simp add: list_becomes_def put_list_def key_list_def write_data_def dict_simps restrict_upd_same store_wf_put)

lemma put_or_remove_becomes: "store_wf st \<Longrightarrow> list_becomes k l st (put_or_remove k e l st)"
  using put_list_becomes [of st k l e] store_wf_drop [of st k]
  by (simp add: put_or_remove_def list_becomes_def key_list_def store_drop_def dict_simps restrict_upd_same)

lemma as_list_mut_list: "data_wf d \<Longrightarrow> data_list d = Some xs \<Longrightarrow> as_list_mut d = Ret (DList xs, Some xs)"
  by (simp add: as_list_mut_def upgrade_to_list_data)

lemma data_list_None: "data_wf d \<Longrightarrow> data_list d = None \<longleftrightarrow> \<not> is_list_type d"
  by (cases d) (auto simp: lp_rep_reads)

lemma as_list_mut_other: "data_wf d \<Longrightarrow> data_list d = None \<Longrightarrow> as_list_mut d = Ret (d, None)"
  by (cases d) (auto simp: as_list_mut_def lp_rep_reads)

lemma get_list_cases [consumes 1]:
  assumes "store_wf st"
  obtains (absent) "get_list k st = Ret None" "kmap st k = None" "key_list st k = Some []"
  | (other) e where "get_list k st = Ret (Some (e, None))" "kmap st k = Some e" "key_list st k = None"
  | (found) e xs where "get_list k st = Ret (Some (e, Some xs))" "kmap st k \<noteq> None" "key_list st k = Some xs"
proof (cases "kmap st k")
  case None
  then show ?thesis using absent by (simp add: get_list_def key_list_def)
next
  case (Some e)
  have wf: "data_wf (data e)" by (rule store_wf_data [OF assms Some])
  show ?thesis
  proof (cases "data_list (data e)")
    case None
    then show ?thesis
      using other [of e] Some as_list_mut_other [OF wf] by (simp add: get_list_def key_list_def)
  next
    case (Some xs)
    then show ?thesis
      using found [of "e\<lparr>data := DList xs\<rparr>" xs] \<open>kmap st k = Some e\<close> as_list_mut_list [OF wf]
      by (simp add: get_list_def key_list_def)
  qed
qed

subsection \<open>Popping\<close>

definition popped :: "bool \<Rightarrow> nat \<Rightarrow> 'a list \<Rightarrow> 'a list" where
  "popped left n l = take n (if left then l else rev l)"

definition kept :: "bool \<Rightarrow> nat \<Rightarrow> 'a list \<Rightarrow> 'a list" where
  "kept left n l = (if left then drop n l else take (length l - n) l)"

lemma pop_times_eq: "n \<le> length l \<Longrightarrow> pop_times left n l = (popped left n l, kept left n l)"
proof (induction n arbitrary: l)
  case 0
  then show ?case by (simp add: popped_def kept_def)
next
  case (Suc n)
  show ?case
  proof (cases left)
    case True
    then show ?thesis using Suc by (cases l) (simp_all add: pop_side_def popped_def kept_def)
  next
    case False
    with Suc.prems obtain m y where l: "l = m @ [y]" by (cases l rule: rev_cases) auto
    then show ?thesis using Suc False by (simp add: pop_side_def popped_def kept_def)
  qed
qed

lemma pop_side_eq: "l \<noteq> [] \<Longrightarrow> pop_side left l = (hd (popped left 1 l), kept left 1 l)"
  using pop_times_eq [of 1 l left] by (cases l) (auto simp: pop_side_def popped_def kept_def last_rev hd_rev butlast_conv_take drop_Suc)

lemma list_pop_spec:
  assumes "store_wf st" "key_list st k = Some xs" "bytes_u64 nb = Some n"
  shows "\<exists>st'. list_pop left name [k, nb] st =
      Ret (if kmap st k = None then (if n > 1 then Array (Some []) else null_bulk)
           else if xs = [] then null_bulk
           else if min n (length xs) = 1 then bull (hd (popped left 1 xs))
           else Array (Some (map bull (popped left n xs))), st')
    \<and> list_becomes k (kept left n xs) st st'"
  using assms(1)
proof (cases rule: get_list_cases [of st k])
  case absent
  then show ?thesis using assms by (simp add: list_pop_def list_becomes_def kept_def)
next
  case (other e)
  then show ?thesis using assms by simp
next
  case (found e ys)
  then have ys: "ys = xs" using assms(2) by simp
  show ?thesis
  proof (cases "xs = []")
    case True
    then show ?thesis using found assms(3) ys put_list_becomes [OF assms(1), of k "[]" e]
      by (auto simp: list_pop_def kept_def)
  next
    case False
    have n: "kept left (min n (length xs)) xs = kept left n xs" "popped left (min n (length xs)) xs = popped left n xs"
      by (auto simp: kept_def popped_def min_def)
    have p: "pop_times left (min n (length xs)) xs = (popped left n xs, kept left n xs)"
      using pop_times_eq [of "min n (length xs)" xs left] n by simp
    show ?thesis
    proof (cases "min n (length xs) = 1")
      case True
      then have "kept left 1 xs = kept left n xs" using n by simp
      then show ?thesis using True False found assms(3) ys pop_side_eq [OF False, of left]
          put_or_remove_becomes [OF assms(1), of k "kept left n xs" e]
        by (auto simp: list_pop_def Let_def)
    next
      case nl: False
      then show ?thesis using False found assms(3) ys p put_or_remove_becomes [OF assms(1), of k "kept left n xs" e]
        by (auto simp: list_pop_def Let_def)
    qed
  qed
qed

subsection \<open>Pushing\<close>

text \<open>
  A packed list holds strings below \<open>2 ^ 32 - 16\<close> bytes and at most \<open>2 ^ 63\<close> bytes in all; a push has room
  if it stays within these limits.
\<close>

definition pack_weight :: "'s DataType \<Rightarrow> nat" where
  "pack_weight d = (case d of
     DListPack p \<Rightarrow> (case lp_entries p of Ret es \<Rightarrow> sum_list (map entry_weight es) | _ \<Rightarrow> 0) | _ \<Rightarrow> 0)"

definition room :: "'s store \<Rightarrow> bytes \<Rightarrow> bytes list \<Rightarrow> bool" where
  "room st k vs \<longleftrightarrow> list_all (\<lambda>v. length v < 2 ^ 32 - 16) vs
     \<and> sum_list (map (\<lambda>v. entry_weight (LString v)) vs) + (case kmap st k of None \<Rightarrow> 0 | Some e \<Rightarrow> pack_weight (data e)) < 2 ^ 63"

definition pushed :: "bool \<Rightarrow> 'a list \<Rightarrow> 'a list \<Rightarrow> 'a list" where
  "pushed left vs l = (if left then rev vs @ l else l @ vs)"

lemma push_value_spec:
  assumes "data_wf d" "data_list d = Some xs" "length v < 2 ^ 32 - 16"
    and "entry_weight (LString v) + pack_weight d < 2 ^ 63"
  shows "\<exists>d'. push_value left v d = Ret d' \<and> data_wf d' \<and> data_list d' = Some (pushed left [v] xs)
    \<and> pack_weight d' \<le> entry_weight (LString v) + pack_weight d"
proof (cases d)
  case (DListPack p)
  then obtain es where r: "lp_rep p es" using assms(1) by auto
  have es: "xs = map entry_to_bytes es" "pack_weight d = sum_list (map entry_weight es)"
    using assms(2) DListPack r by (simp_all add: lp_rep_reads pack_weight_def)
  let ?c = "if left then PushFront (LString v) else PushBack (LString v)"
  have c: "op_entry_ok ?c" "op_weight ?c + sum_list (map entry_weight es) < 2 ^ 63"
    using assms(3,4) es(2) by (cases left; simp)+
  obtain p' where p': "lp_step ?c p = Ret p'" "lp_rep p' (list_step ?c es)"
    "sum_list (map entry_weight (list_step ?c es)) \<le> op_weight ?c + sum_list (map entry_weight es)"
    using lp_step_refines [OF r c] by blast
  have "push_value left v d = Ret (DListPack p')"
    using p'(1) DListPack by (cases left) simp_all
  moreover have "data_list (DListPack p') = Some (pushed left [v] xs)"
    using data_list_pack [OF p'(2)] es(1) by (cases left) (simp_all add: pushed_def)
  moreover have "pack_weight (DListPack p') \<le> entry_weight (LString v) + pack_weight d"
    using p'(3) lp_rep_reads(1) [OF p'(2)] es(2) by (cases left) (simp_all add: pack_weight_def)
  ultimately show ?thesis using p'(2) by auto
qed (use assms in \<open>auto simp: pushed_def pack_weight_def\<close>)

lemma pushed_Cons: "pushed left (v # vs) l = pushed left vs (pushed left [v] l)"
  by (simp add: pushed_def)

lemma push_values_spec:
  assumes "data_wf d" "data_list d = Some xs" "list_all (\<lambda>v. length v < 2 ^ 32 - 16) vs"
    and "sum_list (map (\<lambda>v. entry_weight (LString v)) vs) + pack_weight d < 2 ^ 63"
  shows "\<exists>d'. push_values left vs d = Ret d' \<and> data_wf d' \<and> data_list d' = Some (pushed left vs xs)"
  using assms
proof (induction vs arbitrary: d xs)
  case Nil
  then show ?case by (simp add: pushed_def)
next
  case (Cons v vs)
  obtain d1 where d1: "push_value left v d = Ret d1" "data_wf d1" "data_list d1 = Some (pushed left [v] xs)"
    "pack_weight d1 \<le> entry_weight (LString v) + pack_weight d"
    using push_value_spec [OF Cons.prems(1,2), of v left] Cons.prems(3,4) by auto
  show ?case
    using Cons.IH [OF d1(2,3)] Cons.prems(3,4) d1(1,4) pushed_Cons [of left v vs xs] by simp
qed

lemma maybe_upgrade_list_data:
  assumes "data_wf d" "data_list d = Some xs"
  shows "\<exists>d'. maybe_upgrade_list n d = Ret d' \<and> data_wf d' \<and> data_list d' = Some xs"
  using assms upgrade_to_list_data [OF assms] by (cases d) auto

lemma new_pack: "data_wf (DListPack lp_new)" "data_list (DListPack lp_new) = Some []" "pack_weight (DListPack lp_new) = 0"
  using lp_new_rep lp_rep_reads(1) [OF lp_new_rep] by (auto simp: pack_weight_def)

lemma or_insert_list:
  assumes "store_wf st" "key_list st k = Some xs" "or_insert env k (DListPack lp_new) st = (e, st1)"
  shows "data_wf (data e)" "data_list (data e) = Some xs" "store_wf st1" "kmap st1 |` (- {k}) = kmap st |` (- {k})"
    "pack_weight (data e) = (case kmap st k of None \<Rightarrow> 0 | Some e \<Rightarrow> pack_weight (data e))"
proof -
  have "data_wf (data e) \<and> data_list (data e) = Some xs \<and> store_wf st1 \<and> kmap st1 |` (- {k}) = kmap st |` (- {k})
    \<and> pack_weight (data e) = (case kmap st k of None \<Rightarrow> 0 | Some e \<Rightarrow> pack_weight (data e))"
  proof (cases "kmap st k")
    case None
    then have e: "data e = DListPack lp_new" "st1 = st\<lparr>keyspace := dict_put k e (keyspace st)\<rparr>" "xs = []"
      using assms(2,3) by (auto simp: or_insert_def Let_def key_list_def)
    have "store_wf st1" unfolding e(2) by (rule store_wf_put [OF assms(1)]) (simp only: e(1) new_pack(1))
    then show ?thesis
      by (simp only: e new_pack None option.case) (simp add: dict_simps restrict_upd_same)
  next
    case (Some e')
    then have "e' = e" "st1 = st" using assms(3) by (auto simp: or_insert_def)
    then show ?thesis using Some assms(1,2) store_wf_data [OF assms(1) Some] by (simp add: key_list_def)
  qed
  then show "data_wf (data e)" "data_list (data e) = Some xs" "store_wf st1" "kmap st1 |` (- {k}) = kmap st |` (- {k})"
    "pack_weight (data e) = (case kmap st k of None \<Rightarrow> 0 | Some e \<Rightarrow> pack_weight (data e))" by blast+
qed

lemma list_push_spec:
  assumes "store_wf st" "key_list st k = Some xs" "room st k vs" "vs \<noteq> []"
  shows "\<exists>st'. list_push left name env (k # vs) st = Ret (Integer (int (length xs + length vs)), st')
    \<and> list_becomes k (pushed left vs xs) st st'"
proof -
  obtain e st1 where e: "or_insert env k (DListPack lp_new) st = (e, st1)" by fastforce
  note d = or_insert_list [OF assms(1,2) e]
  have w: "sum_list (map (\<lambda>v. entry_weight (LString v)) vs) + pack_weight (data e) < 2 ^ 63"
    using assms(3) unfolding room_def d(5) by blast
  obtain d1 where d1: "push_values left vs (data e) = Ret d1" "data_wf d1" "data_list d1 = Some (pushed left vs xs)"
    using push_values_spec [OF d(1,2) _ w] assms(3) by (auto simp: room_def)
  obtain d2 where d2: "maybe_upgrade_list LIST_COMPACT_THRESHOLD d1 = Ret d2" "data_wf d2" "data_list d2 = Some (pushed left vs xs)"
    using maybe_upgrade_list_data [OF d1(2,3)] by blast
  let ?st = "write_data k e d2 st1"
  have "list_becomes k (pushed left vs xs) st ?st"
    using d d2 by (simp add: list_becomes_def key_list_def write_data_def dict_simps restrict_upd_same store_wf_put)
  moreover have "is_list_type (data e)" using data_list_None [OF d(1)] d(2) by auto
  moreover have "list_len d1 = Some (length xs + length vs)" using list_len_data [OF d1(2)] d1(3) by (simp add: pushed_def)
  ultimately show ?thesis
    using e d1(1) d2(1) assms(4) by (cases vs) (auto simp: list_push_def intro: list_becomes_notify)
qed

subsection \<open>Removing\<close>

text \<open>Reference: drop the first \<open>n\<close> occurrences.\<close>

fun rem_n :: "nat \<Rightarrow> 'a \<Rightarrow> 'a list \<Rightarrow> 'a list" where
  "rem_n n x [] = []"
| "rem_n n x (y # l) = (if n = 0 then y # l else if y = x then rem_n (n - 1) x l else y # rem_n n x l)"

lemma rem_n_0 [simp]: "rem_n 0 x l = l"
  by (cases l) auto

lemma lrem_front_eq:
  "i \<le> length l \<Longrightarrow> lrem_front x l i rm = take i l @ rem_n (nat rm) x (drop i l)"
proof (induction x l i rm rule: lrem_front.induct)
  case (1 x l i rm)
  show ?case
  proof (cases "i < length l \<and> rm > 0")
    case False
    then show ?thesis using 1(3) by (subst lrem_front.simps) auto
  next
    case True
    then have d: "drop i l = l ! i # drop (Suc i) l" by (simp add: Cons_nth_drop_Suc)
    show ?thesis
    proof (cases "l ! i = x")
      case eq: True
      have "lrem_front x l i rm = lrem_front x (remove_at i l) i (rm - 1)"
        using True eq by (subst lrem_front.simps) simp
      also have "\<dots> = take i l @ rem_n (nat (rm - 1)) x (drop (Suc i) l)"
        using 1(1) [OF True eq] True by (auto simp: remove_at_def)
      finally show ?thesis using True eq d by (simp add: nat_diff_distrib)
    next
      case ne: False
      have "lrem_front x l i rm = lrem_front x l (i + 1) rm" using True ne by (subst lrem_front.simps) simp
      also have "\<dots> = take (Suc i) l @ rem_n (nat rm) x (drop (Suc i) l)" using 1(2) [OF True ne] True by simp
      finally show ?thesis using True ne d by (simp add: take_Suc_conv_app_nth)
    qed
  qed
qed

lemma lrem_back_eq:
  "i < int (length l) \<Longrightarrow> lrem_back x l i rm
     = rev (rem_n (nat rm) x (rev (take (nat (i + 1)) l))) @ drop (nat (i + 1)) l"
proof (induction x l i rm rule: lrem_back.induct)
  case (1 x l i rm)
  show ?case
  proof (cases "i \<ge> 0 \<and> rm > 0")
    case False
    then show ?thesis by (subst lrem_back.simps) auto
  next
    case True
    define j where "j = nat i"
    have j: "i = int j" "nat i = j" "nat (i + 1) = Suc j" "nat (i - 1 + 1) = j" "j < length l"
      using True 1(3) by (auto simp: j_def)
    have t: "take (Suc j) l = take j l @ [l ! j]" using j(5) by (rule take_Suc_conv_app_nth)
    show ?thesis
    proof (cases "l ! nat i = x")
      case eq: True
      have "lrem_back x l i rm = lrem_back x (remove_at (nat i) l) (i - 1) (rm - 1)"
        using True eq by (subst lrem_back.simps) simp
      also have "\<dots> = rev (rem_n (nat (rm - 1)) x (rev (take j l))) @ drop (Suc j) l"
        using 1(1) [OF True eq] j by (simp add: remove_at_def)
      finally show ?thesis using True eq j t by (simp add: nat_diff_distrib)
    next
      case ne: False
      have "lrem_back x l i rm = lrem_back x l (i - 1) rm" using True ne by (subst lrem_back.simps) simp
      also have "\<dots> = rev (rem_n (nat rm) x (rev (take j l))) @ drop j l" using 1(2) [OF True ne] j by simp
      finally show ?thesis using True ne j t by (simp add: Cons_nth_drop_Suc)
    qed
  qed
qed

definition removed :: "int \<Rightarrow> 'a \<Rightarrow> 'a list \<Rightarrow> 'a list" where
  "removed c x l = (if c > 0 then rem_n (nat c) x l else if c < 0 then rev (rem_n (nat (- c)) x (rev l)) else removeAll x l)"

lemma lrem_list_eq:
  assumes "- (2 ^ 63) < c" "c < 2 ^ 63"
  shows "lrem_list c x l = removed c x l"
proof -
  have "wrap_i64 \<bar>c\<bar> = \<bar>c\<bar>" using assms by (intro wrap_i64_id) (auto simp: i64_ok_def i64_min_def i64_max_def abs_if)
  then show ?thesis using lrem_front_eq [of 0 l x c] lrem_back_eq [of "int (length l) - 1" l x "\<bar>c\<bar>"]
    by (auto simp: lrem_list_def removed_def removeAll_filter_not_eq intro: filter_cong)
qed

lemma length_rem_n: "length (rem_n n x l) = length l - min n (count_list l x)"
proof (induction n x l rule: rem_n.induct)
  case (2 n x y l)
  then show ?case using count_le_length [of l x] by (cases n) auto
qed simp

lemma lre_spec:
  assumes "store_wf st" "key_list st k = Some xs" "bytes_i64 cb = Some c" "- (2 ^ 63) < c" "c < 2 ^ 63"
  shows "\<exists>st'. lre [k, cb, x] st = Ret (Integer (int (if c = 0 then count_list xs x else min (nat \<bar>c\<bar>) (count_list xs x))), st')
    \<and> list_becomes k (removed c x xs) st st'"
proof -
  have "length (removeAll x l) = length l - count_list l x" for l :: "bytes list"
    by (induction l) (auto simp: Suc_diff_le count_le_length)
  then have n: "length xs - length (removed c x xs) = (if c = 0 then count_list xs x else min (nat \<bar>c\<bar>) (count_list xs x))"
    using count_le_length [of xs x] by (auto simp: removed_def length_rem_n)
  show ?thesis using assms(1)
  proof (cases rule: get_list_cases [of st k])
    case absent
    then show ?thesis using assms by (simp add: lre_def list_becomes_def removed_def)
  next
    case (other e)
    then show ?thesis using assms by simp
  next
    case (found e ys)
    then show ?thesis
      using assms(2,3) n put_or_remove_becomes [OF assms(1), of k "removed c x xs" e] lrem_list_eq [OF assms(4,5), of x xs]
      by (simp add: lre_def Let_def)
  qed
qed

subsection \<open>Moving\<close>

lemma take_one_spec:
  assumes "store_wf st" "key_list st k = Some xs"
  shows "\<exists>st'. take_one left k st = Ret (Inr (if xs = [] then None else Some (hd (popped left 1 xs))), st')
    \<and> list_becomes k (kept left 1 xs) st st'"
  using assms(1)
proof (cases rule: get_list_cases [of st k])
  case absent
  then show ?thesis using assms by (simp add: take_one_def list_becomes_def kept_def)
next
  case (other e)
  then show ?thesis using assms by simp
next
  case (found e ys)
  then show ?thesis
    using assms(2) put_list_becomes [OF assms(1), of k "[]" e] put_or_remove_becomes [OF assms(1), of k "kept left 1 xs" e]
      pop_side_eq [of xs left]
    by (cases "xs = []") (simp_all add: take_one_def kept_def)
qed

lemma push_to_dest_spec:
  assumes "store_wf st" "key_list st k = Some ys"
  shows "\<exists>st'. push_to_dest env k v left st = Ret (True, st') \<and> list_becomes k (pushed left [v] ys) st st'"
proof -
  obtain e st1 where e: "or_insert env k (DListPack lp_new) st = (e, st1)" by fastforce
  note d = or_insert_list [OF assms e]
  have "list_becomes k (pushed left [v] ys) st (put_list k e (pushed left [v] ys) st1)"
    using put_list_becomes [OF d(3), of k "pushed left [v] ys" e] d(4) by (simp add: list_becomes_def)
  then show ?thesis
    using e as_list_mut_list [OF d(1,2)] list_becomes_notify [of k _ st _ k]
    by (auto simp: push_to_dest_def pushed_def)
qed

lemma parse_side_LR: "parse_side (ascii ''LEFT'') = Some True" "parse_side (ascii ''RIGHT'') = Some False"
  by (simp_all add: parse_side_def from_utf8_def to_upper_def) (code_simp)+

lemma lmo_spec:
  assumes "store_wf st" "key_list st k = Some xs" "key_list st j = Some ys" "xs \<noteq> []"
    and "parse_side fb = Some from" "parse_side tb = Some to"
  shows "\<exists>st' st1. lmo env [k, j, fb, tb] st = Ret (bull (hd (popped from 1 xs)), st')
    \<and> list_becomes k (kept from 1 xs) st st1
    \<and> list_becomes j (pushed to [hd (popped from 1 xs)] (if j = k then kept from 1 xs else ys)) st1 st'"
proof -
  obtain st1 where s1: "take_one from k st = Ret (Inr (Some (hd (popped from 1 xs))), st1)"
    "list_becomes k (kept from 1 xs) st st1"
    using take_one_spec [OF assms(1,2), of "from"] assms(4) by auto
  have "key_list st1 j = Some (if j = k then kept from 1 xs else ys)"
    using s1(2) list_becomes_other [OF s1(2), of j] assms(3) by (auto simp: list_becomes_def key_list_def)
  then obtain st2 where "push_to_dest env j (hd (popped from 1 xs)) to st1 = Ret (True, st2)"
    "list_becomes j (pushed to [hd (popped from 1 xs)] (if j = k then kept from 1 xs else ys)) st1 st2"
    using push_to_dest_spec [of st1 j] s1(2) unfolding list_becomes_def by blast
  then show ?thesis using s1 assms(5,6) by (auto simp: lmo_def)
qed

subsection \<open>Blocking\<close>

text \<open>The first of the keys whose list has an element.\<close>

definition first_ready :: "bytes list \<Rightarrow> 's store \<Rightarrow> bytes option" where
  "first_ready keys st = find (\<lambda>k. case key_list st k of Some (_ # _) \<Rightarrow> True | _ \<Rightarrow> False) keys"

lemma first_ready_cong: "key_list st' = key_list st \<Longrightarrow> first_ready keys st' = first_ready keys st"
  by (simp add: first_ready_def)

lemma becomes_key_list:
  assumes "list_becomes k xs st st'"
  shows "key_list st' = (key_list st)(k := Some xs)"
proof (rule ext)
  fix j
  show "key_list st' j = ((key_list st)(k := Some xs)) j"
    using assms list_becomes_other [OF assms, of j] by (cases "j = k") (simp_all add: list_becomes_def key_list_def)
qed

lemma try_pop_none:
  assumes "store_wf st" "first_ready keys st = None"
  shows "\<exists>st'. try_pop left n f keys st = Ret (None, st') \<and> key_list st' = key_list st \<and> store_wf st'"
  using assms
proof (induction keys arbitrary: st)
  case Nil
  then show ?case by simp
next
  case (Cons k keys)
  have r: "first_ready keys st = None" using Cons.prems(2) by (auto simp: first_ready_def split: if_splits)
  from Cons.prems(1) show ?case
  proof (cases rule: get_list_cases [of st k])
    case absent
    then show ?thesis using Cons.IH [OF Cons.prems(1) r] by simp
  next
    case (other e)
    then show ?thesis using Cons.IH [OF Cons.prems(1) r] by simp
  next
    case (found e xs)
    then have xs: "xs = []" using Cons.prems(2) by (cases xs) (simp_all add: first_ready_def)
    let ?st = "put_list k e [] st"
    have b: "list_becomes k [] st ?st" by (rule put_list_becomes [OF Cons.prems(1)])
    have kl: "key_list ?st = key_list st" using becomes_key_list [OF b] found(3) xs by auto
    have "store_wf ?st" using b by (simp add: list_becomes_def)
    then obtain st' where "try_pop left n f keys ?st = Ret (None, st')" "key_list st' = key_list st" "store_wf st'"
      using Cons.IH [of ?st] first_ready_cong [OF kl, of keys] r kl by auto
    then show ?thesis using found(1) xs by simp
  qed
qed

lemma try_pop_some:
  assumes "store_wf st" "first_ready keys st = Some k" "key_list st k = Some xs"
  shows "\<exists>st'. try_pop left n f keys st = Ret (Some (Array (Some [bull k, f (popped left n xs)])), st')
    \<and> key_list st' = (key_list st)(k := Some (kept left n xs)) \<and> store_wf st'"
  using assms
proof (induction keys arbitrary: st)
  case Nil
  then show ?case by (simp add: first_ready_def)
next
  case (Cons j keys)
  from Cons.prems(1) show ?case
  proof (cases rule: get_list_cases [of st j])
    case absent
    then have "first_ready keys st = Some k" using Cons.prems(2) by (simp add: first_ready_def)
    then show ?thesis using Cons.IH [OF Cons.prems(1) _ Cons.prems(3)] absent(1) by simp
  next
    case (other e)
    then have "first_ready keys st = Some k" using Cons.prems(2) by (simp add: first_ready_def)
    then show ?thesis using Cons.IH [OF Cons.prems(1) _ Cons.prems(3)] other(1) by simp
  next
    case (found e ys)
    show ?thesis
    proof (cases ys)
      case Nil
      let ?st = "put_list j e [] st"
      have b: "list_becomes j [] st ?st" by (rule put_list_becomes [OF Cons.prems(1)])
      have kl: "key_list ?st = key_list st" using becomes_key_list [OF b] found(3) Nil by auto
      have wf: "store_wf ?st" using b by (simp add: list_becomes_def)
      have "first_ready keys ?st = Some k"
        using Cons.prems(2) found(3) Nil first_ready_cong [OF kl, of keys] by (simp add: first_ready_def)
      then show ?thesis using Cons.IH [OF wf] Cons.prems(3) kl found(1) Nil by simp
    next
      case (Cons y zs)
      then have j: "j = k" "ys = xs" using \<open>first_ready (j # keys) st = Some k\<close> found(3) \<open>key_list st k = Some xs\<close>
        by (auto simp: first_ready_def)
      let ?st = "put_or_remove k e (kept left n xs) st"
      have b: "list_becomes k (kept left n xs) st ?st" by (rule put_or_remove_becomes [OF \<open>store_wf st\<close>])
      have m: "kept left (min n (length xs)) xs = kept left n xs" "popped left (min n (length xs)) xs = popped left n xs"
        by (auto simp: kept_def popped_def min_def)
      have "try_pop left n f (j # keys) st = Ret (Some (Array (Some [bull k, f (popped left n xs)])), ?st)"
        using found(1) Cons j pop_times_eq [of "min n (length xs)" xs left] m by auto
      moreover have "store_wf ?st" using b by (simp add: list_becomes_def)
      ultimately show ?thesis using becomes_key_list [OF b] by blast
    qed
  qed
qed

text \<open>The store that round \<open>i\<close> of the loop sees while no round succeeds.\<close>

fun seen :: "('s store \<Rightarrow> (RespValue option \<times> 's store) outcome) \<Rightarrow> (nat \<Rightarrow> 's store \<Rightarrow> 's store) \<Rightarrow> 's store \<Rightarrow> nat \<Rightarrow> 's store" where
  "seen attempt others st 0 = st"
| "seen attempt others st (Suc i) =
     (let s = seen attempt others st i in others i (case attempt s of Ret (_, s') \<Rightarrow> s' | _ \<Rightarrow> s))"

lemma block_loop_returns:
  assumes "\<And>i. i < m \<Longrightarrow> \<exists>s. attempt (seen attempt others st i) = Ret (None, s)"
    and "attempt (seen attempt others st m) = Ret (Some r, st')"
    and "case limit of None \<Rightarrow> True | Some n \<Rightarrow> m \<le> n"
  shows "block_loop attempt others limit 0 st = Some (Ret (r, st'))"
proof -
  have "block_loop attempt others limit (m - d) (seen attempt others st (m - d)) = Some (Ret (r, st'))" if "d \<le> m" for d
    using that
  proof (induction d)
    case 0
    then show ?case using assms(2) by (subst block_loop.simps) simp
  next
    case (Suc d)
    obtain s where s: "attempt (seen attempt others st (m - Suc d)) = Ret (None, s)"
      using assms(1) [of "m - Suc d"] Suc.prems by auto
    have n: "m - d = Suc (m - Suc d)" using Suc.prems by simp
    have "limit \<noteq> Some (m - Suc d)" using assms(3) Suc.prems by auto
    moreover have "seen attempt others st (m - d) = others (m - Suc d) s" unfolding n using s by simp
    ultimately show ?case using Suc s n by (subst block_loop.simps) simp
  qed
  from this [of m] show ?thesis by simp
qed

lemma block_loop_waits:
  assumes "\<And>i. \<exists>s. attempt (seen attempt others st i) = Ret (None, s)"
  shows "block_loop attempt others None 0 st = None"
proof -
  define P where "P a ot l i s y \<longleftrightarrow> (a = attempt \<and> ot = others \<and> l = None \<longrightarrow> s \<noteq> seen attempt others st i)"
    for a ot and l :: "nat option" and i s and y :: "'a result"
  have "P attempt others None 0 st y" if "block_loop attempt others None 0 st = Some y" for y
  proof (rule block_loop.raw_induct [OF _ that])
    fix f a ot l i s y
    assume IH: "\<And>a ot l i s y. f a ot l i s = Some y \<Longrightarrow> P a ot l i s y"
      and y: "(case a s of Ret (None, s') \<Rightarrow> if l = Some i then Some (Ret (null_bulk, ot i s')) else f a ot l (Suc i) (ot i s')
         | Ret (Some r, s') \<Rightarrow> Some (Ret (r, s')) | Panic \<Rightarrow> Some Panic | Deadlock \<Rightarrow> Some Deadlock) = Some y"
    show "P a ot l i s y"
      unfolding P_def
    proof (intro impI notI)
      assume h: "a = attempt \<and> ot = others \<and> l = None" "s = seen attempt others st i"
      obtain s' where s': "attempt (seen attempt others st i) = Ret (None, s')" using assms by blast
      have "f attempt others None (Suc i) (others i s') = Some y" using y h s' by simp
      from IH [OF this] show False using s' by (simp add: P_def)
    qed
  qed
  then show ?thesis by (cases "block_loop attempt others None 0 st") (auto simp: P_def)
qed

lemma block_loop_times_out:
  assumes "\<And>i. i \<le> n \<Longrightarrow> \<exists>s. attempt (seen attempt others st i) = Ret (None, s)"
  shows "block_loop attempt others (Some n) 0 st = Some (Ret (null_bulk, seen attempt others st (Suc n)))"
proof -
  have "block_loop attempt others (Some n) (n - d) (seen attempt others st (n - d))
      = Some (Ret (null_bulk, seen attempt others st (Suc n)))" if "d \<le> n" for d
    using that
  proof (induction d)
    case 0
    then show ?case using assms [of n] by (subst block_loop.simps) auto
  next
    case (Suc d)
    obtain s where s: "attempt (seen attempt others st (n - Suc d)) = Ret (None, s)"
      using assms [of "n - Suc d"] by auto
    have m: "n - d = Suc (n - Suc d)" using Suc.prems by simp
    have "seen attempt others st (n - d) = others (n - Suc d) s" unfolding m using s by simp
    then show ?case using Suc s m by (subst block_loop.simps) simp
  qed
  from this [of n] show ?thesis by simp
qed

lemma first_readyD: "first_ready keys st = Some k \<Longrightarrow> \<exists>x xs. key_list st k = Some (x # xs)"
  by (auto simp: first_ready_def find_Some_iff split: option.splits list.splits)

lemma try_pop_wf:
  assumes "store_wf st"
  shows "\<exists>r st'. try_pop left n f keys st = Ret (r, st') \<and> store_wf st'"
proof (cases "first_ready keys st")
  case None
  then show ?thesis using try_pop_none [OF assms None, of left n f] by blast
next
  case (Some k)
  then obtain x xs where "key_list st k = Some (x # xs)" using first_readyD by blast
  then show ?thesis using try_pop_some [OF assms Some, of "x # xs" left n f] by blast
qed

lemma keyspace_watch_all [simp]: "keyspace (watch_all keys st) = keyspace st"
  by (induction keys arbitrary: st) (simp_all add: watch_all_def store_watch_def Let_def)

text \<open>The store that round \<open>i\<close> of a blocking pop sees.\<close>

abbreviation pop_attempt :: "bool \<Rightarrow> bytes list \<Rightarrow> 's store \<Rightarrow> (RespValue option \<times> 's store) outcome" where
  "pop_attempt left keys \<equiv> try_pop left 1 (\<lambda>vs. bull (hd vs)) keys"

definition round_view :: "bool \<Rightarrow> (nat \<Rightarrow> 's store \<Rightarrow> 's store) \<Rightarrow> bytes list \<Rightarrow> 's store \<Rightarrow> nat \<Rightarrow> 's store" where
  "round_view left others keys st =
     seen (pop_attempt left keys) others
       (watch_all keys (case pop_attempt left keys st of Ret (_, s) \<Rightarrow> s | _ \<Rightarrow> st))"

lemma round_view_wf:
  assumes "store_wf st" "\<And>i s. store_wf s \<Longrightarrow> store_wf (others i s)"
  shows "store_wf (round_view left others keys st i)"
proof (induction i)
  case 0
  obtain r s where "pop_attempt left keys st = Ret (r, s)" "store_wf s" using try_pop_wf [OF assms(1)] by blast
  then show ?case using store_wf_cong [of "watch_all keys s" s] by (simp add: round_view_def)
next
  case (Suc i)
  obtain r s where "pop_attempt left keys (round_view left others keys st i) = Ret (r, s)" "store_wf s"
    using try_pop_wf [OF Suc] by blast
  then show ?case using assms(2) by (simp add: round_view_def Let_def)
qed

text \<open>The timeouts 0, 1 and -1.\<close>

lemma timeout_texts:
  "parse_f64 (utf8_or_empty [48]) = Some 0" "parse_f64 (utf8_or_empty [49]) = Some 0x3FF0000000000000"
  "parse_f64 (utf8_or_empty [45, 49]) = Some 0xBFF0000000000000"
  by (simp_all add: utf8_or_empty_def parse_f64_def parse_number_def is_digit_def Let_def parse_exponent_def digits_val_def digit_val_def
       f64_of_ratio_def ratio_exp_def round_half_even_def)

lemma timeout_values: "f64_is_zero 0" "\<not> f64_is_zero 0x3FF0000000000000" "\<not> f64_is_zero 0xBFF0000000000000"
    "duration_ok 0x3FF0000000000000" "\<not> duration_ok 0xBFF0000000000000"
  by (simp_all add: f64_is_zero_def duration_ok_def f64_exp_def f64_frac_def f64_is_nan_def f64_is_infinite_def f64_neg_def f64_ratio_def)

text \<open>
  C33. Blocking pops return exactly when an element arrives. A BLPOP with timeout zero that finds all its
  lists empty waits forever if no round of its polling sees an element, whatever other clients do;
  otherwise it returns in the first round that sees one, with the head of the first list among its keys
  that has an element, which it removes. With a timeout it answers the null reply if no round
  before the timer sees an element.
\<close>

theorem blpop_liveness:
  assumes "store_wf st" "\<And>i s. store_wf s \<Longrightarrow> store_wf (others i s)" "keys \<noteq> []" "first_ready keys st = None"
    and "parse_f64 (utf8_or_empty zb) = Some z" "f64_is_zero z"
    and "parse_f64 (utf8_or_empty tb) = Some t" "\<not> f64_is_zero t" "duration_ok t"
  shows "(bl rounds others (keys @ [zb]) st = None \<longleftrightarrow> (\<forall>i. first_ready keys (round_view True others keys st i) = None))
    \<and> (\<forall>m k x xs. (\<forall>i < m. first_ready keys (round_view True others keys st i) = None)
        \<longrightarrow> first_ready keys (round_view True others keys st m) = Some k
        \<longrightarrow> key_list (round_view True others keys st m) k = Some (x # xs)
        \<longrightarrow> (\<exists>st'. bl rounds others (keys @ [zb]) st = Some (Ret (Array (Some [bull k, bull x]), st'))
              \<and> key_list st' = (key_list (round_view True others keys st m))(k \<mapsto> xs)))
    \<and> ((\<forall>i \<le> rounds. first_ready keys (round_view True others keys st i) = None)
        \<longrightarrow> (\<exists>st'. bl rounds others (keys @ [tb]) st = Some (Ret (null_bulk, st'))))"
proof -
  let ?A = "pop_attempt True keys"
  let ?W = "round_view True others keys st"
  obtain s where s: "?A st = Ret (None, s)" using try_pop_none [OF assms(1,4)] by blast
  have W: "?W = seen ?A others (watch_all keys s)" using s by (simp add: round_view_def)
  have wf: "store_wf (?W i)" for i by (rule round_view_wf [OF assms(1,2)])
  have none: "\<exists>s. ?A (?W i) = Ret (None, s)" if "first_ready keys (?W i) = None" for i
    using try_pop_none [OF wf that, of True 1] by blast
  have zero: "bl rounds others (keys @ [zb]) st = block_loop ?A others None 0 (watch_all keys s)"
    using assms(3,5,6) s by (cases keys) (simp_all add: bl_def block_pop_def block_on_def)
  have timed: "bl rounds others (keys @ [tb]) st = block_loop ?A others (Some rounds) 0 (watch_all keys s)"
    using assms(3,7-9) s by (cases keys) (simp_all add: bl_def block_pop_def block_on_def)
  have ready: "\<exists>st'. bl rounds others (keys @ [zb]) st = Some (Ret (Array (Some [bull k, bull x]), st'))
      \<and> key_list st' = (key_list (?W m))(k \<mapsto> xs)"
    if m: "\<forall>i < m. first_ready keys (?W i) = None" "first_ready keys (?W m) = Some k" "key_list (?W m) k = Some (x # xs)" for m k x xs
  proof -
    obtain st' where st': "?A (?W m) = Ret (Some (Array (Some [bull k, bull x])), st')"
      "key_list st' = (key_list (?W m))(k \<mapsto> xs)"
      using try_pop_some [OF wf m(2,3), of True 1 "\<lambda>vs. bull (hd vs)"] by (auto simp: popped_def kept_def)
    have "block_loop ?A others None 0 (watch_all keys s) = Some (Ret (Array (Some [bull k, bull x]), st'))"
      by (rule block_loop_returns [of m]) (use none m(1) st'(1) W in auto)
    then show ?thesis using st'(2) zero by simp
  qed
  have waits: "bl rounds others (keys @ [zb]) st = None \<longleftrightarrow> (\<forall>i. first_ready keys (?W i) = None)"
  proof
    assume "\<forall>i. first_ready keys (?W i) = None"
    then show "bl rounds others (keys @ [zb]) st = None"
      unfolding zero by (intro block_loop_waits) (use none W in auto)
  next
    assume n: "bl rounds others (keys @ [zb]) st = None"
    show "\<forall>i. first_ready keys (?W i) = None"
    proof (rule ccontr)
      assume "\<not> (\<forall>i. first_ready keys (?W i) = None)"
      then obtain m where m: "first_ready keys (?W m) \<noteq> None" "\<forall>i < m. first_ready keys (?W i) = None"
        using exists_least_iff [of "\<lambda>i. first_ready keys (?W i) \<noteq> None"] by blast
      then obtain k where k: "first_ready keys (?W m) = Some k" by blast
      obtain x xs where "key_list (?W m) k = Some (x # xs)" using first_readyD [OF k] by blast
      from ready [OF m(2) k this] show False using n by simp
    qed
  qed
  have out: "\<exists>st'. bl rounds others (keys @ [tb]) st = Some (Ret (null_bulk, st'))"
    if "\<forall>i \<le> rounds. first_ready keys (?W i) = None"
  proof -
    have "block_loop ?A others (Some rounds) 0 (watch_all keys s) = Some (Ret (null_bulk, seen ?A others (watch_all keys s) (Suc rounds)))"
      by (rule block_loop_times_out) (use none that W in auto)
    then show ?thesis using timed by simp
  qed
  show ?thesis using waits ready out by blast
qed

theorem blpop_liveness_witness:
  "let others = (\<lambda>i s. if i = 1 then put_list [1] (fresh_entry (DList [])) [[7], [8]] s else s) in
     (\<exists>st'. bl 5 others [[1], [48]] (store_new :: nat store) = Some (Ret (Array (Some [bull [1], bull [7]]), st'))
        \<and> key_list st' [1] = Some [[8]])
   \<and> bl 5 (\<lambda>_ s. s) [[1], [48]] (store_new :: nat store) = None"
proof -
  let ?o = "\<lambda>i s. if i = 1 then put_list [1] (fresh_entry (DList [])) [[7], [8]] s else s :: nat store"
  have wf: "store_wf (store_new :: nat store)" by (simp add: store_wf_def store_new_def dict_wf_def)
  have o: "store_wf (?o i s)" if "store_wf s" for i s
    using that put_list_becomes [OF that, of "[1]" "[[7], [8]]" "fresh_entry (DList [])"] by (simp add: list_becomes_def)
  have z: "parse_f64 (utf8_or_empty [48]) = Some 0" "f64_is_zero 0" by (rule timeout_texts timeout_values)+
  have t: "parse_f64 (utf8_or_empty [49]) = Some 0x3FF0000000000000" "\<not> f64_is_zero 0x3FF0000000000000"
    "duration_ok 0x3FF0000000000000" by (rule timeout_texts timeout_values)+
  have e: "first_ready [[1]] (store_new :: nat store) = None" by (simp add: first_ready_def key_list_def store_new_def)
  have ne: "[[1 :: byte]] \<noteq> []" by simp
  let ?s = "watch_all [[1]] (store_new :: nat store)"
  have a: "pop_attempt True [[1]] s = Ret (None, s)" if "keyspace s = []" for s :: "nat store"
    using that by (simp add: get_list_def)
  have k0: "keyspace (store_new :: nat store) = []" "keyspace ?s = []" by (simp_all add: store_new_def)
  have w0: "round_view True ?o [[1]] store_new 0 = ?s" using a [OF k0(1)] by (simp add: round_view_def)
  have w1: "round_view True ?o [[1]] store_new 1 = ?s"
    using a [OF k0(1)] a [OF k0(2)] by (simp add: round_view_def)
  have w2: "round_view True ?o [[1]] store_new 2 = put_list [1] (fresh_entry (DList [])) [[7], [8]] ?s"
    using a [OF k0(1)] a [OF k0(2)] by (simp add: round_view_def numeral_2_eq_2)
  have r: "first_ready [[1]] ?s = None" using k0(2) by (simp add: first_ready_def key_list_def)
  have before: "\<forall>i < 2. first_ready [[1]] (round_view True ?o [[1]] store_new i) = None"
    using w0 w1 r by (auto simp: less_2_cases_iff)
  have at2: "key_list (round_view True ?o [[1]] store_new 2) [1] = Some [[7], [8]]"
    unfolding w2 by (simp add: key_list_def put_list_def write_data_def dict_simps)
  then have f2: "first_ready [[1]] (round_view True ?o [[1]] store_new 2) = Some [1]" by (simp add: first_ready_def)
  note A = blpop_liveness [where others = ?o and rounds = 5, OF wf o ne e z t]
  have "\<exists>st'. bl 5 ?o ([[1]] @ [[48]]) store_new = Some (Ret (Array (Some [bull [1], bull [7]]), st'))
      \<and> key_list st' = (key_list (round_view True ?o [[1]] store_new 2))([1] \<mapsto> [[8]])"
    using conjunct1 [OF conjunct2 [OF A]] before f2 at2 by blast
  then have x: "\<exists>st'. bl 5 ?o [[1], [48]] store_new = Some (Ret (Array (Some [bull [1], bull [7]]), st'))
      \<and> key_list st' [1] = Some [[8]]" by auto
  have "round_view True (\<lambda>_ s. s) [[1]] store_new i = ?s" for i
    using a [OF k0(1)] a [OF k0(2)] by (induction i) (simp_all add: round_view_def)
  then have y: "bl 5 (\<lambda>_ s. s) [[1], [48]] (store_new :: nat store) = None"
    using conjunct1 [OF blpop_liveness [where others = "\<lambda>_ s. s" and rounds = 5, OF wf _ ne e z t]] r by simp
  show ?thesis unfolding Let_def by (rule conjI [OF x y])
qed

text \<open>
  C34. The list commands work on lists, whatever their encoding. On a key that is absent or holds the list
  \<open>xs\<close>: LPUSH and RPUSH answer the new length and add the values at their end, LPUSH in reverse order;
  LPOP and RPOP take up to the given number of elements off their end; LLEN answers the length; LREM
  removes the first occurrences, or the last for a negative count, or all for zero, and answers how
  many; LMOVE takes one element off the list and adds it to the list of the destination, which may
  be the same. No command touches another key.
\<close>

theorem list_commands:
  assumes "store_wf st" "key_list st k = Some xs" "room st k vs" "vs \<noteq> []" "bytes_u64 nb = Some n"
    and "bytes_i64 cb = Some c" "- (2 ^ 63) < c" "c < 2 ^ 63"
    and "key_list st j = Some ys" "parse_side fb = Some from" "parse_side tb = Some to"
  shows "(\<exists>st'. lp env (k # vs) st = Ret (Integer (int (length xs + length vs)), st') \<and> list_becomes k (rev vs @ xs) st st')
    \<and> (\<exists>st'. rp env (k # vs) st = Ret (Integer (int (length xs + length vs)), st') \<and> list_becomes k (xs @ vs) st st')
    \<and> (\<exists>st'. lpo [k, nb] st = Ret (if kmap st k = None then (if n > 1 then Array (Some []) else null_bulk)
           else if xs = [] then null_bulk
           else if min n (length xs) = 1 then bull (hd xs)
           else Array (Some (map bull (take n xs))), st')
        \<and> list_becomes k (drop n xs) st st')
    \<and> (\<exists>st'. rpo [k, nb] st = Ret (if kmap st k = None then (if n > 1 then Array (Some []) else null_bulk)
           else if xs = [] then null_bulk
           else if min n (length xs) = 1 then bull (last xs)
           else Array (Some (map bull (take n (rev xs)))), st')
        \<and> list_becomes k (take (length xs - n) xs) st st')
    \<and> ll [k] st = Ret (Integer (int (length xs)), st)
    \<and> (\<exists>st'. lre [k, cb, x] st = Ret (Integer (int (if c = 0 then count_list xs x else min (nat \<bar>c\<bar>) (count_list xs x))), st')
        \<and> list_becomes k (removed c x xs) st st')
    \<and> (xs \<noteq> [] \<longrightarrow> (let v = (if from then hd xs else last xs); r = (if from then tl xs else butlast xs) in
         \<exists>st' st1. lmo env [k, j, fb, tb] st = Ret (bull v, st') \<and> list_becomes k r st st1
           \<and> list_becomes j (let zs = (if j = k then r else ys) in if to then v # zs else zs @ [v]) st1 st'))"
proof -
  have a: "\<exists>st'. lp env (k # vs) st = Ret (Integer (int (length xs + length vs)), st') \<and> list_becomes k (rev vs @ xs) st st'"
    using list_push_spec [OF assms(1-4), of True "''lpush''" env] by (simp add: lp_def pushed_def)
  have b: "\<exists>st'. rp env (k # vs) st = Ret (Integer (int (length xs + length vs)), st') \<and> list_becomes k (xs @ vs) st st'"
    using list_push_spec [OF assms(1-4), of False "''rpush''" env] by (simp add: rp_def pushed_def)
  have hdl: "hd (popped True 1 xs) = hd xs" "xs \<noteq> [] \<Longrightarrow> hd (popped False 1 xs) = last xs"
    by (cases xs; simp add: popped_def) (simp add: popped_def hd_rev take_Suc)
  have pk: "popped True n xs = take n xs" "kept True n xs = drop n xs"
    "popped False n xs = take n (rev xs)" "kept False n xs = take (length xs - n) xs"
    by (simp_all add: popped_def kept_def)
  note p = list_pop_spec [OF assms(1,2,5)]
  have c: "\<exists>st'. lpo [k, nb] st = Ret (if kmap st k = None then (if n > 1 then Array (Some []) else null_bulk)
           else if xs = [] then null_bulk
           else if min n (length xs) = 1 then bull (hd xs)
           else Array (Some (map bull (take n xs))), st')
        \<and> list_becomes k (drop n xs) st st'"
    unfolding lpo_def by (rule p [of True "''lpop''", unfolded hdl(1) pk])
  have bulls: "(if xs = [] then null_bulk else if min n (length xs) = 1 then bull (hd (popped False 1 xs)) else z)
      = (if xs = [] then null_bulk else if min n (length xs) = 1 then bull (last xs) else z)" for z
    using hdl(2) by simp
  have d: "\<exists>st'. rpo [k, nb] st = Ret (if kmap st k = None then (if n > 1 then Array (Some []) else null_bulk)
           else if xs = [] then null_bulk
           else if min n (length xs) = 1 then bull (last xs)
           else Array (Some (map bull (take n (rev xs)))), st')
        \<and> list_becomes k (take (length xs - n) xs) st st'"
    unfolding rpo_def by (rule p [of False "''rpop''", unfolded bulls pk])
  have e: "ll [k] st = Ret (Integer (int (length xs)), st)"
    using assms(2) store_wf_data [OF assms(1), of k]
    by (cases "kmap st k") (simp_all add: ll_def key_list_def list_len_data)
  have f: "xs \<noteq> [] \<longrightarrow> (let v = (if from then hd xs else last xs); r = (if from then tl xs else butlast xs) in
         \<exists>st' st1. lmo env [k, j, fb, tb] st = Ret (bull v, st') \<and> list_becomes k r st st1
           \<and> list_becomes j (let zs = (if j = k then r else ys) in if to then v # zs else zs @ [v]) st1 st')"
  proof
    assume ne: "xs \<noteq> []"
    have v: "hd (popped from 1 xs) = (if from then hd xs else last xs)" using hdl ne by simp
    have r: "kept from 1 xs = (if from then tl xs else butlast xs)" by (simp add: kept_def drop_Suc butlast_conv_take)
    have q: "pushed to [v] zs = (if to then v # zs else zs @ [v])" for v :: bytes and zs by (simp add: pushed_def)
    show "let v = (if from then hd xs else last xs); r = (if from then tl xs else butlast xs) in
         \<exists>st' st1. lmo env [k, j, fb, tb] st = Ret (bull v, st') \<and> list_becomes k r st st1
           \<and> list_becomes j (let zs = (if j = k then r else ys) in if to then v # zs else zs @ [v]) st1 st'"
      using lmo_spec [OF assms(1,2,9) ne assms(10,11), of env] unfolding v r q Let_def .
  qed
  show ?thesis
    by (rule conjI [OF a conjI [OF b conjI [OF c conjI [OF d conjI [OF e conjI [OF lre_spec [OF assms(1,2,6-8)] f]]]]]])
qed

theorem list_commands_witness:
  "let st = store_new\<lparr>keyspace := [([1], fresh_entry (DList [[7], [8], [7]]))]\<rparr> :: nat store in
     (\<exists>st'. lp env0 [[1], [5], [6]] st = Ret (Integer 5, st') \<and> key_list st' [1] = Some [[6], [5], [7], [8], [7]])
   \<and> (\<exists>st' st1. lmo env0 [[1], [1], ascii ''RIGHT'', ascii ''LEFT''] st = Ret (bull [7], st')
        \<and> list_becomes [1] [[7], [8]] st st1 \<and> list_becomes [1] [[7], [7], [8]] st1 st')"
proof -
  let ?st = "store_new\<lparr>keyspace := [([1], fresh_entry (DList [[7], [8], [7]]))]\<rparr> :: nat store"
  have wf: "store_wf ?st" by (simp add: store_wf_def dict_wf_def)
  have k: "key_list ?st [1] = Some [[7], [8], [7]]" by (simp add: key_list_def)
  have r: "room ?st [1] [[5], [6]]" by (simp add: room_def pack_weight_def)
  have n: "[[5 :: byte], [6]] \<noteq> []" by simp
  have i: "bytes_u64 [50] = Some 2" "bytes_i64 [50] = Some 2"
    by (simp add: bytes_u64_def parse_usize_def utf8_or_empty_def parse_unsigned_def parse_digits_def is_digit_def
        digits_val_def digit_val_def u64_max_def) code_simp
  have c: "- (2 ^ 63) < (2 :: int)" "(2 :: int) < 2 ^ 63" by simp_all
  note A = list_commands [OF wf k r n i c k parse_side_LR(2,1), of env0 "[7]"]
  have a: "\<exists>st'. lp env0 [[1], [5], [6]] ?st = Ret (Integer 5, st') \<and> key_list st' [1] = Some [[6], [5], [7], [8], [7]]"
    using conjunct1 [OF A] by (auto simp: list_becomes_def)
  have b: "\<exists>st' st1. lmo env0 [[1], [1], ascii ''RIGHT'', ascii ''LEFT''] ?st = Ret (bull [7], st')
        \<and> list_becomes [1] [[7], [8]] ?st st1 \<and> list_becomes [1] [[7], [7], [8]] st1 st'"
    using conjunct2 [OF conjunct2 [OF conjunct2 [OF conjunct2 [OF conjunct2 [OF conjunct2 [OF A]]]]]]
    by (simp add: Let_def del: ascii_Cons)
  show ?thesis unfolding Let_def by (rule conjI [OF a b])
qed

text \<open>
  Defects of the list commands. LMOVE to a key of another type answers the type error and BLMOVE answers
  the element, but both have already taken it off the source and it is lost. LSET with an index before
  the first element overwrites the first element and answers OK, and LTRIM with such a stop
  keeps the first element where nothing is left. LPOS ignores RANK: it answers the same positions for any rank.
  BLPOP with a negative timeout panics when its lists are empty.
\<close>

theorem list_damage:
  assumes "store_wf st" "key_list st k = Some (x # xs)" "kmap st j = Some e" "\<not> is_list_type (data e)"
    and "bytes_i64 ib = Some i" "i < - int (length (x # xs))" "bytes_i64 zb = Some 0"
    and "parse_side fb = Some True" "parse_side tb = Some to" "parse_f64 (utf8_or_empty db) = Some d" "lpo_maxlen po = None"
    and "keys \<noteq> []" "first_ready keys st = None"
  shows "(\<exists>st'. lmo env [k, j, fb, tb] st = Ret (wrongtype, st') \<and> key_list st' k = Some xs \<and> kmap st' j = Some e)
    \<and> (\<exists>st'. blmove env rounds others [k, j, fb, tb, db] st = Some (Ret (bull x, st')) \<and> key_list st' k = Some xs \<and> kmap st' j = Some e)
    \<and> (\<exists>st'. ls [k, ib, v] st = Ret (ok, st') \<and> list_becomes k (v # xs) st st')
    \<and> (\<exists>st'. ltr [k, zb, ib] st = Ret (ok, st') \<and> list_becomes k [x] st st')
    \<and> lpos_reply (po\<lparr>lpo_rank := r\<rparr>) y l = lpos_reply po y l
    \<and> bl rounds others (keys @ [[45, 49]]) st = Some Panic"
proof -
  obtain st1 where t: "take_one True k st = Ret (Inr (Some x), st1)" "list_becomes k xs st st1"
    using take_one_spec [OF assms(1,2), of True] by (auto simp: popped_def kept_def)
  have wf: "data_wf (data e)" by (rule store_wf_data [OF assms(1,3)])
  have n: "data_list (data e) = None" using data_list_None [OF wf] assms(4) by simp
  have "j \<noteq> k" using assms(2,3) n by (auto simp: key_list_def)
  then have j: "kmap st1 j = Some e" using list_becomes_other [OF t(2)] assms(3) by simp
  have p: "push_to_dest env j x to st1 = Ret (False, st1)"
    using j as_list_mut_other [OF wf n] by (simp add: push_to_dest_def or_insert_def)
  have k1: "key_list st1 k = Some xs" using t(2) by (simp add: list_becomes_def)
  have a: "\<exists>st'. lmo env [k, j, fb, tb] st = Ret (wrongtype, st') \<and> key_list st' k = Some xs \<and> kmap st' j = Some e"
    using t(1) p k1 j assms(8,9) by (simp add: lmo_def)
  have b: "\<exists>st'. blmove env rounds others [k, j, fb, tb, db] st = Some (Ret (bull x, st')) \<and> key_list st' k = Some xs \<and> kmap st' j = Some e"
    using t(1) p k1 j assms(8-10) by (simp add: blmove_def block_on_def try_move_def)
  obtain e' where g: "get_list k st = Ret (Some (e', Some (x # xs)))"
    using assms(1)
  proof (cases rule: get_list_cases [of st k])
    case (found e' ys)
    then show ?thesis using that assms(2) by simp
  qed (use assms(2) in simp_all)
  have ni: "ni i (int (length (x # xs))) = 0" using assms(6) by (simp add: ni_def)
  have c: "\<exists>st'. ls [k, ib, v] st = Ret (ok, st') \<and> list_becomes k (v # xs) st st'"
    using g ni assms(5) put_list_becomes [OF assms(1), of k "v # xs" e'] by (simp add: ls_def)
  have "ltrim_list 0 i (x # xs) = [x]" using ni by (simp add: ltrim_list_def ni_def [of 0] Let_def)
  then have d: "\<exists>st'. ltr [k, zb, ib] st = Ret (ok, st') \<and> list_becomes k [x] st st'"
    using g assms(5,7) put_list_becomes [OF assms(1), of k "[x]" e'] by (simp add: ltr_def)
  have "(if q then take (length l) [0..<length l] else rev (take (length l) (rev [0..<length l]))) = [0..<length l]" for q
    by simp
  then have r: "lpos_reply (po\<lparr>lpo_rank := r\<rparr>) y l = lpos_reply po y l"
    using assms(11) by (simp add: lpos_reply_def Let_def)
  obtain s where "pop_attempt True keys st = Ret (None, s)" using try_pop_none [OF assms(1,13)] by blast
  then have f: "bl rounds others (keys @ [[45, 49]]) st = Some Panic"
    using assms(12) timeout_texts(3) timeout_values(3,5) by (cases keys) (simp_all add: bl_def block_pop_def block_on_def)
  show ?thesis by (rule conjI [OF a conjI [OF b conjI [OF c conjI [OF d conjI [OF r f]]]]])
qed

theorem list_damage_witness:
  "let st = store_new\<lparr>keyspace := [([1], fresh_entry (DList [[7], [8]])), ([2], fresh_entry (DString [5]))]\<rparr> :: nat store in
     (\<exists>st'. lmo env0 [[1], [2], ascii ''LEFT'', ascii ''LEFT''] st = Ret (wrongtype, st') \<and> key_list st' [1] = Some [[8]])
   \<and> bl 0 (\<lambda>_ s. s) [[3], [45, 49]] st = Some Panic"
proof -
  let ?st = "store_new\<lparr>keyspace := [([1], fresh_entry (DList [[7], [8]])), ([2], fresh_entry (DString [5]))]\<rparr> :: nat store"
  have wf: "store_wf ?st" by (simp add: store_wf_def dict_wf_def)
  have k: "key_list ?st [1] = Some ([7] # [[8]])" by (simp add: key_list_def)
  have j: "kmap ?st [2] = Some (fresh_entry (DString [5]))" "\<not> is_list_type (data (fresh_entry (DString [5]) :: nat entry))" by simp_all
  have i: "bytes_i64 [45, 57] = Some (-9)" "-9 < - int (length ([7 :: byte] # [[8]]))" "bytes_i64 [48] = Some 0" by code_simp+
  have m: "lpo_maxlen \<lparr>lpo_rank = 1, lpo_count = None, lpo_maxlen = None\<rparr> = None" by simp
  have f: "[[3 :: byte]] \<noteq> []" "first_ready [[3]] ?st = None" by (simp_all add: first_ready_def key_list_def)
  note A = list_damage [OF wf k j i parse_side_LR(1,1) timeout_texts(1) m f, where env = env0 and rounds = 0 and others = "\<lambda>_ s. s"]
  have a: "\<exists>st'. lmo env0 [[1], [2], ascii ''LEFT'', ascii ''LEFT''] ?st = Ret (wrongtype, st') \<and> key_list st' [1] = Some [[8]]"
    using conjunct1 [OF A] by blast
  have b: "bl 0 (\<lambda>_ s. s) [[3], [45, 49]] ?st = Some Panic"
    using conjunct2 [OF conjunct2 [OF conjunct2 [OF conjunct2 [OF conjunct2 [OF A]]]]] by simp
  show ?thesis unfolding Let_def by (rule conjI [OF a b])
qed

end
