(* ===== verification/Cmd_Keys.thy ===== *)
theory Cmd_Keys
  imports Cmd_Base Rust_Text Rust_Float
begin

text \<open>
  The commands on keys, \<^verbatim>\<open>crates/commands/src/keys.rs\<close>: existence and type, renaming and copying, expiry,
  iteration, serialised values, sorting. The eight bytes of a score and the reading of them are
  parameters (\<^verbatim>\<open>OrderedFloat\<close> is third-party), as is the order in which the standard library leaves
  numbers that cannot be compared.
\<close>

subsection \<open>Existence and type\<close>

fun count_keys :: "(bytes \<Rightarrow> 's store \<Rightarrow> bool \<times> 's store) \<Rightarrow> bytes list \<Rightarrow> 's store \<Rightarrow> int \<times> 's store" where
  "count_keys f [] st = (0, st)"
| "count_keys f (k # ks) st =
     (let (b, st1) = f k st; (n, st2) = count_keys f ks st1 in (if b then n + 1 else n, st2))"

definition cmd_exists :: "env \<Rightarrow> bytes list \<Rightarrow> 's store \<Rightarrow> 's result" where
  "cmd_exists env args st =
     (if args = [] then Ret (wrong_args ''exists'', st)
      else let (n, st') = count_keys (store_exists (e_now env)) args st in Ret (Integer n, st'))"

fun touch_keys :: "env \<Rightarrow> nat \<Rightarrow> bytes list \<Rightarrow> int \<Rightarrow> 's store \<Rightarrow> int \<times> 's store" where
  "touch_keys env i [] touched st = (touched, st)"
| "touch_keys env i (k # ks) touched st =
     (let (b, st1) = store_exists (e_now env) k st in
      if \<not> b then touch_keys env (i + 1) ks touched st1
      else case dict_get (keyspace st1) k of
             None \<Rightarrow> touch_keys env (i + 1) ks touched st1
           | Some e \<Rightarrow>
               touch_keys env (i + 1) ks (touched + 1)
                 (st1\<lparr>keyspace := dict_put k (entry_touch (e_now env) (e_pick env i 0) e) (keyspace st1)\<rparr>))"

definition cmd_touch :: "env \<Rightarrow> bytes list \<Rightarrow> 's store \<Rightarrow> 's result" where
  "cmd_touch env args st =
     (if args = [] then Ret (wrong_args ''touch'', st)
      else let (n, st') = touch_keys env 0 args 0 st in Ret (Integer n, st'))"

definition cmd_type :: "env \<Rightarrow> bytes list \<Rightarrow> 's store \<Rightarrow> 's result" where
  "cmd_type env args st =
     (if length args \<noteq> 1 then Ret (wrong_args ''type'', st)
      else let (t, st') = store_type_of (e_now env) (hd args) st
           in Ret (SimpleString (unwrap_or (ascii ''none'') t), st'))"

subsection \<open>Renaming\<close>

text \<open>The time to live of an entry, zero if the deadline has passed.\<close>

definition left_over :: "env \<Rightarrow> 's entry \<Rightarrow> duration option" where
  "left_over env e = map_option (\<lambda>at. if at > e_now env then at - e_now env else 0) (expires_at e)"

definition cmd_rename :: "env \<Rightarrow> bytes list \<Rightarrow> 's store \<Rightarrow> 's result" where
  "cmd_rename env args st =
     (if length args < 2 then Ret (wrong_args ''rename'', st)
      else case store_get (e_now env) (hd args) st of
             (None, st') \<Rightarrow> Ret (Error (ascii ''ERR no such key''), st')
           | (Some e, st') \<Rightarrow>
               (let (_, st1) = store_del (hd args) st' in
                obind (store_set (e_now env) (args ! 1) (data e) (left_over env e) st1) (\<lambda>st2. Ret (ok, st2))))"

definition cmd_renamenx :: "env \<Rightarrow> bytes list \<Rightarrow> 's store \<Rightarrow> 's result" where
  "cmd_renamenx env args st =
     (if length args < 2 then Ret (wrong_args ''renamenx'', st)
      else
        let (b, st1) = store_exists (e_now env) (args ! 1) st in
        if b then Ret (Integer 0, st1)
        else case store_get (e_now env) (hd args) st1 of
               (None, st2) \<Rightarrow> Ret (Integer 0, st2)
             | (Some e, st2) \<Rightarrow>
                 obind (store_set (e_now env) (args ! 1) (data e) (left_over env e) st2) (\<lambda>st3.
                   Ret (Integer 1, snd (store_del (hd args) st3))))"

definition cmd_move :: "bytes list \<Rightarrow> 's store \<Rightarrow> 's result" where
  "cmd_move args st = Ret (if length args < 2 then wrong_args ''move'' else Integer 0, st)"

definition cmd_copy :: "env \<Rightarrow> bytes list \<Rightarrow> 's store \<Rightarrow> 's result" where
  "cmd_copy env args st =
     (if length args < 2 then Ret (wrong_args ''copy'', st)
      else
        let repl = (length args \<ge> 3 \<and> map_option to_upper (from_utf8 (args ! 2)) = Some (ascii ''REPLACE'')) in
        case store_get (e_now env) (hd args) st of
          (None, st1) \<Rightarrow> Ret (Integer 0, st1)
        | (Some e, st1) \<Rightarrow>
            (let (b, st2) = (if repl then (False, st1) else store_exists (e_now env) (args ! 1) st1) in
             if b then Ret (Integer 0, st2)
             else obind (store_set (e_now env) (args ! 1) (data e) None st2) (\<lambda>st3. Ret (Integer 1, st3))))"

definition cmd_unlink :: "bytes list \<Rightarrow> 's store \<Rightarrow> 's result" where
  "cmd_unlink args st =
     (if args = [] then Ret (wrong_args ''unlink'', st)
      else let (n, st') = count_keys store_del args st in Ret (Integer n, st'))"

subsection \<open>Expiry\<close>

datatype ExpireCond = ENone | NX | XX | GT | LT

definition parse_expire_cond :: "bytes \<Rightarrow> ExpireCond" where
  "parse_expire_cond s =
     (let u = to_upper s in
      if u = ascii ''NX'' then NX
      else if u = ascii ''XX'' then XX
      else if u = ascii ''GT'' then GT
      else if u = ascii ''LT'' then LT
      else ENone)"

fun cond_holds :: "ExpireCond \<Rightarrow> duration \<Rightarrow> duration option \<Rightarrow> bool" where
  "cond_holds ENone new_dur cur = True"
| "cond_holds NX new_dur cur = (cur = None)"
| "cond_holds XX new_dur cur = (cur \<noteq> None)"
| "cond_holds GT new_dur cur = (case cur of Some c \<Rightarrow> new_dur > c | None \<Rightarrow> True)"
| "cond_holds LT new_dur cur = (case cur of Some c \<Rightarrow> new_dur < c | None \<Rightarrow> False)"

definition check_expire_cond :: "env \<Rightarrow> bytes \<Rightarrow> duration \<Rightarrow> ExpireCond \<Rightarrow> 's store \<Rightarrow> bool \<times> 's store" where
  "check_expire_cond env key new_dur c st =
     (let (cur, st') = store_ttl (e_now env) key st in (cond_holds c new_dur cur, st'))"

text \<open>The four commands differ in how the number of the command line becomes a duration.\<close>

definition expire_with :: "string \<Rightarrow> (int \<Rightarrow> duration) \<Rightarrow> env \<Rightarrow> bytes list \<Rightarrow> 's store \<Rightarrow> 's result" where
  "expire_with name to_dur env args st =
     (if length args < 2 then Ret (wrong_args name, st)
      else
        let key = hd args; n = unwrap_or 0 (bytes_i64 (args ! 1));
            c = (if length args \<ge> 3 then parse_expire_cond (utf8_or_empty (args ! 2)) else ENone);
            (b, st1) = store_exists (e_now env) key st
        in if \<not> b then Ret (Integer 0, st1)
           else
             let dur = to_dur n; (holds, st2) = check_expire_cond env key dur c st1 in
             if \<not> holds then Ret (Integer 0, st2)
             else obind (instant_add (e_now env) dur) (\<lambda>at. Ret (Integer 1, snd (store_expire key at st2))))"

definition cmd_expire :: "env \<Rightarrow> bytes list \<Rightarrow> 's store \<Rightarrow> 's result" where
  "cmd_expire env args st = expire_with ''expire'' (\<lambda>n. secs (nat (max n 0))) env args st"

definition cmd_pexpire :: "env \<Rightarrow> bytes list \<Rightarrow> 's store \<Rightarrow> 's result" where
  "cmd_pexpire env args st = expire_with ''pexpire'' (\<lambda>n. millis (nat (max n 0))) env args st"

definition cmd_expireat :: "env \<Rightarrow> bytes list \<Rightarrow> 's store \<Rightarrow> 's result" where
  "cmd_expireat env args st =
     expire_with ''expireat'' (\<lambda>ts. secs (nat (max (wrap_i64 (ts - int (e_wall env div 1000))) 0))) env args st"

definition cmd_pexpireat :: "env \<Rightarrow> bytes list \<Rightarrow> 's store \<Rightarrow> 's result" where
  "cmd_pexpireat env args st =
     expire_with ''pexpireat'' (\<lambda>ts. millis (nat (max (wrap_i64 (ts - int (e_wall env))) 0))) env args st"

definition ttl_with :: "string \<Rightarrow> (duration \<Rightarrow> int) \<Rightarrow> env \<Rightarrow> bytes list \<Rightarrow> 's store \<Rightarrow> 's result" where
  "ttl_with name from_dur env args st =
     (if length args \<noteq> 1 then Ret (wrong_args name, st)
      else
        let (b, st1) = store_exists (e_now env) (hd args) st in
        if \<not> b then Ret (Integer (-2), st1)
        else
          let (t, st2) = store_ttl (e_now env) (hd args) st1
          in Ret (Integer (case t of Some d \<Rightarrow> from_dur d | None \<Rightarrow> -1), st2))"

definition as_secs :: "duration \<Rightarrow> int" where "as_secs d = wrap_i64 (int (d div 10 ^ 9))"
definition as_millis :: "duration \<Rightarrow> int" where "as_millis d = wrap_i64 (int (d div 10 ^ 6))"

definition cmd_ttl :: "env \<Rightarrow> bytes list \<Rightarrow> 's store \<Rightarrow> 's result" where
  "cmd_ttl env args st = ttl_with ''ttl'' as_secs env args st"

definition cmd_pttl :: "env \<Rightarrow> bytes list \<Rightarrow> 's store \<Rightarrow> 's result" where
  "cmd_pttl env args st = ttl_with ''pttl'' as_millis env args st"

definition cmd_expiretime :: "env \<Rightarrow> bytes list \<Rightarrow> 's store \<Rightarrow> 's result" where
  "cmd_expiretime env args st =
     ttl_with ''expiretime'' (\<lambda>d. wrap_i64 (int (e_wall env div 1000) + as_secs d)) env args st"

definition cmd_pexpiretime :: "env \<Rightarrow> bytes list \<Rightarrow> 's store \<Rightarrow> 's result" where
  "cmd_pexpiretime env args st =
     ttl_with ''pexpiretime'' (\<lambda>d. wrap_i64 (int (e_wall env) + as_millis d)) env args st"

definition cmd_persist :: "env \<Rightarrow> bytes list \<Rightarrow> 's store \<Rightarrow> 's result" where
  "cmd_persist env args st =
     (if length args \<noteq> 1 then Ret (wrong_args ''persist'', st)
      else case store_get (e_now env) (hd args) st of
             (None, st1) \<Rightarrow> Ret (Integer 0, st1)
           | (Some e, st1) \<Rightarrow>
               if expires_at e = None then Ret (Integer 0, st1)
               else obind (store_set (e_now env) (hd args) (data e) None st1) (\<lambda>st2. Ret (Integer 1, st2)))"

subsection \<open>Iteration\<close>

definition cmd_keys :: "env \<Rightarrow> bytes list \<Rightarrow> 's store \<Rightarrow> 's result" where
  "cmd_keys env args st =
     (if length args \<noteq> 1 then Ret (wrong_args ''keys'', st)
      else let (ks, st') = store_keys (e_now env) (utf8_or_empty (hd args)) st
           in Ret (Array (Some (map bull ks)), st'))"

record key_scan =
  ks_pat :: "bytes option"
  ks_count :: nat
  ks_type :: "bytes option"

fun key_scan_options :: "bytes list \<Rightarrow> key_scan \<Rightarrow> key_scan" where
  "key_scan_options [] so = so"
| "key_scan_options [a] so = so"
| "key_scan_options (a # b # rest) so =
     (let tok = to_upper (utf8_or_empty a) in
      if tok = ascii ''MATCH'' then key_scan_options rest (so\<lparr>ks_pat := from_utf8 b\<rparr>)
      else if tok = ascii ''COUNT'' then key_scan_options rest (so\<lparr>ks_count := unwrap_or 10 (bytes_u64 b)\<rparr>)
      else if tok = ascii ''TYPE'' then key_scan_options rest (so\<lparr>ks_type := from_utf8 b\<rparr>)
      else key_scan_options (b # rest) so)"

text \<open>\<^verbatim>\<open>keys.retain\<close> with a test that may drop expired entries from the store.\<close>

fun retain :: "(bytes \<Rightarrow> 's store \<Rightarrow> bool \<times> 's store) \<Rightarrow> bytes list \<Rightarrow> 's store \<Rightarrow> bytes list \<times> 's store" where
  "retain f [] st = ([], st)"
| "retain f (k # ks) st =
     (let (b, st1) = f k st; (r, st2) = retain f ks st1 in (if b then k # r else r, st2))"

definition key_scan_match :: "bytes option \<Rightarrow> bytes list \<Rightarrow> bytes list" where
  "key_scan_match pat ks =
     (case pat of
        None \<Rightarrow> ks
      | Some p \<Rightarrow>
          if p = [42] then ks
          else case split_once 42 p of
                 Some (pre, suf) \<Rightarrow>
                   filter (\<lambda>k. starts_with (utf8_or_empty k) pre \<and> ends_with (utf8_or_empty k) suf) ks
               | None \<Rightarrow> filter (\<lambda>k. k = p) ks)"

text \<open>A page of the keys; the end may wrap below the start, and then the slice panics.\<close>

definition key_scan_page :: "nat \<Rightarrow> nat \<Rightarrow> bytes list \<Rightarrow> RespValue outcome" where
  "key_scan_page start count ks =
     (if start \<ge> length ks then Ret (Array (Some [bull [48], Array None]))
      else
        let end = min (wrap_u64 (start + count)) (length ks) in
        if end < start then Panic
        else Ret (Array (Some [bull (show_nat (if end \<ge> length ks then 0 else end)),
                               Array (Some (map bull (take (end - start) (drop start ks))))])))"

definition cmd_scan :: "env \<Rightarrow> bytes list \<Rightarrow> 's store \<Rightarrow> 's result" where
  "cmd_scan env args st =
     (if args = [] then Ret (wrong_args ''scan'', st)
      else
        let cursor = unwrap_or 0 (bytes_u64 (hd args));
            so = key_scan_options (tl args) \<lparr>ks_pat = None, ks_count = 10, ks_type = None\<rparr>;
            (all, st1) = store_keys (e_now env) [42] st;
            (ks, st2) = retain (store_exists (e_now env)) all st1;
            sorted = sort ks;
            (typed, st3) = (case ks_type so of
                None \<Rightarrow> (sorted, st2)
              | Some t \<Rightarrow> retain (\<lambda>k s. let (x, s') = store_type_of (e_now env) k s in (x = Some t, s')) sorted st2)
        in obind (key_scan_page cursor (ks_count so) (key_scan_match (ks_pat so) typed)) (\<lambda>r. Ret (r, st3)))"

definition cmd_randomkey :: "env \<Rightarrow> 's store \<Rightarrow> 's result" where
  "cmd_randomkey env st =
     (let (ks, st') = store_keys (e_now env) [42] st
      in Ret (if ks = [] then null_bulk else bull (ks ! draw env 0 (length ks)), st'))"

definition encoding_name :: "bytes option \<Rightarrow> bytes" where
  "encoding_name t =
     (if t = Some (ascii ''string'') then ascii ''embstr''
      else if t = Some (ascii ''list'') then ascii ''quicklist''
      else if t = Some (ascii ''hash'') then ascii ''hashtable''
      else if t = Some (ascii ''set'') then ascii ''hashtable''
      else if t = Some (ascii ''zset'') then ascii ''skiplist''
      else if t = Some (ascii ''stream'') then ascii ''listpack''
      else ascii ''unknown'')"

definition cmd_object :: "env \<Rightarrow> bytes list \<Rightarrow> 's store \<Rightarrow> 's result" where
  "cmd_object env args st =
     (if length args < 2 then Ret (wrong_args ''object'', st)
      else
        let sub = to_upper (utf8_or_empty (hd args)); key = args ! 1 in
        if sub \<notin> {ascii ''ENCODING'', ascii ''REFCOUNT'', ascii ''IDLETIME'', ascii ''FREQ''} then Ret (syntax_error, st)
        else
          let (b, st1) = store_exists (e_now env) key st in
          if \<not> b then Ret (Error (ascii ''ERR no such key''), st1)
          else if sub = ascii ''ENCODING'' then
            (let (t, st2) = store_type_of (e_now env) key st1 in Ret (bull (encoding_name t), st2))
          else Ret (Integer (if sub = ascii ''REFCOUNT'' then 1 else 0), st1))"

definition cmd_wait :: "bytes list \<Rightarrow> 's store \<Rightarrow> 's result" where
  "cmd_wait args st = Ret (if length args < 2 then wrong_args ''wait'' else Integer 0, st)"

subsection \<open>Serialised values\<close>

definition dump_item :: "bytes \<Rightarrow> bytes" where
  "dump_item b = le_bytes 4 (int (length b)) @ b"

fun dump_type :: "'s DataType \<Rightarrow> byte" where
  "dump_type (DString _) = 0"
| "dump_type (DList _) = 1"
| "dump_type (DListPack _) = 1"
| "dump_type (DSet _) = 2"
| "dump_type (DIntSet _) = 2"
| "dump_type (DZSet _) = 3"
| "dump_type (DHash _) = 4"
| "dump_type (DStream _) = 5"

fun dump_data :: "('s \<Rightarrow> bytes) \<Rightarrow> 's DataType \<Rightarrow> bytes outcome" where
  "dump_data sle (DString s) = Ret s"
| "dump_data sle (DList l) = Ret (concat (map dump_item l))"
| "dump_data sle (DListPack p) = obind (lp_to_vec p) (\<lambda>l. Ret (concat (map dump_item l)))"
| "dump_data sle (DSet s) = Ret (concat (map dump_item s))"
| "dump_data sle (DIntSet s) = Ret (concat (map (\<lambda>v. dump_item (show_int v)) (intset_to_vec s)))"
| "dump_data sle (DZSet z) = Ret (concat (map (\<lambda>(m, s). dump_item m @ sle s) (members z)))"
| "dump_data sle (DHash h) = Ret (concat (map (\<lambda>(k, v). dump_item k @ dump_item v) h))"
| "dump_data sle (DStream _) = Ret []"

text \<open>The checksum is the sum of the bytes modulo \<open>2 ^ 32\<close>.\<close>

definition byte_sum :: "bytes \<Rightarrow> nat" where
  "byte_sum b = sum_list (map unat b) mod 2 ^ 32"

definition dump_payload :: "('s \<Rightarrow> bytes) \<Rightarrow> env \<Rightarrow> 's entry \<Rightarrow> bytes outcome" where
  "dump_payload sle env e =
     obind (dump_data sle (data e)) (\<lambda>d.
       let ttl_ms = (case expires_at e of
               None \<Rightarrow> 0
             | Some at \<Rightarrow> if at \<ge> e_now env then wrap_u64 ((at - e_now env) div 10 ^ 6) else 0);
           buf = [dump_type (data e)] @ le_bytes 4 (int (length d)) @ d @ le_bytes 8 (int ttl_ms)
       in Ret (buf @ le_bytes 4 (int (byte_sum buf))))"

definition cmd_dump :: "('s \<Rightarrow> bytes) \<Rightarrow> env \<Rightarrow> bytes list \<Rightarrow> 's store \<Rightarrow> 's result" where
  "cmd_dump sle env args st =
     (if args = [] then Ret (wrong_args ''dump'', st)
      else case store_get (e_now env) (hd args) st of
             (None, st') \<Rightarrow> Ret (null_bulk, st')
           | (Some e, st') \<Rightarrow> obind (dump_payload sle env e) (\<lambda>b. Ret (bull b, st')))"

text \<open>
  Reading an item: its length and the bytes after it, of which \<open>extra\<close> more have to follow; the loops
  stop at the first item that is cut off.
\<close>

definition read_item :: "nat \<Rightarrow> bytes \<Rightarrow> (bytes \<times> bytes) option" where
  "read_item extra b =
     (if length b < 4 then None
      else
        let n = nat (le_uint (take 4 b)); r = drop 4 b in
        if n + extra > length r then None else Some (take n r, drop n r))"

lemma read_item_shorter: "read_item extra b = Some (x, r) \<Longrightarrow> length r < length b"
  by (auto simp: read_item_def Let_def split: if_splits)

function restore_items :: "bytes \<Rightarrow> bytes list" where
  "restore_items b = (case read_item 0 b of None \<Rightarrow> [] | Some (x, r) \<Rightarrow> x # restore_items r)"
  by auto
termination
  by (relation "measure length") (auto dest: read_item_shorter)

function restore_members :: "(bytes \<Rightarrow> 's) \<Rightarrow> bytes \<Rightarrow> 's ZSetData \<Rightarrow> 's ZSetData" where
  "restore_members sread b z =
     (case read_item 8 b of
        None \<Rightarrow> z
      | Some (m, r) \<Rightarrow> restore_members sread (drop 8 r) (zset_add m (sread (take 8 r)) z))"
  by auto
termination
  by (relation "measure (\<lambda>(_, b, _). length b)") (auto dest: read_item_shorter)

function restore_pairs :: "bytes \<Rightarrow> (bytes, bytes) dict \<Rightarrow> (bytes, bytes) dict" where
  "restore_pairs b h =
     (case read_item 4 b of
        None \<Rightarrow> h
      | Some (k, r) \<Rightarrow>
          (case read_item 0 r of
             None \<Rightarrow> h
           | Some (v, r') \<Rightarrow> restore_pairs r' (dict_put k v h)))"
  by auto
termination
  by (relation "measure (\<lambda>(b, _). length b)") (auto dest!: read_item_shorter)

declare restore_items.simps [simp del] restore_members.simps [simp del] restore_pairs.simps [simp del]

definition restore_data :: "(bytes \<Rightarrow> 's) \<Rightarrow> byte \<Rightarrow> bytes \<Rightarrow> 's DataType option" where
  "restore_data sread t b =
     (if t = 0 then Some (DString b)
      else if t = 1 then Some (DList (restore_items b))
      else if t = 2 then Some (DSet (fold (\<lambda>x s. fst (hset_insert x s)) (restore_items b) []))
      else if t = 3 then Some (DZSet (restore_members sread b zset_new))
      else if t = 4 then Some (DHash (restore_pairs b []))
      else if t = 5 then Some (DStream stream_new)
      else None)"

definition bad_payload :: RespValue where
  "bad_payload = Error (ascii ''ERR DUMP payload version or checksum are wrong'')"

definition parse_payload :: "(bytes \<Rightarrow> 's) \<Rightarrow> bytes \<Rightarrow> ('s DataType \<times> nat) option" where
  "parse_payload sread s =
     (if length s < 14 then None
      else
        let part = take (length s - 4) s; checksum = nat (le_uint (drop (length s - 4) s)) in
        if checksum \<noteq> byte_sum part then None
        else
          let data_len = nat (le_uint (take 4 (drop 1 part))) in
          if 5 + data_len + 8 > length part then None
          else map_option (\<lambda>d. (d, nat (le_uint (take 8 (drop (5 + data_len) part)))))
                 (restore_data sread (part ! 0) (take data_len (drop 5 part))))"

definition cmd_restore :: "(bytes \<Rightarrow> 's) \<Rightarrow> env \<Rightarrow> bytes list \<Rightarrow> 's store \<Rightarrow> 's result" where
  "cmd_restore sread env args st =
     (if length args < 3 then Ret (wrong_args ''restore'', st)
      else
        let ttl_ms = unwrap_or 0 (bytes_u64 (args ! 1)) in
        case parse_payload sread (args ! 2) of
          None \<Rightarrow> Ret (bad_payload, st)
        | Some (d, ttl_stored) \<Rightarrow>
            obind (store_set (e_now env) (hd args) d
                     (if ttl_ms > 0 then Some (millis ttl_ms) else if ttl_stored > 0 then Some (millis ttl_stored) else None) st)
              (\<lambda>st'. Ret (ok, st')))"

subsection \<open>Sorting\<close>

datatype SortOrder = Asc | Desc

record sort_opts =
  so_limit :: "(nat \<times> nat) option"
  so_order :: SortOrder
  so_alpha :: bool
  so_store :: "bytes option"

text \<open>The options; the flag tells whether STORE is an error.\<close>

fun sort_options :: "bool \<Rightarrow> bytes list \<Rightarrow> sort_opts \<Rightarrow> RespValue + sort_opts" where
  "sort_options ro [] so = Inr so"
| "sort_options ro (a # rest) so =
     (let tok = to_upper (utf8_or_empty a) in
      if tok = ascii ''LIMIT'' then
        (case rest of
           x # y # rest' \<Rightarrow>
             sort_options ro rest' (so\<lparr>so_limit := Some (unwrap_or 0 (bytes_u64 x), unwrap_or 0 (bytes_u64 y))\<rparr>)
         | _ \<Rightarrow> Inr so)
      else if tok = ascii ''ASC'' then sort_options ro rest (so\<lparr>so_order := Asc\<rparr>)
      else if tok = ascii ''DESC'' then sort_options ro rest (so\<lparr>so_order := Desc\<rparr>)
      else if tok = ascii ''ALPHA'' then sort_options ro rest (so\<lparr>so_alpha := True\<rparr>)
      else if tok = ascii ''STORE'' then
        (if ro then Inl (Error (ascii ''ERR SORT_RO does not support STORE''))
         else case rest of x # rest' \<Rightarrow> sort_options ro rest' (so\<lparr>so_store := Some x\<rparr>) | [] \<Rightarrow> Inr so)
      else sort_options ro rest so)"

fun sort_items :: "'s DataType \<Rightarrow> bytes list option outcome" where
  "sort_items (DList l) = Ret (Some l)"
| "sort_items (DListPack p) = obind (lp_to_vec p) (\<lambda>l. Ret (Some l))"
| "sort_items (DSet s) = Ret (Some s)"
| "sort_items (DIntSet s) = Ret (Some (map show_int (intset_to_vec s)))"
| "sort_items (DZSet z) = Ret (Some (map fst (members z)))"
| "sort_items _ = Ret None"

text \<open>
  The order of floating-point numbers other than NaN, as that of integers. NaN compares as equal to every
  number; the order a sort leaves then is not specified, and is the parameter \<open>unordered\<close>.
\<close>

definition f64_rank :: "f64 \<Rightarrow> int" where
  "f64_rank d = (let a = int (unat d mod 2 ^ 63) in if f64_neg d then - a else a)"

definition sort_number :: "bytes \<Rightarrow> f64" where
  "sort_number b = unwrap_or 0 (parse_f64 (utf8_lossy b))"

definition sorted_items :: "(bytes list \<Rightarrow> bytes list) \<Rightarrow> sort_opts \<Rightarrow> bytes list \<Rightarrow> bytes list" where
  "sorted_items unordered so l =
     (let v = (if so_alpha so then sort_key utf8_lossy l
               else if list_ex (\<lambda>b. f64_is_nan (sort_number b)) l then unordered l
               else sort_key (\<lambda>b. f64_rank (sort_number b)) l)
      in if so_order so = Desc then rev v else v)"

definition limit_items :: "(nat \<times> nat) option \<Rightarrow> bytes list \<Rightarrow> bytes list outcome" where
  "limit_items limit l =
     (case limit of
        None \<Rightarrow> Ret l
      | Some (off, cnt) \<Rightarrow>
          (let s = min off (length l); e = min (wrap_u64 (off + cnt)) (length l) in
           if s \<le> e then Ret (take (e - s) (drop s l)) else Panic))"

definition sort_with :: "bool \<Rightarrow> (bytes list \<Rightarrow> bytes list) \<Rightarrow> env \<Rightarrow> bytes list \<Rightarrow> 's store \<Rightarrow> 's result" where
  "sort_with ro unordered env args st =
     (if args = [] then Ret (wrong_args (if ro then ''sort_ro'' else ''sort''), st)
      else case sort_options ro (tl args) \<lparr>so_limit = None, so_order = Asc, so_alpha = False, so_store = None\<rparr> of
             Inl err \<Rightarrow> Ret (err, st)
           | Inr so \<Rightarrow>
               (case read_data env (hd args) st of
                  (None, st1) \<Rightarrow> Ret (Array None, st1)
                | (Some d, st1) \<Rightarrow>
                    obind (sort_items d) (\<lambda>r.
                      case r of
                        None \<Rightarrow> Ret (Error (ascii ''WRONGTYPE''), st1)
                      | Some l \<Rightarrow>
                          obind (limit_items (so_limit so) (sorted_items unordered so l)) (\<lambda>items.
                            case so_store so of
                              None \<Rightarrow> Ret (Array (Some (map bull items)), st1)
                            | Some dst \<Rightarrow>
                                obind (store_set (e_now env) dst (DList items) None st1) (\<lambda>st2.
                                  Ret (Integer (int (length items)), st2))))))"

definition cmd_sort :: "(bytes list \<Rightarrow> bytes list) \<Rightarrow> env \<Rightarrow> bytes list \<Rightarrow> 's store \<Rightarrow> 's result" where
  "cmd_sort unordered env args st = sort_with False unordered env args st"

definition cmd_sort_ro :: "(bytes list \<Rightarrow> bytes list) \<Rightarrow> env \<Rightarrow> bytes list \<Rightarrow> 's store \<Rightarrow> 's result" where
  "cmd_sort_ro unordered env args st = sort_with True unordered env args st"

subsection \<open>SUBSTR\<close>

definition substr_index :: "int \<Rightarrow> int \<Rightarrow> int" where
  "substr_index index len = (if index < 0 then (let idx = len + index in if idx < 0 then 0 else idx) else index)"

definition cmd_substr :: "env \<Rightarrow> bytes list \<Rightarrow> 's store \<Rightarrow> 's result" where
  "cmd_substr env args st =
     (if length args \<noteq> 3 then Ret (wrong_args ''substr'', st)
      else
        let start = unwrap_or 0 (bytes_i64 (args ! 1)); stop = unwrap_or 0 (bytes_i64 (args ! 2)) in
        case read_data env (hd args) st of
          (None, st') \<Rightarrow> Ret (bull [], st')
        | (Some d, st') \<Rightarrow>
            Ret (case d of
                   DString s \<Rightarrow>
                     (let len = int (length s); si = substr_index start len; ei = substr_index stop len in
                      if len = 0 \<or> si > ei \<or> si \<ge> len then bull []
                      else bull (take (nat (min ei (len - 1) - si + 1)) (drop (nat si) s)))
                 | _ \<Rightarrow> wrongtype, st'))"

subsection \<open>The dispatcher\<close>

definition keys_handle ::
  "('s \<Rightarrow> bytes) \<Rightarrow> (bytes \<Rightarrow> 's) \<Rightarrow> (bytes list \<Rightarrow> bytes list) \<Rightarrow> env \<Rightarrow> bytes list \<Rightarrow> 's store \<Rightarrow> 's result" where
  "keys_handle sle sread unordered env a st =
     (if a = [] then Ret (Error (ascii ''ERR wrong number of arguments''), st)
      else case from_utf8 (hd a) of
        None \<Rightarrow> Ret (Error (ascii ''ERR invalid command name''), st)
      | Some x \<Rightarrow>
          (let cmd = to_upper x; args = tl a in
           if cmd = ascii ''EXISTS'' then cmd_exists env args st
           else if cmd = ascii ''TYPE'' then cmd_type env args st
           else if cmd = ascii ''RENAME'' then cmd_rename env args st
           else if cmd = ascii ''RENAMENX'' then cmd_renamenx env args st
           else if cmd = ascii ''EXPIRE'' then cmd_expire env args st
           else if cmd = ascii ''PEXPIRE'' then cmd_pexpire env args st
           else if cmd = ascii ''EXPIREAT'' then cmd_expireat env args st
           else if cmd = ascii ''PEXPIREAT'' then cmd_pexpireat env args st
           else if cmd = ascii ''TTL'' then cmd_ttl env args st
           else if cmd = ascii ''PTTL'' then cmd_pttl env args st
           else if cmd = ascii ''PERSIST'' then cmd_persist env args st
           else if cmd = ascii ''KEYS'' then cmd_keys env args st
           else if cmd = ascii ''SCAN'' then cmd_scan env args st
           else if cmd = ascii ''RANDOMKEY'' then cmd_randomkey env st
           else if cmd = ascii ''MOVE'' then cmd_move args st
           else if cmd = ascii ''COPY'' then cmd_copy env args st
           else if cmd = ascii ''OBJECT'' then cmd_object env args st
           else if cmd = ascii ''DUMP'' then cmd_dump sle env args st
           else if cmd = ascii ''RESTORE'' then cmd_restore sread env args st
           else if cmd = ascii ''WAIT'' then cmd_wait args st
           else if cmd = ascii ''SORT'' then cmd_sort unordered env args st
           else if cmd = ascii ''SORT_RO'' then cmd_sort_ro unordered env args st
           else if cmd = ascii ''SUBSTR'' then cmd_substr env args st
           else if cmd = ascii ''EXPIRETIME'' then cmd_expiretime env args st
           else if cmd = ascii ''PEXPIRETIME'' then cmd_pexpiretime env args st
           else if cmd = ascii ''UNLINK'' then cmd_unlink args st
           else if cmd = ascii ''TOUCH'' then cmd_touch env args st
           else Ret (Error (ascii ''ERR unknown command '' @ [96] @ cmd @ [96]), st)))"

end
