(* ===== verification/Keys_Props.thy ===== *)
theory Keys_Props
  imports Cmd_Keys Rdb
begin

text \<open>
  What the commands on keys promise: serialised values survive DUMP and RESTORE, the expiry commands and
  renaming act on the deadline of a key as they say, and the paths that lose a value or a
  deadline, never end or panic.
\<close>

subsection \<open>Serialised values\<close>

lemma read_item_dump:
  assumes "length x < 2 ^ 32" "extra \<le> length r"
  shows "read_item extra (dump_item x @ r) = Some (x, r)"
proof -
  have "int (length x) mod 256 ^ 4 = int (length x)" using assms(1) by simp
  then show ?thesis using assms by (simp add: read_item_def dump_item_def Let_def le_uint_le_bytes)
qed

lemma read_item_Nil [simp]: "read_item extra [] = None"
  by (simp add: read_item_def)

lemma dump_item_length: "x \<in> set l \<Longrightarrow> length x \<le> length (concat (map dump_item l))"
  by (induction l) (auto simp: dump_item_def)

lemma member_length: "p \<in> set ms \<Longrightarrow> length (fst p) \<le> length (concat (map (\<lambda>(m, s). dump_item m @ sle s) ms))"
  by (induction ms) (auto simp: dump_item_def)

lemma restore_items_dump:
  "\<forall>x \<in> set l. length x < 2 ^ 32 \<Longrightarrow> restore_items (concat (map dump_item l)) = l"
proof (induction l)
  case Nil
  then show ?case by (simp add: restore_items.simps)
next
  case (Cons x l)
  then show ?case by (subst restore_items.simps) (simp add: read_item_dump)
qed

lemma restore_members_dump:
  assumes "\<forall>(m, s) \<in> set ms. length m < 2 ^ 32" "\<And>s. length (sle s) = 8" "\<And>s. sread (sle s) = s"
  shows "restore_members sread (concat (map (\<lambda>(m, s). dump_item m @ sle s) ms)) z = fold (\<lambda>(m, s). zset_add m s) ms z"
  using assms(1)
proof (induction ms arbitrary: z)
  case Nil
  then show ?case by (simp add: restore_members.simps)
next
  case (Cons p ms)
  obtain m s where p: "p = (m, s)" by fastforce
  let ?r = "sle s @ concat (map (\<lambda>(m, s). dump_item m @ sle s) ms)"
  have "read_item 8 (dump_item m @ ?r) = Some (m, ?r)"
    using Cons.prems p assms(2) by (intro read_item_dump) auto
  then show ?case using Cons p assms(2,3) by (subst restore_members.simps) (simp add: p)
qed

lemma restore_pairs_dump:
  "\<forall>(k, v) \<in> set ps. length k < 2 ^ 32 \<and> length v < 2 ^ 32 \<Longrightarrow>
    restore_pairs (concat (map (\<lambda>(k, v). dump_item k @ dump_item v) ps)) h = fold (\<lambda>(k, v). dict_put k v) ps h"
proof (induction ps arbitrary: h)
  case Nil
  then show ?case by (simp add: restore_pairs.simps)
next
  case (Cons p ps)
  obtain k v where p: "p = (k, v)" by fastforce
  let ?r = "concat (map (\<lambda>(k, v). dump_item k @ dump_item v) ps)"
  have "read_item 4 (dump_item k @ dump_item v @ ?r) = Some (k, dump_item v @ ?r)"
    using Cons.prems p by (intro read_item_dump) (auto simp: dump_item_def)
  moreover have "read_item 0 (dump_item v @ ?r) = Some (v, ?r)"
    using Cons.prems p by (intro read_item_dump) auto
  ultimately show ?case using Cons p by (subst restore_pairs.simps) (simp add: p)
qed

fun is_stream :: "'s DataType \<Rightarrow> bool" where
  "is_stream (DStream _) = True"
| "is_stream _ = False"

lemma fold_dict_put:
  "dict_wf m \<Longrightarrow> map_of (fold (\<lambda>(k, v). dict_put k v) m []) = map_of m \<and> dict_wf (fold (\<lambda>(k, v). dict_put k v) m [])"
  using hashmap.get_fold_put [of m "[]"] hashmap.wf_fold_put [of "[]" m] map_of_rev_distinct [of m]
  by (simp add: dict_wf_def)

lemma restore_data_dump:
  assumes "data_wf d" "\<not> is_stream d" "dump_data sle d = Ret b" "length b < 2 ^ 32"
    and "\<And>s. length (sle s) = 8" "\<And>s. sread (sle s) = s"
  shows "\<exists>d'. restore_data sread (dump_type d) b = Some d' \<and> value_of d' = value_of d \<and> data_wf d'"
proof -
  have items: "restore_items (concat (map dump_item l)) = l" if "b = concat (map dump_item l)" for l
    using that assms(4) dump_item_length [of _ l] by (intro restore_items_dump ballI) (metis le_less_trans)
  show ?thesis
  proof (cases d)
    case (DString s)
    then show ?thesis using assms(3) by (simp add: restore_data_def)
  next
    case (DList l)
    then show ?thesis using assms(3) items [of l] by (simp add: restore_data_def)
  next
    case (DListPack p)
    then obtain es where es: "lp_rep p es" using assms(1) by auto
    then have "b = concat (map dump_item (map entry_to_bytes es))"
      using assms(3) DListPack by (simp add: lp_to_vec_def lp_rep_reads)
    then show ?thesis using items [of "map entry_to_bytes es"] DListPack lp_rep_reads(1) [OF es]
      by (simp add: restore_data_def)
  next
    case (DSet s)
    then show ?thesis using assms(1,3) items [of s] fold_hset_insert [of s "[]"] by (simp add: restore_data_def)
  next
    case (DIntSet s)
    then have "b = concat (map dump_item (map show_int (intset_to_vec s)))" using assms(3) by (simp add: comp_def)
    then show ?thesis using items [of "map show_int (intset_to_vec s)"] DIntSet fold_hset_insert [of "map show_int (intset_to_vec s)" "[]"]
      by (simp add: restore_data_def)
  next
    case (DHash h)
    have "\<forall>(k, v) \<in> set h. length k < 2 ^ 32 \<and> length v < 2 ^ 32"
    proof (intro ballI)
      fix p assume "p \<in> set h"
      then have "length (fst p) + length (snd p) \<le> length (concat (map (\<lambda>(k, v). dump_item k @ dump_item v) h))"
        by (induction h) (auto simp: dump_item_def)
      then show "case p of (k, v) \<Rightarrow> length k < 2 ^ 32 \<and> length v < 2 ^ 32"
        using assms(3,4) DHash by (auto split: prod.split)
    qed
    from restore_pairs_dump [OF this, of "[]"] show ?thesis
      using DHash assms(1,3) fold_dict_put [of h] by (auto simp: restore_data_def)
  next
    case (DZSet z)
    have "\<forall>(m, s) \<in> set (members z). length m < 2 ^ 32"
    proof (intro ballI)
      fix p assume "p \<in> set (members z)"
      then have "length (fst p) \<le> length (concat (map (\<lambda>(m, s). dump_item m @ sle s) (members z)))"
        by (rule member_length)
      then show "case p of (m, s) \<Rightarrow> length m < 2 ^ 32" using assms(3,4) DZSet by (auto split: prod.split)
    qed
    note r = restore_members_dump [where sle = sle and sread = sread, OF this assms(5,6), of zset_new]
    have m: "zset_inv y \<Longrightarrow> zset_inv (fold (\<lambda>(m, s). zset_add m s) ops y)
        \<and> members (fold (\<lambda>(m, s). zset_add m s) ops y) = fold (\<lambda>(m, s). dict_put m s) ops (members y)" for y :: "'a ZSetData" and ops
      by (induction ops arbitrary: y) (auto simp: zset_add_inv zset_add_members)
    have "dict_wf (members z)" using assms(1) DZSet by (simp add: zset_inv_def)
    then show ?thesis using r m [OF zset_new_inv, of "members z"] DZSet assms(3) fold_dict_put [of "members z"]
      by (auto simp: restore_data_def zset_new_def)
  next
    case (DStream s)
    then show ?thesis using assms(2) by simp
  qed
qed

lemma parse_payload_dump:
  assumes "data_wf (data e)" "\<not> is_stream (data e)" "dump_data sle (data e) = Ret b" "length b < 2 ^ 32"
    and "\<And>s. length (sle s) = 8" "\<And>s. sread (sle s) = s" "ms < 2 ^ 64"
    and "buf = [dump_type (data e)] @ le_bytes 4 (int (length b)) @ b @ le_bytes 8 (int ms)"
  shows "\<exists>d'. parse_payload sread (buf @ le_bytes 4 (int (byte_sum buf))) = Some (d', ms)
    \<and> value_of d' = value_of (data e) \<and> data_wf d'"
proof -
  let ?s = "buf @ le_bytes 4 (int (byte_sum buf))"
  have len: "length buf = 13 + length b" using assms(8) by simp
  have cut: "take (length ?s - 4) ?s = buf" "drop (length ?s - 4) ?s = le_bytes 4 (int (byte_sum buf))" by simp_all
  have "int (byte_sum buf) mod 256 ^ 4 = int (byte_sum buf)" by (simp add: byte_sum_def)
  then have sum: "nat (le_uint (le_bytes 4 (int (byte_sum buf)))) = byte_sum buf" by (simp only: le_uint_le_bytes nat_int)
  have "int (length b) mod 256 ^ 4 = int (length b)" using assms(4) by simp
  then have dl: "nat (le_uint (take 4 (drop 1 buf))) = length b" using assms(8) by (simp add: le_uint_le_bytes)
  have "int ms mod 256 ^ 8 = int ms" using assms(7) by simp
  moreover have "drop (5 + length b) buf = le_bytes 8 (int ms)"
  proof -
    have "buf = ([dump_type (data e)] @ le_bytes 4 (int (length b)) @ b) @ le_bytes 8 (int ms)" using assms(8) by simp
    moreover have "length ([dump_type (data e)] @ le_bytes 4 (int (length b)) @ b) = 5 + length b" by simp
    ultimately show ?thesis by (metis append_eq_conv_conj)
  qed
  ultimately have tl: "nat (le_uint (take 8 (drop (5 + length b) buf))) = ms" by (simp add: le_uint_le_bytes)
  have db: "take (length b) (drop 5 buf) = b" using assms(8) by simp
  have h: "buf ! 0 = dump_type (data e)" using assms(8) by simp
  obtain d' where "restore_data sread (dump_type (data e)) b = Some d'" "value_of d' = value_of (data e)" "data_wf d'"
    using restore_data_dump [OF assms(1-6)] by blast
  then show ?thesis
    unfolding parse_payload_def cut Let_def sum dl tl db h using len by simp
qed

text \<open>
  C12. DUMP and RESTORE move values: the payload DUMP answers for a live key of any type but stream, of at most
  \<open>2 ^ 32\<close> bytes, restores under any key and in any store the same value, which replaces what
  the key held, with the remaining time to live in whole milliseconds (none if less than one is left);
  the other keys stay.
\<close>

theorem dump_restore:
  assumes "live (e_now env) (kmap st) k = Some e" "data_wf (data e)" "\<not> is_stream (data e)"
    and "dump_data sle (data e) = Ret b" "length b < 2 ^ 32"
    and "\<And>s. length (sle s) = 8" "\<And>s. sread (sle s) = s"
    and "\<And>at. expires_at e = Some at \<Longrightarrow>
      (at - e_now env) div 10 ^ 6 < 2 ^ 64 \<and> e_now env' + millis ((at - e_now env) div 10 ^ 6) \<le> instant_max"
  shows "\<exists>payload st' e'. cmd_dump sle env [k] st = Ret (bull payload, st)
    \<and> cmd_restore sread env' [k', [48], payload] dst = Ret (ok, st')
    \<and> kmap st' = (kmap dst)(k' \<mapsto> e') \<and> value_of (data e') = value_of (data e) \<and> data_wf (data e')
    \<and> expires_at e' = (case expires_at e of
        None \<Rightarrow> None
      | Some at \<Rightarrow> let ms = (at - e_now env) div 10 ^ 6 in if ms = 0 then None else Some (e_now env' + millis ms))"
proof -
  define ms where "ms = (case expires_at e of None \<Rightarrow> 0 | Some at \<Rightarrow> (at - e_now env) div 10 ^ 6)"
  define buf where "buf = [dump_type (data e)] @ le_bytes 4 (int (length b)) @ b @ le_bytes 8 (int ms)"
  let ?p = "buf @ le_bytes 4 (int (byte_sum buf))"
  have small: "ms < 2 ^ 64" using assms(8) by (auto simp: ms_def split: option.split)
  have due: "e_now env \<le> at" if "expires_at e = Some at" for at
    using assms(1) that by (auto simp: live_def is_expired_def split: option.splits if_splits)
  have "(case expires_at e of None \<Rightarrow> 0
      | Some at \<Rightarrow> if at \<ge> e_now env then wrap_u64 ((at - e_now env) div 10 ^ 6) else 0) = ms"
    using small due by (auto simp: ms_def wrap_u64_def split: option.split)
  then have "dump_payload sle env e = Ret ?p" unfolding dump_payload_def assms(4) by (simp add: buf_def Let_def)
  then have dump: "cmd_dump sle env [k] st = Ret (bull ?p, st)"
    using store_get_Some [of "e_now env" k st e st] assms(1) by (simp add: cmd_dump_def)
  obtain d' where d': "parse_payload sread ?p = Some (d', ms)" "value_of d' = value_of (data e)" "data_wf d'"
    using parse_payload_dump [OF assms(2-7) small buf_def] by blast
  have z: "unwrap_or 0 (bytes_u64 [48]) = 0"
    by (simp add: bytes_u64_def parse_usize_def utf8_or_empty_def parse_unsigned_def parse_digits_def is_digit_def
        digits_val_def digit_val_def)
  let ?ttl = "if ms > 0 then Some (millis ms) else None"
  let ?ea = "if ms > 0 then Some (e_now env' + millis ms) else None"
  have "e_now env' + millis ms \<le> instant_max" if "ms > 0"
    using assms(8) that by (auto simp: ms_def split: option.splits)
  then have new: "entry_new (e_now env') d' ?ttl
      = Ret \<lparr>data = d', expires_at = ?ea, last_access = e_now env', access_count = 1, lfu_counter = 1\<rparr>"
    by (simp add: entry_new_def instant_add_def)
  have ea: "?ea = (case expires_at e of
        None \<Rightarrow> None
      | Some at \<Rightarrow> let ms = (at - e_now env) div 10 ^ 6 in if ms = 0 then None else Some (e_now env' + millis ms))"
    by (auto simp: ms_def Let_def split: option.split)
  have res: "\<exists>st'. cmd_restore sread env' [k', [48], ?p] dst = Ret (ok, st')
    \<and> kmap st' = (kmap dst)(k' \<mapsto> \<lparr>data = d', expires_at = ?ea, last_access = e_now env', access_count = 1, lfu_counter = 1\<rparr>)"
    using d'(1) z new by (simp add: cmd_restore_def store_set_def Let_def bump_dirty_def dict_simps)
  then obtain st' where st': "cmd_restore sread env' [k', [48], ?p] dst = Ret (ok, st')"
    "kmap st' = (kmap dst)(k' \<mapsto> \<lparr>data = d', expires_at = ?ea, last_access = e_now env', access_count = 1, lfu_counter = 1\<rparr>)" by blast
  show ?thesis
    by (rule exI [of _ ?p], rule exI [of _ st'],
        rule exI [of _ "\<lparr>data = d', expires_at = ?ea, last_access = e_now env', access_count = 1, lfu_counter = 1\<rparr>"])
      (use dump st' d' ea in \<open>simp\<close>)
qed

theorem dump_restore_witness:
  "\<exists>payload st' e'. cmd_dump bits_le env0 [[1]] (store_new\<lparr>keyspace := [([1], fresh_entry (DHash [([7], [8])]))]\<rparr>) = Ret (bull payload,
        store_new\<lparr>keyspace := [([1], fresh_entry (DHash [([7], [8])]))]\<rparr>)
    \<and> cmd_restore bits_of_le env0 [[2], [48], payload] store_new = Ret (ok, st')
    \<and> kmap st' = [[2] \<mapsto> e'] \<and> value_of (data e') = VHash [[7] \<mapsto> [8]] \<and> expires_at e' = None"
proof -
  let ?e = "fresh_entry (DHash [([7], [8])]) :: 64 word entry"
  let ?st = "store_new\<lparr>keyspace := [([1], ?e)]\<rparr>"
  have l: "live (e_now env0) (kmap ?st) [1] = Some ?e" by (simp add: live_def is_expired_def)
  have wf: "data_wf (data ?e)" "\<not> is_stream (data ?e)" by (simp_all add: dict_wf_def)
  have d: "dump_data bits_le (data ?e) = Ret (dump_item [7] @ dump_item [8])" "length (dump_item [7] @ dump_item [8]) < 2 ^ 32"
    by (simp_all add: dump_item_def)
  have sc: "length (bits_le s) = 8" "bits_of_le (bits_le s) = s" for s
    using uint_lt2p [of s] by (simp_all add: le_uint_le_bytes)
  have x: "(at - e_now env0) div 10 ^ 6 < 2 ^ 64 \<and> e_now env0 + millis ((at - e_now env0) div 10 ^ 6) \<le> instant_max"
    if "expires_at ?e = Some at" for at using that by simp
  have k0: "kmap (store_new :: 64 word store) = Map.empty" by (simp add: store_new_def)
  from dump_restore [where dst = store_new and k' = "[2]" and sle = bits_le and sread = bits_of_le and env' = env0, OF l wf d sc x] k0
  show ?thesis by auto
qed

lemma exists_live: "live now (kmap st) k = Some e \<Longrightarrow> store_exists now k st = (True, st) \<and> kmap st k = Some e \<and> \<not> is_expired now e"
  by (auto simp: live_def store_exists_def split: option.splits if_splits)

lemma ttl_live:
  "live now (kmap st) k = Some e \<Longrightarrow> store_ttl now k st = (map_option (\<lambda>at. at - now) (expires_at e), st)"
  by (auto simp: live_def store_ttl_def is_expired_def split: option.splits if_splits)

lemma kmap_expire:
  "kmap st k = Some e \<Longrightarrow> kmap (snd (store_expire k at st)) = (kmap st)(k \<mapsto> e\<lparr>expires_at := Some at\<rparr>)"
  by (simp add: store_expire_def Let_def bump_dirty_def dict_simps)

lemma expire_with_live:
  assumes "live (e_now env) (kmap st) k = Some e" "e_now env + to_dur n \<le> instant_max"
    and "n = unwrap_or 0 (bytes_i64 nb)"
    and "c = (case opt of [] \<Rightarrow> ENone | b # _ \<Rightarrow> parse_expire_cond (utf8_or_empty b))"
    and "cond_holds c (to_dur n) (map_option (\<lambda>at. at - e_now env) (expires_at e))"
  shows "expire_with name to_dur env (k # nb # opt) st
    = Ret (Integer 1, snd (store_expire k (e_now env + to_dur n) st))"
  using assms exists_live [OF assms(1)] ttl_live [OF assms(1)]
  by (cases opt) (simp_all add: expire_with_def Let_def check_expire_cond_def instant_add_def)

text \<open>
  C35. The expiry commands on a live key. EXPIRE with a number of seconds that is not negative answers 1 and
  sets the deadline, and only that; TTL asked at once answers the same number. TTL answers the whole
  seconds left, -1 without a deadline. PERSIST removes the deadline if there is one. RENAME moves
  the value with its deadline to the new name, which loses what it held.
\<close>

theorem keys_expiry:
  assumes "live (e_now env) (kmap st) k = Some e" "bytes_i64 nb = Some n" "0 \<le> n" "n < 2 ^ 63"
    and "e_now env + secs (nat n) \<le> instant_max"
    and "\<And>at. expires_at e = Some at \<Longrightarrow> at \<le> instant_max"
  shows "(\<exists>st'. cmd_expire env [k, nb] st = Ret (Integer 1, st')
        \<and> kmap st' = (kmap st)(k \<mapsto> e\<lparr>expires_at := Some (e_now env + secs (nat n))\<rparr>)
        \<and> cmd_ttl env [k] st' = Ret (Integer n, st'))
    \<and> cmd_ttl env [k] st = Ret (Integer (case expires_at e of None \<Rightarrow> -1 | Some at \<Rightarrow> as_secs (at - e_now env)), st)
    \<and> (\<exists>st' e'. cmd_persist env [k] st = Ret (Integer (if expires_at e = None then 0 else 1), st')
        \<and> kmap st' = (kmap st)(k \<mapsto> e') \<and> data e' = data e \<and> expires_at e' = None)
    \<and> (\<exists>st' e'. cmd_rename env [k, k'] st = Ret (ok, st') \<and> kmap st' = (kmap st)(k := None, k' \<mapsto> e')
        \<and> data e' = data e \<and> expires_at e' = expires_at e)"
proof -
  note x = exists_live [OF assms(1)] and t = ttl_live [OF assms(1)]
  have ttl: "cmd_ttl env [k] st = Ret (Integer (case expires_at e of None \<Rightarrow> -1 | Some at \<Rightarrow> as_secs (at - e_now env)), st)"
    if "live (e_now env) (kmap st) k = Some e" for st and e :: "'a entry"
    using exists_live [OF that] ttl_live [OF that] by (cases "expires_at e") (simp_all add: cmd_ttl_def ttl_with_def)
  have nn: "nat (max n 0) = nat n" using assms(3) by simp
  have ex: "cmd_expire env [k, nb] st = Ret (Integer 1, snd (store_expire k (e_now env + secs (nat n)) st))"
  proof -
    have "e_now env + secs (nat (max n 0)) \<le> instant_max" unfolding nn by (rule assms(5))
    moreover have "n = unwrap_or 0 (bytes_i64 nb)" by (simp add: assms(2))
    ultimately have "expire_with ''expire'' (\<lambda>n. secs (nat (max n 0))) env [k, nb] st
        = Ret (Integer 1, snd (store_expire k (e_now env + secs (nat (max n 0))) st))"
      by (rule expire_with_live [OF assms(1), where to_dur = "\<lambda>n. secs (nat (max n 0))" and c = ENone and opt = "[]"]) simp_all
    then show ?thesis unfolding cmd_expire_def nn .
  qed
  let ?s = "snd (store_expire k (e_now env + secs (nat n)) st)"
  have ks: "kmap ?s = (kmap st)(k \<mapsto> e\<lparr>expires_at := Some (e_now env + secs (nat n))\<rparr>)"
    using kmap_expire x by blast
  then have "live (e_now env) (kmap ?s) k = Some (e\<lparr>expires_at := Some (e_now env + secs (nat n))\<rparr>)"
    by (simp add: live_def is_expired_def)
  moreover have "as_secs (secs (nat n)) = n"
    using assms(3,4) wrap_i64_id [of n] by (simp add: as_secs_def secs_def i64_ok_def i64_min_def i64_max_def)
  ultimately have tt: "cmd_ttl env [k] ?s = Ret (Integer n, ?s)" using ttl by simp
  have get: "store_get (e_now env) k st = (Some e, st)" using store_get_Some assms(1) by blast
  have per: "\<exists>st' e'. cmd_persist env [k] st = Ret (Integer (if expires_at e = None then 0 else 1), st')
        \<and> kmap st' = (kmap st)(k \<mapsto> e') \<and> data e' = data e \<and> expires_at e' = None"
  proof (cases "expires_at e = None")
    case True
    then have "cmd_persist env [k] st = Ret (Integer (if expires_at e = None then 0 else 1), st)"
      "kmap st = (kmap st)(k \<mapsto> e)" using get x by (auto simp: cmd_persist_def)
    then show ?thesis using True by blast
  next
    case False
    obtain st' where st': "store_set (e_now env) k (data e) None st = Ret st'" using store_set_ok by blast
    have "cmd_persist env [k] st = Ret (Integer (if expires_at e = None then 0 else 1), st')"
      using False get st' by (auto simp: cmd_persist_def)
    then show ?thesis using store_set_map [OF st']
      by (intro exI [of _ st'] exI [of _ "\<lparr>data = data e, expires_at = None, last_access = e_now env, access_count = 1, lfu_counter = 1\<rparr>"]) simp
  qed
  have ren: "\<exists>st' e'. cmd_rename env [k, k'] st = Ret (ok, st') \<and> kmap st' = (kmap st)(k := None, k' \<mapsto> e')
        \<and> data e' = data e \<and> expires_at e' = expires_at e"
  proof -
    have lo: "left_over env e = map_option (\<lambda>at. at - e_now env) (expires_at e)"
      using x by (cases "expires_at e") (auto simp: left_over_def)
    have "entry_new (e_now env) (data e) (left_over env e)
        = Ret \<lparr>data = data e, expires_at = expires_at e, last_access = e_now env, access_count = 1, lfu_counter = 1\<rparr>"
      using x assms(6) lo by (cases "expires_at e") (auto simp: entry_new_def instant_add_def is_expired_def)
    moreover have "kmap (snd (store_del k st)) = (kmap st)(k := None)"
      by (simp add: store_del_def Let_def store_drop_def bump_dirty_def dict_simps)
    ultimately show ?thesis using get
      by (auto simp: cmd_rename_def store_set_def Let_def bump_dirty_def dict_simps split: prod.split)
  qed
  show ?thesis using ex ks tt ttl [OF assms(1)] per ren by blast
qed

theorem keys_expiry_witness:
  "\<exists>st'. cmd_expire env0 [[1], [55]] (store_new\<lparr>keyspace := [([1], fresh_entry (DString [2]))]\<rparr> :: nat store) = Ret (Integer 1, st')
    \<and> cmd_ttl env0 [[1]] st' = Ret (Integer 7, st')"
proof -
  let ?st = "store_new\<lparr>keyspace := [([1], fresh_entry (DString [2]))]\<rparr> :: nat store"
  have l: "live (e_now env0) (kmap ?st) [1] = Some (fresh_entry (DString [2]))" by (simp add: live_def is_expired_def)
  have n: "bytes_i64 [55] = Some 7" "0 \<le> (7 :: int)" "(7 :: int) < 2 ^ 63" by code_simp+
  have i: "e_now env0 + secs (nat 7) \<le> instant_max" by (simp add: secs_def instant_max_def)
  show ?thesis using conjunct1 [OF keys_expiry [OF l n i]] by auto
qed

text \<open>
  Defects of the commands on keys. EXPIRE with a text that is not a number answers 1 and makes the key
  expire at once. On a key without a deadline, EXPIRE GT sets one and EXPIRE LT does not, although
  no deadline counts as the latest. COPY drops the deadline. DUMP of a stream restores an empty stream.
  SCAN with COUNT 0 answers the cursor it was called with, so that an iteration never ends, and
  the largest COUNT panics.
\<close>

theorem keys_damage:
  assumes "live (e_now env) (kmap st) k = Some e" "bytes_i64 bad = None" "bytes_i64 nb = Some n" "0 \<le> n"
    and "e_now env + secs (nat n) \<le> instant_max"
    and "0 < start" "start < length ks" "length ks < 2 ^ 64"
    and "live (e_now env) (kmap st) j = None" "sd \<noteq> stream_new" "e_now env < later"
  shows "(\<exists>st'. cmd_expire env [k, bad] st = Ret (Integer 1, st') \<and> live later (kmap st') k = None)
    \<and> (expires_at e = None \<longrightarrow> (\<exists>st'. cmd_expire env [k, nb, ascii ''GT''] st = Ret (Integer 1, st')
          \<and> kmap st' k = Some (e\<lparr>expires_at := Some (e_now env + secs (nat n))\<rparr>))
        \<and> cmd_expire env [k, nb, ascii ''LT''] st = Ret (Integer 0, st))
    \<and> (\<exists>st' e'. cmd_copy env [k, j] st = Ret (Integer 1, st') \<and> kmap st' j = Some e' \<and> data e' = data e \<and> expires_at e' = None)
    \<and> (\<exists>b. dump_data sle (DStream sd) = Ret b \<and> restore_data sread (dump_type (DStream sd)) b = Some (DStream stream_new))
    \<and> key_scan_page start 0 ks = Ret (Array (Some [bull (show_nat start), Array (Some [])]))
    \<and> key_scan_page start (2 ^ 64 - 1) ks = Panic"
proof -
  note x = exists_live [OF assms(1)] and t = ttl_live [OF assms(1)]
  have get: "store_get (e_now env) k st = (Some e, st)" using store_get_Some assms(1) by blast
  have i0: "e_now env + secs (nat (max 0 0)) \<le> instant_max" using assms(5) by (simp add: secs_def)
  have "expire_with ''expire'' (\<lambda>n. secs (nat (max n 0))) env [k, bad] st
      = Ret (Integer 1, snd (store_expire k (e_now env + secs (nat (max 0 0))) st))"
    by (rule expire_with_live [where to_dur = "\<lambda>n. secs (nat (max n 0))" and n = 0 and c = ENone and opt = "[]", OF assms(1) i0])
      (simp_all add: assms(2))
  then have a: "\<exists>st'. cmd_expire env [k, bad] st = Ret (Integer 1, st') \<and> live later (kmap st') k = None"
    using kmap_expire [of st k e "e_now env + secs (nat (max 0 0))"] x assms(11)
    by (simp add: cmd_expire_def live_def is_expired_def secs_def)
  have nn: "nat (max n 0) = nat n" using assms(4) by simp
  have gt: "parse_expire_cond (utf8_or_empty (ascii ''GT'')) = GT" "parse_expire_cond (utf8_or_empty (ascii ''LT'')) = LT"
    by code_simp+
  have b: "(\<exists>st'. cmd_expire env [k, nb, ascii ''GT''] st = Ret (Integer 1, st')
          \<and> kmap st' k = Some (e\<lparr>expires_at := Some (e_now env + secs (nat n))\<rparr>))
        \<and> cmd_expire env [k, nb, ascii ''LT''] st = Ret (Integer 0, st)" if none: "expires_at e = None"
  proof
    have ii: "e_now env + secs (nat (max n 0)) \<le> instant_max" unfolding nn by (rule assms(5))
    have "expire_with ''expire'' (\<lambda>n. secs (nat (max n 0))) env [k, nb, ascii ''GT''] st
        = Ret (Integer 1, snd (store_expire k (e_now env + secs (nat (max n 0))) st))"
      by (rule expire_with_live [where to_dur = "\<lambda>n. secs (nat (max n 0))" and n = n and c = GT and opt = "[ascii ''GT'']", OF assms(1) ii])
        (simp_all only: assms(3) unwrap_or.simps list.case gt none option.map cond_holds.simps option.case)
    then show "\<exists>st'. cmd_expire env [k, nb, ascii ''GT''] st = Ret (Integer 1, st')
          \<and> kmap st' k = Some (e\<lparr>expires_at := Some (e_now env + secs (nat n))\<rparr>)"
      using kmap_expire [of st k e "e_now env + secs (nat n)"] x unfolding cmd_expire_def nn by simp
    show "cmd_expire env [k, nb, ascii ''LT''] st = Ret (Integer 0, st)"
      using x t none gt(2) by (simp add: cmd_expire_def expire_with_def check_expire_cond_def Let_def del: ascii_Cons)
  qed
  have c: "\<exists>st' e'. cmd_copy env [k, j] st = Ret (Integer 1, st') \<and> kmap st' j = Some e' \<and> data e' = data e \<and> expires_at e' = None"
  proof -
    obtain s where s: "store_exists (e_now env) j st = (False, s)"
      using assms(9) by (auto simp: store_exists_def live_def split: option.splits if_splits)
    obtain st' where st': "store_set (e_now env) j (data e) None s = Ret st'" using store_set_ok by blast
    show ?thesis using get s st' store_set_map [OF st'] by (simp add: cmd_copy_def)
  qed
  have d: "\<exists>b. dump_data sle (DStream sd) = Ret b \<and> restore_data sread (dump_type (DStream sd)) b = Some (DStream stream_new)"
    by (simp add: restore_data_def)
  have "wrap_u64 start = start" using assms(7,8) by (simp add: wrap_u64_def)
  then have f: "key_scan_page start 0 ks = Ret (Array (Some [bull (show_nat start), Array (Some [])]))"
    using assms(7) by (simp add: key_scan_page_def)
  have "start + (2 ^ 64 - 1) = start - 1 + 2 ^ 64" using assms(6) by simp
  then have "wrap_u64 (start + (2 ^ 64 - 1)) = start - 1"
    using assms(7,8) unfolding wrap_u64_def by (metis less_imp_diff_less less_trans mod_add_self2 mod_less)
  then have g: "key_scan_page start (2 ^ 64 - 1) ks = Panic" using assms(6,7) by (simp add: key_scan_page_def Let_def)
  show ?thesis by (rule conjI [OF a conjI [OF impI [OF b] conjI [OF c conjI [OF d conjI [OF f g]]]]])
qed

theorem keys_damage_witness:
  "let st = store_new\<lparr>keyspace := [([1], fresh_entry (DString [2]))]\<rparr> :: nat store in
     (\<exists>st'. cmd_expire env0 [[1], [120]] st = Ret (Integer 1, st') \<and> live 1 (kmap st') [1] = None)
   \<and> cmd_expire env0 [[1], [55], ascii ''LT''] st = Ret (Integer 0, st)"
proof -
  let ?st = "store_new\<lparr>keyspace := [([1], fresh_entry (DString [2]))]\<rparr> :: nat store"
  have l: "live (e_now env0) (kmap ?st) [1] = Some (fresh_entry (DString [2]))" by (simp add: live_def is_expired_def)
  have n: "bytes_i64 [120] = None" "bytes_i64 [55] = Some 7" "0 \<le> (7 :: int)" by code_simp+
  have i: "e_now env0 + secs (nat 7) \<le> instant_max" by (simp add: secs_def instant_max_def)
  have s: "0 < (1 :: nat)" "1 < length [[1 :: byte], [2]]" "length [[1 :: byte], [2]] < 2 ^ 64" by simp_all
  have j: "live (e_now env0) (kmap ?st) [3] = None" by (simp add: live_def)
  have d: "stream_new\<lparr>st_last_id := StreamId 1 0\<rparr> \<noteq> stream_new" by (simp add: stream_new_def)
  have t: "e_now env0 < 1" by simp
  note A = keys_damage [OF l n i s j d t]
  have a: "\<exists>st'. cmd_expire env0 [[1], [120]] ?st = Ret (Integer 1, st') \<and> live 1 (kmap st') [1] = None"
    by (rule conjunct1 [OF A])
  have b: "cmd_expire env0 [[1], [55], ascii ''LT''] ?st = Ret (Integer 0, ?st)"
    using conjunct1 [OF conjunct2 [OF A]] by simp
  show ?thesis unfolding Let_def by (rule conjI [OF a b])
qed

end
