(* ===== verification/Acl.thy ===== *)
theory Acl
  imports Cmd_Base Rust_Text
begin

text \<open>
  Access control lists: \<^verbatim>\<open>crates/commands/src/acl.rs\<close>. Users and their rules, the command categories, the
  check of a command with its arguments, the log of denials, AUTH and the ACL command. The digest
  of a password (\<^verbatim>\<open>DefaultHasher\<close>, whose algorithm the standard library leaves open) and the clock are
  arguments; so are the replies of ACL GETUSER, CAT and HELP, which only read.
\<close>

subsection \<open>State\<close>

datatype CommandPermissions = AllowAll | DenyAll | PSet "bytes list" "bytes list"

record AclUser =
  u_name :: bytes
  u_enabled :: bool
  u_passwords :: "bytes list"
  u_nopass :: bool
  u_commands :: CommandPermissions
  u_keys :: "bytes list"
  u_channels :: "bytes list"
  u_reset_keys :: bool

definition user_default :: AclUser where
  "user_default = \<lparr>u_name = ascii ''default'', u_enabled = True, u_passwords = [], u_nopass = True,
     u_commands = PSet [ascii ''@all''] [], u_keys = [[42]], u_channels = [[42]], u_reset_keys = False\<rparr>"

record AclLogEntry =
  l_timestamp :: nat
  l_reason :: bytes
  l_username :: bytes
  l_command :: bytes

record AclManager =
  users :: "(bytes, AclUser) dict"
  log :: "AclLogEntry list"

definition acl_new :: AclManager where
  "acl_new = \<lparr>users = [(ascii ''default'', user_default)], log = []\<rparr>"

text \<open>The fields of \<^verbatim>\<open>ClientCtx\<close> that permissions and transactions use.\<close>

record client =
  cl_name :: "bytes option"
  cl_authenticated :: bool
  cl_multi :: bool
  cl_queue :: "bytes list list"
  cl_watched :: "bytes list"
  cl_dirty :: bool

definition client_new :: client where
  "client_new = \<lparr>cl_name = None, cl_authenticated = False, cl_multi = False, cl_queue = [], cl_watched = [],
     cl_dirty = False\<rparr>"

subsection \<open>Categories\<close>

definition categories1 :: "(bytes, bytes list) dict" where
  "categories1 = map (\<lambda>(c, cmds). (ascii c, map ascii cmds)) [
     (''string'', [''GET'', ''SET'', ''DEL'', ''GETSET'', ''MGET'', ''MSET'', ''MSETNX'', ''INCR'',
       ''DECR'', ''INCRBY'', ''DECRBY'', ''INCRBYFLOAT'', ''APPEND'', ''STRLEN'', ''GETRANGE'',
       ''SETRANGE'', ''SETNX'', ''SETEX'', ''PSETEX'', ''GETEX'', ''GETDEL'']),
     (''list'', [''LPUSH'', ''RPUSH'', ''LPOP'', ''RPOP'', ''LRANGE'', ''LLEN'', ''LINDEX'',
       ''LSET'', ''LINSERT'', ''LREM'', ''LTRIM'', ''LMOVE'', ''BLPOP'', ''BRPOP'', ''LMPOP'',
       ''BLMPOP'', ''BLMOVE'', ''LPOS'']),
     (''hash'', [''HSET'', ''HGET'', ''HMGET'', ''HMSET'', ''HGETALL'', ''HDEL'', ''HEXISTS'',
       ''HLEN'', ''HKEYS'', ''HVALS'', ''HINCRBY'', ''HINCRBYFLOAT'', ''HSCAN'', ''HRANDFIELD'']),
     (''set'', [''SADD'', ''SMEMBERS'', ''SISMEMBER'', ''SMISMEMBER'', ''SCARD'', ''SREM'',
       ''SPOP'', ''SRANDMEMBER'', ''SMOVE'', ''SUNION'', ''SINTER'', ''SDIFF'', ''SUNIONSTORE'',
       ''SINTERSTORE'', ''SDIFFSTORE'', ''SSCAN'']),
     (''sortedset'', [''ZADD'', ''ZSCORE'', ''ZMSCORE'', ''ZRANK'', ''ZREVRANK'', ''ZRANGE'',
       ''ZREVRANGE'', ''ZRANGEBYSCORE'', ''ZREVRANGEBYSCORE'', ''ZRANGEBYLEX'', ''ZCOUNT'',
       ''ZLEXCOUNT'', ''ZREM'', ''ZREMRANGEBYRANK'', ''ZREMRANGEBYSCORE'', ''ZREMRANGEBYLEX'',
       ''ZCARD'', ''ZINCRBY'', ''ZPOPMIN'', ''ZPOPMAX'', ''ZUNIONSTORE'', ''ZINTERSTORE'',
       ''ZDIFFSTORE'', ''ZSCAN'', ''ZRANDMEMBER'', ''ZRANGESTORE'']),
     (''pubsub'', [''SUBSCRIBE'', ''UNSUBSCRIBE'', ''PSUBSCRIBE'', ''PUNSUBSCRIBE'', ''PUBLISH'',
       ''PUBSUB'', ''SSUBSCRIBE'', ''SUNSUBSCRIBE'']),
     (''transactions'', [''MULTI'', ''EXEC'', ''DISCARD'', ''WATCH'', ''UNWATCH'']),
     (''scripting'', [''EVAL'', ''EVALSHA'', ''SCRIPT'']),
     (''server'', [''PING'', ''ECHO'', ''SELECT'', ''DBSIZE'', ''FLUSHDB'', ''FLUSHALL'', ''INFO'',
       ''COMMAND'', ''CONFIG'', ''SAVE'', ''BGSAVE'', ''BGREWRITEAOF'', ''LASTSAVE'', ''TIME'',
       ''LATENCY'', ''SLOWLOG'', ''MEMORY'', ''CLIENT'', ''DEBUG'', ''OBJECT'', ''RESET'',
       ''SHUTDOWN'']),
     (''connection'', [''AUTH'', ''QUIT'', ''CLIENT'', ''SELECT''])]"

definition categories2 :: "(bytes, bytes list) dict" where
  "categories2 = map (\<lambda>(c, cmds). (ascii c, map ascii cmds)) [
     (''stream'', [''XADD'', ''XREAD'', ''XRANGE'', ''XREVRANGE'', ''XLEN'', ''XTRIM'', ''XDEL'',
       ''XINFO'', ''XGROUP'', ''XREADGROUP'', ''XACK'', ''XCLAIM'', ''XPENDING'', ''XAUTOCLAIM'']),
     (''dangerous'', [''FLUSHALL'', ''FLUSHDB'', ''SHUTDOWN'', ''DEBUG'', ''CONFIG'', ''SCRIPT'',
       ''CLUSTER'', ''REPLICAOF'', ''SLAVEOF'', ''KEYS'', ''SCAN'']),
     (''keyspace'', [''DEL'', ''EXISTS'', ''TYPE'', ''RENAME'', ''RENAMENX'', ''EXPIRE'',
       ''PEXPIRE'', ''EXPIREAT'', ''PEXPIREAT'', ''TTL'', ''PTTL'', ''PERSIST'', ''KEYS'',
       ''SCAN'', ''RANDOMKEY'', ''MOVE'', ''COPY'', ''DUMP'', ''RESTORE'', ''WAIT'', ''SORT'',
       ''UNLINK'']),
     (''read'', [''GET'', ''MGET'', ''GETSET'', ''STRLEN'', ''GETRANGE'', ''LINDEX'', ''LLEN'',
       ''LRANGE'', ''HGET'', ''HMGET'', ''HGETALL'', ''HEXISTS'', ''HLEN'', ''HKEYS'', ''HVALS'',
       ''HSCAN'', ''HRANDFIELD'', ''SISMEMBER'', ''SMEMBERS'', ''SMISMEMBER'', ''SCARD'',
       ''SRANDMEMBER'', ''SUNION'', ''SINTER'', ''SDIFF'', ''SSCAN'', ''ZRANK'', ''ZREVRANK'',
       ''ZSCORE'', ''ZMSCORE'', ''ZRANGE'', ''ZREVRANGE'', ''ZRANGEBYSCORE'', ''ZREVRANGEBYSCORE'',
       ''ZRANGEBYLEX'', ''ZCOUNT'', ''ZLEXCOUNT'', ''ZCARD'', ''ZRANDMEMBER'', ''ZSCAN'', ''XLEN'',
       ''XRANGE'', ''XREVRANGE'', ''XINFO'', ''XPENDING'', ''DUMP'', ''TYPE'', ''EXISTS'', ''TTL'',
       ''PTTL'', ''OBJECT'', ''RANDOMKEY'', ''KEYS'', ''SCAN'', ''PUBSUB''])]"

definition categories3 :: "(bytes, bytes list) dict" where
  "categories3 = map (\<lambda>(c, cmds). (ascii c, map ascii cmds)) [
     (''write'', [''SET'', ''DEL'', ''GETSET'', ''MSET'', ''MSETNX'', ''INCR'', ''DECR'',
       ''INCRBY'', ''DECRBY'', ''INCRBYFLOAT'', ''APPEND'', ''SETRANGE'', ''SETNX'', ''SETEX'',
       ''PSETEX'', ''GETEX'', ''GETDEL'', ''LPUSH'', ''RPUSH'', ''LPOP'', ''RPOP'', ''LSET'',
       ''LINSERT'', ''LREM'', ''LTRIM'', ''LMOVE'', ''BLPOP'', ''BRPOP'', ''LMPOP'', ''BLMPOP'',
       ''BLMOVE'', ''LPOS'', ''HSET'', ''HMSET'', ''HDEL'', ''HINCRBY'', ''HINCRBYFLOAT'',
       ''SADD'', ''SREM'', ''SPOP'', ''SMOVE'', ''SUNIONSTORE'', ''SINTERSTORE'', ''SDIFFSTORE'',
       ''ZADD'', ''ZREM'', ''ZINCRBY'', ''ZPOPMIN'', ''ZPOPMAX'', ''ZUNIONSTORE'', ''ZINTERSTORE'',
       ''ZDIFFSTORE'', ''ZREMRANGEBYRANK'', ''ZREMRANGEBYSCORE'', ''ZREMRANGEBYLEX'',
       ''ZRANGESTORE'', ''XADD'', ''XDEL'', ''XTRIM'', ''XGROUP'', ''XACK'', ''XCLAIM'',
       ''XAUTOCLAIM'', ''RENAME'', ''RENAMENX'', ''EXPIRE'', ''PEXPIRE'', ''EXPIREAT'',
       ''PEXPIREAT'', ''PERSIST'', ''MOVE'', ''COPY'', ''RESTORE'', ''FLUSHDB'', ''FLUSHALL'',
       ''PUBLISH'', ''SUBSCRIBE'', ''UNSUBSCRIBE'', ''PSUBSCRIBE'', ''PUNSUBSCRIBE'',
       ''SSUBSCRIBE'', ''SUNSUBSCRIBE'', ''MULTI'', ''EXEC'', ''DISCARD'', ''WATCH'', ''UNWATCH''])]"

definition categories4 :: "(bytes, bytes list) dict" where
  "categories4 = map (\<lambda>(c, cmds). (ascii c, map ascii cmds)) [
     (''fast'', [''PING'', ''ECHO'', ''SET'', ''GET'', ''DEL'', ''EXISTS'', ''TYPE'', ''RENAME'',
       ''RENAMENX'', ''INCR'', ''DECR'', ''INCRBY'', ''DECRBY'', ''APPEND'', ''STRLEN'',
       ''GETRANGE'', ''SETRANGE'', ''SETNX'', ''LPUSH'', ''RPUSH'', ''LPOP'', ''RPOP'', ''LLEN'',
       ''LINDEX'', ''LSET'', ''LINSERT'', ''LREM'', ''LTRIM'', ''HSET'', ''HGET'', ''HDEL'',
       ''HEXISTS'', ''HLEN'', ''HKEYS'', ''HVALS'', ''HINCRBY'', ''SADD'', ''SISMEMBER'', ''SREM'',
       ''SCARD'', ''SPOP'', ''SMEMBERS'', ''ZADD'', ''ZSCORE'', ''ZRANK'', ''ZREVRANK'',
       ''ZRANGE'', ''ZREVRANGE'', ''ZCOUNT'', ''ZCARD'', ''ZREM'', ''ZINCRBY'', ''SELECT'',
       ''DBSIZE'', ''FLUSHDB'', ''FLUSHALL'', ''SAVE'', ''BGSAVE'', ''LASTSAVE'', ''TIME'',
       ''QUIT'', ''AUTH'', ''INFO'', ''COMMAND'', ''CONFIG'', ''OBJECT'', ''RESET''])]"

definition categories5 :: "(bytes, bytes list) dict" where
  "categories5 = map (\<lambda>(c, cmds). (ascii c, map ascii cmds)) [
     (''slow'', [''KEYS'', ''SCAN'', ''SORT'', ''BLPOP'', ''BRPOP'', ''LMPOP'', ''BLMPOP'',
       ''BLMOVE'', ''LPOS'', ''SUNION'', ''SINTER'', ''SDIFF'', ''SUNIONSTORE'', ''SINTERSTORE'',
       ''SDIFFSTORE'', ''ZUNIONSTORE'', ''ZINTERSTORE'', ''ZDIFFSTORE'', ''ZRANGEBYSCORE'',
       ''ZREVRANGEBYSCORE'', ''ZRANGEBYLEX'', ''ZLEXCOUNT'', ''ZREMRANGEBYRANK'',
       ''ZREMRANGEBYSCORE'', ''ZREMRANGEBYLEX'', ''ZSCAN'', ''ZRANDMEMBER'', ''ZRANGESTORE'',
       ''HSCAN'', ''HRANDFIELD'', ''SSCAN'', ''XREAD'', ''XREADGROUP'', ''XADD'', ''XTRIM'',
       ''XDEL'', ''XINFO'', ''XGROUP'', ''XACK'', ''XCLAIM'', ''XPENDING'', ''XAUTOCLAIM'',
       ''PUBSUB'', ''PUBLISH'', ''SUBSCRIBE'', ''UNSUBSCRIBE'', ''PSUBSCRIBE'', ''PUNSUBSCRIBE'',
       ''SSUBSCRIBE'', ''SUNSUBSCRIBE'', ''MULTI'', ''EXEC'', ''DISCARD'', ''WATCH'', ''UNWATCH'',
       ''FLUSHALL'', ''SHUTDOWN'', ''DEBUG'', ''SCRIPT'', ''EVAL'', ''EVALSHA'', ''CLUSTER'',
       ''REPLICAOF'', ''SLAVEOF'', ''MIGRATE'', ''WAIT'', ''DUMP'', ''RESTORE'', ''COPY'',
       ''MOVE'', ''RANDOMKEY'', ''GETSET'', ''MGET'', ''MSET'', ''MSETNX'', ''INCRBYFLOAT'',
       ''HINCRBYFLOAT'', ''HGETALL'', ''HMGET'', ''HMSET'', ''HVALS'', ''ZMSCORE'',
       ''ZRANGEBYLEX'', ''ZREVRANGEBYLEX'', ''ZPOPMIN'', ''ZPOPMAX'', ''GETEX'', ''GETDEL'',
       ''PSETEX'', ''PEXPIRE'', ''PEXPIREAT'', ''EXPIREAT'', ''PERSIST'', ''TTL'', ''PTTL'',
       ''EXPIRE'', ''CLIENT'', ''LATENCY'', ''SLOWLOG'', ''MEMORY'', ''BGREWRITEAOF''])]"

definition build_categories :: "(bytes, bytes list) dict" where
  "build_categories =
     (let cats = categories1 @ categories2 @ categories3 @ categories4 @ categories5
      in cats @ [(ascii ''all'', concat (map snd cats))])"

text \<open>
  \<^verbatim>\<open>str::chars\<close>: the characters of a valid string, each as its own UTF-8 bytes.
\<close>

fun chars :: "bytes \<Rightarrow> bytes list" where
  "chars [] = []"
| "chars (b # r) =
     (let n = (if b < 0x80 then 0 else if b < 0xE0 then 1 else if b < 0xF0 then 2 else 3)
      in (b # take n r) # chars (drop n r))"

text \<open>
  \<^verbatim>\<open>str::to_lowercase\<close>, as far as a lookup among ASCII names can tell: beside the ASCII letters only
  the Kelvin sign (U+212A) has an ASCII lower case.
\<close>

definition to_lowercase :: "bytes \<Rightarrow> bytes" where
  "to_lowercase s = concat (map (\<lambda>c. if c = [0xE2, 0x84, 0xAA] then [107] else to_lower c) (chars s))"

subsection \<open>Patterns\<close>

text \<open>The loop of \<^verbatim>\<open>glob_match_impl\<close>; \<open>None\<close> is a loop that never ends.\<close>

partial_function (option) glob_loop ::
  "'c \<Rightarrow> 'c \<Rightarrow> 'c list \<Rightarrow> 'c list \<Rightarrow> nat \<Rightarrow> nat \<Rightarrow> nat option \<Rightarrow> nat \<Rightarrow> bool option" where
  "glob_loop one star pat txt i ti star_idx match_idx =
     (if ti < length txt then
        if i < length pat \<and> (pat ! i = txt ! ti \<or> pat ! i = one) then
          glob_loop one star pat txt (i + 1) (ti + 1) star_idx match_idx
        else if i < length pat \<and> pat ! i = star then
          glob_loop one star pat txt (i + 1) ti (Some i) ti
        else (case star_idx of
                Some si \<Rightarrow> glob_loop one star pat txt (si + 1) (match_idx + 1) star_idx (match_idx + 1)
              | None \<Rightarrow> Some False)
      else Some (i + length (takeWhile (\<lambda>c. c = star) (drop i pat)) = length pat))"

definition glob_match :: "bytes \<Rightarrow> bytes \<Rightarrow> bool option" where
  "glob_match pattern text = glob_loop [63] [42] (chars pattern) (chars text) 0 0 None 0"

subsection \<open>Checks\<close>

definition no_command :: "bytes \<Rightarrow> bytes" where
  "no_command cmd = ascii ''ERR NOPERM this user has no permissions to run the '' @ [39] @ cmd @ [39] @ ascii '' command''"

definition in_category :: "bytes \<Rightarrow> bytes \<Rightarrow> bool" where
  "in_category cmd cat \<longleftrightarrow>
     (case cat of
        [] \<Rightarrow> False
      | c # cat_name \<Rightarrow> c = 64 \<and>
          (case dict_get build_categories (to_lowercase cat_name) of None \<Rightarrow> False | Some cmds \<Rightarrow> cmd \<in> set cmds))"

fun command_allowed :: "CommandPermissions \<Rightarrow> bytes \<Rightarrow> bool" where
  "command_allowed AllowAll cmd = True"
| "command_allowed DenyAll cmd = False"
| "command_allowed (PSet allowed denied) cmd =
     (if cmd \<in> set denied \<or> 64 # cmd \<in> set denied then False
      else cmd \<in> set allowed \<or> list_ex (in_category cmd) allowed \<or> ascii ''@all'' \<in> set allowed)"

text \<open>Whether some pattern matches, tried in order.\<close>

fun any_glob :: "bytes list \<Rightarrow> bytes \<Rightarrow> bool option" where
  "any_glob [] key = Some False"
| "any_glob (p # ps) key =
     (case glob_match p key of None \<Rightarrow> None | Some True \<Rightarrow> Some True | Some False \<Rightarrow> any_glob ps key)"

text \<open>The first key that no pattern matches, if any.\<close>

fun check_keys :: "bytes list \<Rightarrow> bytes list \<Rightarrow> bytes option option" where
  "check_keys patterns [] = Some None"
| "check_keys patterns (key # keys) =
     (case from_utf8 key of
        None \<Rightarrow> check_keys patterns keys
      | Some s \<Rightarrow>
          (case any_glob patterns s of
             None \<Rightarrow> None
           | Some True \<Rightarrow> check_keys patterns keys
           | Some False \<Rightarrow> Some (Some
               (ascii ''ERR NOPERM this user has no permissions to access the key '' @ [39] @ s @ [39]))))"

text \<open>\<open>Some None\<close> is permission, \<open>Some (Some reason)\<close> a denial.\<close>

definition check_command_inner :: "AclUser \<Rightarrow> bytes \<Rightarrow> bytes list \<Rightarrow> bytes option option" where
  "check_command_inner user cmd keys =
     (if \<not> u_enabled user then Some (Some (ascii ''ERR User '' @ [39] @ u_name user @ [39] @ ascii '' is disabled''))
      else
        let cmd_upper = to_upper cmd in
        if \<not> command_allowed (u_commands user) cmd_upper then Some (Some (no_command cmd_upper))
        else if u_keys user = [] then
          Some (if keys = [] then None
                else Some (ascii ''ERR NOPERM this user has no permissions to access any of the keys used as arguments''))
        else if [42] \<notin> set (u_keys user) then check_keys (u_keys user) keys
        else Some None)"

definition ACL_LOG_MAX :: nat where "ACL_LOG_MAX = 128"

definition log_denial :: "nat \<Rightarrow> bytes \<Rightarrow> bytes \<Rightarrow> bytes \<Rightarrow> AclManager \<Rightarrow> AclManager" where
  "log_denial timestamp username command reason acl =
     acl\<lparr>log := (if ACL_LOG_MAX \<le> length (log acl) then tl (log acl) else log acl) @
       [\<lparr>l_timestamp = timestamp, l_reason = reason, l_username = username, l_command = command\<rparr>]\<rparr>"

definition get_log :: "nat option \<Rightarrow> AclManager \<Rightarrow> AclLogEntry list" where
  "get_log count acl = take (unwrap_or ACL_LOG_MAX count) (rev (log acl))"

definition check_command :: "nat \<Rightarrow> AclUser \<Rightarrow> bytes \<Rightarrow> bytes list \<Rightarrow> AclManager \<Rightarrow> (bytes option \<times> AclManager) option" where
  "check_command timestamp user cmd keys acl =
     (case check_command_inner user cmd keys of
        None \<Rightarrow> None
      | Some None \<Rightarrow> Some (None, acl)
      | Some (Some reason) \<Rightarrow> Some (Some reason, log_denial timestamp (u_name user) cmd reason acl))"

definition default_user :: "AclManager \<Rightarrow> AclUser" where
  "default_user acl = unwrap_or user_default (dict_get (users acl) (ascii ''default''))"

definition check_permission ::
  "nat \<Rightarrow> client \<Rightarrow> bytes \<Rightarrow> bytes list \<Rightarrow> AclManager \<Rightarrow> (bytes option \<times> AclManager) option" where
  "check_permission timestamp c cmd keys acl =
     check_command timestamp
       (unwrap_or (default_user acl) (dict_get (users acl) (unwrap_or (ascii ''default'') (cl_name c)))) cmd keys acl"

subsection \<open>Users\<close>

fun del_names :: "bytes list \<Rightarrow> AclManager \<Rightarrow> nat \<times> AclManager" where
  "del_names [] acl = (0, acl)"
| "del_names (name # names) acl =
     (let (n, acl') = del_names names (acl\<lparr>users := dict_del name (users acl)\<rparr>)
      in (if dict_get (users acl) name \<noteq> None then n + 1 else n, acl'))"

definition del_user :: "bytes list \<Rightarrow> AclManager \<Rightarrow> (bytes + nat) \<times> AclManager" where
  "del_user names acl =
     (if ascii ''default'' \<in> set names
      then (Inl (ascii ''ERR Cannot delete the '' @ [39] @ ascii ''default'' @ [39] @ ascii '' user''), acl)
      else let (n, acl') = del_names names acl in (Inr n, acl'))"

definition authenticate :: "(bytes \<Rightarrow> bytes) \<Rightarrow> bytes \<Rightarrow> bytes \<Rightarrow> AclManager \<Rightarrow> bool" where
  "authenticate digest username password acl =
     (case dict_get (users acl) username of
        None \<Rightarrow> False
      | Some user \<Rightarrow> u_enabled user \<and> (u_nopass user \<or> digest password \<in> set (u_passwords user)))"

definition user_rules :: "AclUser \<Rightarrow> bytes list" where
  "user_rules user =
     [ascii ''user '' @ u_name user, if u_enabled user then ascii ''on'' else ascii ''off''] @
     (if u_nopass user then [ascii ''nopass''] else []) @
     map (\<lambda>pw. 62 # pw) (u_passwords user) @
     (case u_commands user of
        AllowAll \<Rightarrow> [ascii ''allcommands'']
      | DenyAll \<Rightarrow> [ascii ''nocommands'']
      | PSet allowed denied \<Rightarrow> map (\<lambda>c. 43 # c) allowed @ map (\<lambda>c. 45 # c) denied) @
     (if u_keys user = [] then [ascii ''resetkeys'']
      else if u_keys user = [[42]] then [ascii ''allkeys'']
      else map (\<lambda>p. 126 # p) (u_keys user)) @
     (if u_channels user = [] then [ascii ''resetchannels'']
      else if u_channels user = [[42]] then [ascii ''allchannels'']
      else map (\<lambda>p. 38 # p) (u_channels user))"

text \<open>The rules that begin with a sign.\<close>

definition apply_signed :: "(bytes \<Rightarrow> bytes) \<Rightarrow> bytes \<Rightarrow> bytes \<Rightarrow> AclUser \<Rightarrow> bytes + AclUser" where
  "apply_signed digest verb arg user =
     (let pw = tl verb; hash = (if pw = [] then digest arg else pw); pattern = (if pw = [] then arg else pw);
          cmd = to_upper pw
      in if verb \<noteq> [] \<and> hd verb = 43 then
           Inr (user\<lparr>u_commands := (case u_commands user of
             PSet allowed denied \<Rightarrow> PSet (fst (hset_insert cmd allowed)) denied | _ \<Rightarrow> PSet [cmd] [])\<rparr>)
         else if verb \<noteq> [] \<and> hd verb = 45 then
           Inr (user\<lparr>u_commands := (case u_commands user of
             PSet allowed denied \<Rightarrow> PSet allowed (fst (hset_insert cmd denied)) | _ \<Rightarrow> PSet [] [cmd])\<rparr>)
         else if verb \<noteq> [] \<and> hd verb = 62 then
           Inr (user\<lparr>u_passwords := u_passwords user @ [hash], u_nopass := False\<rparr>)
         else if verb \<noteq> [] \<and> hd verb = 60 then
           Inr (user\<lparr>u_passwords := filter (\<lambda>p. p \<noteq> hash) (u_passwords user)\<rparr>)
         else if verb \<noteq> [] \<and> hd verb = 126 then
           Inr (user\<lparr>u_keys := u_keys user @ [pattern], u_reset_keys := False\<rparr>)
         else if verb \<noteq> [] \<and> hd verb = 38 then
           Inr (user\<lparr>u_channels := u_channels user @ [pattern]\<rparr>)
         else Inl (ascii ''ERR Unrecognized ACL rule: '' @ verb))"

definition apply_rule :: "(bytes \<Rightarrow> bytes) \<Rightarrow> bytes \<Rightarrow> AclUser \<Rightarrow> bytes + AclUser" where
  "apply_rule digest rule0 user =
     (let rule = trim rule0 in
      if rule = [] then Inr user
      else
        let first = takeWhile (\<lambda>b. b \<noteq> 32) rule; verb = to_lower first; arg = drop (length first + 1) rule in
        if verb = ascii ''on'' then Inr (user\<lparr>u_enabled := True\<rparr>)
        else if verb = ascii ''off'' then Inr (user\<lparr>u_enabled := False\<rparr>)
        else if verb = ascii ''nopass'' then Inr (user\<lparr>u_nopass := True, u_passwords := []\<rparr>)
        else if verb = ascii ''reset'' then Inr (user_default\<lparr>u_name := u_name user\<rparr>)
        else if verb = ascii ''allkeys'' then Inr (user\<lparr>u_keys := [[42]], u_reset_keys := False\<rparr>)
        else if verb = ascii ''resetkeys'' then Inr (user\<lparr>u_keys := [], u_reset_keys := True\<rparr>)
        else if verb = ascii ''allchannels'' then Inr (user\<lparr>u_channels := [[42]]\<rparr>)
        else if verb = ascii ''resetchannels'' then Inr (user\<lparr>u_channels := []\<rparr>)
        else if verb = ascii ''allcommands'' then Inr (user\<lparr>u_commands := AllowAll\<rparr>)
        else if verb = ascii ''nocommands'' then Inr (user\<lparr>u_commands := DenyAll\<rparr>)
        else apply_signed digest verb arg user)"

fun apply_rules :: "(bytes \<Rightarrow> bytes) \<Rightarrow> bytes list \<Rightarrow> AclUser \<Rightarrow> bytes + AclUser" where
  "apply_rules digest [] user = Inr user"
| "apply_rules digest (rule # rules) user =
     (case apply_rule digest rule user of Inl e \<Rightarrow> Inl e | Inr user' \<Rightarrow> apply_rules digest rules user')"

subsection \<open>Commands\<close>

definition acl_list :: "AclManager \<Rightarrow> RespValue" where
  "acl_list acl = Array (Some (map (\<lambda>(name, user). bull (join [32] (user_rules user))) (users acl)))"

definition acl_setuser :: "(bytes \<Rightarrow> bytes) \<Rightarrow> bytes list \<Rightarrow> AclManager \<Rightarrow> RespValue \<times> AclManager" where
  "acl_setuser digest args acl =
     (case args of
        [] \<Rightarrow> (wrong_args ''acl setuser'', acl)
      | a # rules \<Rightarrow>
          (case from_utf8 a of
             None \<Rightarrow> (Error (ascii ''ERR invalid username''), acl)
           | Some username \<Rightarrow>
               (case apply_rules digest (filter utf8_valid rules)
                       (unwrap_or (user_default\<lparr>u_name := username\<rparr>) (dict_get (users acl) username)) of
                  Inl e \<Rightarrow> (Error e, acl)
                | Inr user \<Rightarrow> (ok, acl\<lparr>users := dict_put (u_name user) user (users acl)\<rparr>))))"

definition acl_deluser :: "bytes list \<Rightarrow> AclManager \<Rightarrow> RespValue \<times> AclManager" where
  "acl_deluser args acl =
     (if args = [] then (wrong_args ''acl deluser'', acl)
      else case del_user (filter utf8_valid args) acl of
             (Inl e, acl') \<Rightarrow> (Error e, acl')
           | (Inr n, acl') \<Rightarrow> (Integer (wrap_i64 (int n)), acl'))"

definition acl_log_entries :: "AclLogEntry list \<Rightarrow> RespValue" where
  "acl_log_entries es = Array (Some (map (\<lambda>e. Array (Some
     [Integer (wrap_i64 (int (l_timestamp e))), bull (l_reason e), bull (l_username e), bull (l_command e)])) es))"

definition acl_log :: "bytes list \<Rightarrow> AclManager \<Rightarrow> RespValue \<times> AclManager" where
  "acl_log args acl =
     (case args of
        [] \<Rightarrow> (acl_log_entries (get_log None acl), acl)
      | a # _ \<Rightarrow>
          (case from_utf8 a of
             None \<Rightarrow> (Error (ascii ''ERR invalid argument''), acl)
           | Some s \<Rightarrow>
               (let first = to_upper s in
                if first = ascii ''RESET'' then (ok, acl\<lparr>log := []\<rparr>)
                else case parse_usize first of
                       Some n \<Rightarrow> (acl_log_entries (get_log (Some n) acl), acl)
                     | None \<Rightarrow> (Error (ascii ''ERR argument must be a positive integer or RESET''), acl))))"

definition acl_handle :: "(bytes \<Rightarrow> bytes) \<Rightarrow> (bytes \<Rightarrow> bytes list \<Rightarrow> AclManager \<Rightarrow> RespValue) \<Rightarrow> bytes list \<Rightarrow> client
    \<Rightarrow> AclManager \<Rightarrow> RespValue \<times> AclManager" where
  "acl_handle digest readers args c acl =
     (case args of
        [] \<Rightarrow> (wrong_args ''acl'', acl)
      | a # subargs \<Rightarrow>
          (case from_utf8 a of
             None \<Rightarrow> (Error (ascii ''ERR invalid subcommand''), acl)
           | Some s \<Rightarrow>
               (let subcmd = to_upper s in
                if subcmd = ascii ''WHOAMI'' then (bull (unwrap_or (ascii ''default'') (cl_name c)), acl)
                else if subcmd = ascii ''LIST'' then (acl_list acl, acl)
                else if subcmd = ascii ''USERS'' then (Array (Some (map (\<lambda>(name, user). bull name) (users acl))), acl)
                else if subcmd = ascii ''SETUSER'' then acl_setuser digest subargs acl
                else if subcmd = ascii ''DELUSER'' then acl_deluser subargs acl
                else if subcmd = ascii ''LOG'' then acl_log subargs acl
                else if subcmd \<in> {ascii ''GETUSER'', ascii ''CAT'', ascii ''HELP''} then (readers subcmd subargs acl, acl)
                else (Error (ascii ''ERR Unknown ACL subcommand '' @ [39] @ subcmd @ [39]), acl))))"

definition cmd_auth :: "(bytes \<Rightarrow> bytes) \<Rightarrow> nat \<Rightarrow> bytes list \<Rightarrow> client \<Rightarrow> AclManager \<Rightarrow> RespValue \<times> client \<times> AclManager" where
  "cmd_auth digest timestamp args c acl =
     (let invalid = Error (ascii ''ERR invalid password'');
          login = (\<lambda>username password.
            if authenticate digest username password acl
            then (ok, c\<lparr>cl_authenticated := True, cl_name := Some username\<rparr>, acl)
            else (invalid, c, log_denial timestamp username (ascii ''AUTH'') (ascii ''authentication failed'') acl))
      in case args of
           [p] \<Rightarrow> if utf8_valid p then login (ascii ''default'') p else (invalid, c, acl)
         | [u, p] \<Rightarrow>
             if \<not> utf8_valid u then (Error (ascii ''ERR invalid username''), c, acl)
             else if utf8_valid p then login u p else (invalid, c, acl)
         | _ \<Rightarrow> (wrong_args ''auth'', c, acl))"

end
