(* ===== verification/Transactions.thy ===== *)
theory Transactions
  imports String_Props Cmd_Set Cmd_Hash Cmd_List Cmd_Keys Cluster_Slots Acl
begin

text \<open>
  The dispatcher, transactions and MIGRATE (\<^verbatim>\<open>dispatch_ctx\<close> of \<^verbatim>\<open>crates/commands/src/lib.rs\<close>,
  \<^verbatim>\<open>transaction.rs\<close>, \<^verbatim>\<open>migrate.rs\<close>) and what a connection does with a frame
  (\<^verbatim>\<open>handle_connection\<close> of \<^verbatim>\<open>crates/server/src/main.rs\<close>). The commands of the modules without a model
  (server, bitmap, hyperloglog, geo, scripting, modules, sorted sets, streams, replication) are
  one function argument. A task that waits for the notification of a watched key is a transition of its own,
  and other clients may work between two commands of a transaction.
\<close>

subsection \<open>State\<close>

text \<open>A client, the channels its waiting tasks hold, and what all clients share.\<close>

record 's session =
  se_client :: client
  se_tasks :: "nat list"
  se_acl :: AclManager
  se_store :: "'s store"

type_synonym 's reply = "(RespValue \<times> 's session) outcome option"

subsection \<open>MIGRATE\<close>

fun migrate_options :: "bytes list \<Rightarrow> bool \<Rightarrow> RespValue + bool" where
  "migrate_options [] copy = Inr copy"
| "migrate_options (a # rest) copy =
     (let arg = to_upper (utf8_lossy a) in
      if arg = ascii ''COPY'' then migrate_options rest True
      else if arg = ascii ''REPLACE'' then migrate_options rest copy
      else if arg = ascii ''AUTH'' then
        (case rest of
           [] \<Rightarrow> Inl (Error (ascii ''ERR AUTH requires a password''))
         | _ # rest' \<Rightarrow> migrate_options rest' copy)
      else Inl (Error (ascii ''ERR unknown MIGRATE option '' @ [39] @ arg @ [39])))"

definition migrate_handle :: "env \<Rightarrow> bytes list \<Rightarrow> 's store \<Rightarrow> 's result" where
  "migrate_handle env args st =
     (if length args < 5 then
        Ret (Error (ascii ''ERR wrong number of arguments for '' @ [39] @ ascii ''MIGRATE'' @ [39] @ ascii '' command''), st)
      else if from_utf8 (args ! 0) = None then Ret (Error (ascii ''ERR invalid host''), st)
      else if parse_u16 (utf8_or_empty (args ! 1)) = None then Ret (Error (ascii ''ERR invalid port''), st)
      else if parse_unsigned (2 ^ 32 - 1) (utf8_or_empty (args ! 3)) = None then
        Ret (Error (ascii ''ERR invalid database number''), st)
      else if parse_unsigned u64_max (utf8_or_empty (args ! 4)) = None then Ret (Error (ascii ''ERR invalid timeout''), st)
      else case migrate_options (drop 5 args) False of
             Inl err \<Rightarrow> Ret (err, st)
           | Inr copy \<Rightarrow>
               (let (b, st1) = store_exists (e_now env) (args ! 2) st in
                if \<not> b then Ret (Error (ascii ''ERR no such key''), st1)
                else Ret (ok, if copy then st1 else snd (store_del (args ! 2) st1))))"

subsection \<open>Commands outside transactions\<close>

datatype module = MString | MKeys | MList | MHash | MSet_Commands | MPubsub | MOther

text \<open>The arms of the \<^verbatim>\<open>match\<close> that go to a module with a model.\<close>

definition module_of :: "bytes \<Rightarrow> module" where
  "module_of name =
     (if name \<in> set (map ascii [''GET'', ''SET'', ''DEL'', ''GETSET'', ''MGET'', ''MSET'', ''MSETNX'', ''INCR'', ''DECR'',
        ''INCRBY'', ''DECRBY'', ''INCRBYFLOAT'', ''APPEND'', ''STRLEN'', ''GETRANGE'', ''SETRANGE'',
        ''SETNX'', ''SETEX'', ''PSETEX'', ''GETEX'', ''GETDEL'', ''LCS'']) then MString
      else if name \<in> set (map ascii [''EXISTS'', ''TYPE'', ''RENAME'', ''RENAMENX'', ''EXPIRE'', ''PEXPIRE'', ''EXPIREAT'',
        ''PEXPIREAT'', ''TTL'', ''PTTL'', ''PERSIST'', ''KEYS'', ''SCAN'', ''RANDOMKEY'', ''MOVE'',
        ''COPY'', ''DUMP'', ''RESTORE'', ''SORT'', ''SORT_RO'', ''SUBSTR'', ''EXPIRETIME'',
        ''PEXPIRETIME'', ''UNLINK'', ''TOUCH'']) then MKeys
      else if name \<in> set (map ascii [''LPUSH'', ''RPUSH'', ''LPOP'', ''RPOP'', ''LRANGE'', ''LLEN'', ''LINDEX'', ''LSET'',
        ''LINSERT'', ''LREM'', ''LTRIM'', ''LMOVE'', ''BLPOP'', ''BRPOP'', ''LMPOP'', ''BLMPOP'', ''BLMOVE'',
        ''LPOS'', ''LPUSHX'', ''RPUSHX'', ''RPOPLPUSH'', ''BRPOPLPUSH'']) then MList
      else if name \<in> set (map ascii [''HSET'', ''HGET'', ''HMGET'', ''HMSET'', ''HGETALL'', ''HDEL'', ''HEXISTS'', ''HLEN'',
        ''HKEYS'', ''HVALS'', ''HINCRBY'', ''HINCRBYFLOAT'', ''HSCAN'', ''HRANDFIELD'', ''HSETNX'',
        ''HSTRLEN'']) then MHash
      else if name \<in> set (map ascii [''SADD'', ''SMEMBERS'', ''SISMEMBER'', ''SMISMEMBER'', ''SCARD'', ''SREM'', ''SPOP'',
        ''SRANDMEMBER'', ''SMOVE'', ''SUNION'', ''SINTER'', ''SDIFF'', ''SUNIONSTORE'', ''SINTERSTORE'',
        ''SINTERCARD'', ''SDIFFSTORE'', ''SSCAN'']) then MSet_Commands
      else if name \<in> set (map ascii [''SUBSCRIBE'', ''UNSUBSCRIBE'', ''PSUBSCRIBE'', ''PUNSUBSCRIBE'', ''PUBLISH'', ''PUBSUB'',
        ''SSUBSCRIBE'', ''SUNSUBSCRIBE'', ''SPUBLISH'']) then MPubsub
      else MOther)"

text \<open>
  What a command has from outside: clock and random numbers, the score codec, the order of incomparable
  elements, the other clients while it blocks, the password digest, the replies of the reading ACL subcommands, the
  commands without a model, and what other clients did just before it.
\<close>

record 's world =
  w_env :: env
  w_sle :: "'s \<Rightarrow> bytes"
  w_sread :: "bytes \<Rightarrow> 's"
  w_unordered :: "bytes list \<Rightarrow> bytes list"
  w_rounds :: nat
  w_others :: "nat \<Rightarrow> 's store \<Rightarrow> 's store"
  w_digest :: "bytes \<Rightarrow> bytes"
  w_readers :: "bytes \<Rightarrow> bytes list \<Rightarrow> AclManager \<Rightarrow> RespValue"
  w_rest :: "bytes list \<Rightarrow> 's session \<Rightarrow> 's reply"
  w_before :: "AclManager \<times> 's store \<Rightarrow> AclManager \<times> 's store"

definition on_store :: "'s session \<Rightarrow> 's result \<Rightarrow> 's reply" where
  "on_store s r = Some (obind r (\<lambda>(v, st). Ret (v, s\<lparr>se_store := st\<rparr>)))"

definition call_module :: "'s world \<Rightarrow> bytes list \<Rightarrow> bytes \<Rightarrow> 's session \<Rightarrow> 's reply" where
  "call_module w cmd name s =
     (let env = w_env w; args = tl cmd; st = se_store s in
      case module_of name of
        MString \<Rightarrow> on_store s (string_handle env cmd st)
      | MKeys \<Rightarrow> on_store s (keys_handle (w_sle w) (w_sread w) (w_unordered w) env cmd st)
      | MList \<Rightarrow>
          (case list_handle env (w_rounds w) (w_others w) cmd st of None \<Rightarrow> None | Some r \<Rightarrow> on_store s r)
      | MHash \<Rightarrow> on_store s (hash_handle env cmd st)
      | MSet_Commands \<Rightarrow> on_store s (set_handle env cmd st)
      | MPubsub \<Rightarrow> Some (Ret (Error (ascii ''ERR PubSub commands must be handled in pub/sub mode''), s))
      | MOther \<Rightarrow>
          if name = ascii ''QUIT'' then Some (Ret (ok, s))
          else if name = ascii ''ACL'' then
            (let (v, acl') = acl_handle (w_digest w) (w_readers w) args (se_client s) (se_acl s)
             in Some (Ret (v, s\<lparr>se_acl := acl'\<rparr>)))
          else if name = ascii ''AUTH'' then
            (let (v, c', acl') = cmd_auth (w_digest w) (e_wall env div 1000) args (se_client s) (se_acl s)
             in Some (Ret (v, s\<lparr>se_client := c', se_acl := acl'\<rparr>)))
          else if name = ascii ''CLUSTER'' then Some (Ret (stub_handle args, s))
          else if name = ascii ''MIGRATE'' then on_store s (migrate_handle env args st)
          else if name = ascii ''ASKING'' then Some (Ret (asking_handle args, s))
          else w_rest w cmd s)"

text \<open>The permission check, then the command.\<close>

definition run_command :: "'s world \<Rightarrow> bytes list \<Rightarrow> bytes \<Rightarrow> 's session \<Rightarrow> 's reply" where
  "run_command w cmd name s =
     (if name = ascii ''ACL'' \<or> name = ascii ''AUTH'' then call_module w cmd name s
      else case check_permission (e_wall (w_env w) div 1000) (se_client s) name (tl cmd) (se_acl s) of
             None \<Rightarrow> None
           | Some (Some reason, acl') \<Rightarrow> Some (Ret (Error reason, s\<lparr>se_acl := acl'\<rparr>))
           | Some (None, acl') \<Rightarrow> call_module w cmd name (s\<lparr>se_acl := acl'\<rparr>))"

subsection \<open>Transactions\<close>

definition cmd_multi :: "client \<Rightarrow> RespValue \<times> client" where
  "cmd_multi c =
     (if cl_multi c then (Error (ascii ''ERR MULTI calls can not be nested''), c)
      else (ok, c\<lparr>cl_multi := True, cl_queue := [], cl_dirty := False\<rparr>))"

text \<open>What EXEC and DISCARD leave of a client.\<close>

definition end_txn :: "client \<Rightarrow> client" where
  "end_txn c = c\<lparr>cl_multi := False, cl_queue := [], cl_watched := [], cl_dirty := False\<rparr>"

definition cmd_discard :: "client \<Rightarrow> RespValue \<times> client" where
  "cmd_discard c =
     (if \<not> cl_multi c then (Error (ascii ''ERR DISCARD without MULTI''), c) else (ok, end_txn c))"

text \<open>The commands of the queue in order, each by its position.\<close>

fun exec_queue :: "(nat \<Rightarrow> bytes list \<Rightarrow> 's session \<Rightarrow> 's reply) \<Rightarrow> nat \<Rightarrow> bytes list list \<Rightarrow> 's session
    \<Rightarrow> (RespValue list \<times> 's session) outcome option" where
  "exec_queue run i [] s = Some (Ret ([], s))"
| "exec_queue run i (cmd # q) s =
     (case run i cmd s of
        None \<Rightarrow> None
      | Some Panic \<Rightarrow> Some Panic
      | Some Deadlock \<Rightarrow> Some Deadlock
      | Some (Ret (v, s')) \<Rightarrow>
          map_option (\<lambda>r. obind r (\<lambda>(vs, s''). Ret (v # vs, s''))) (exec_queue run (i + 1) q s'))"

definition cmd_exec :: "(nat \<Rightarrow> bytes list \<Rightarrow> 's session \<Rightarrow> 's reply) \<Rightarrow> 's session \<Rightarrow> 's reply" where
  "cmd_exec run s =
     (let c = se_client s in
      if \<not> cl_multi c then Some (Ret (Error (ascii ''ERR EXEC without MULTI''), s))
      else if cl_dirty c then Some (Ret (Array None, s\<lparr>se_client := end_txn c\<rparr>))
      else map_option (\<lambda>r. obind r (\<lambda>(vs, s'). Ret (Array (Some vs), s')))
             (exec_queue run 0 (cl_queue c) (s\<lparr>se_client := end_txn c\<rparr>)))"

text \<open>WATCH registers a channel for each key, in the order of the arguments, and starts a task for each.\<close>

fun watch_keys :: "bytes list \<Rightarrow> 's store \<Rightarrow> nat list \<times> 's store" where
  "watch_keys [] st = ([], st)"
| "watch_keys (k # ks) st =
     (let (rx, st1) = store_watch k st; (rxs, st2) = watch_keys ks st1 in (rx # rxs, st2))"

definition cmd_watch :: "bytes list \<Rightarrow> 's session \<Rightarrow> RespValue \<times> 's session" where
  "cmd_watch args s =
     (let c = se_client s in
      if args = [] then (wrong_args ''watch'', s)
      else if cl_multi c then (Error (ascii ''ERR WATCH inside MULTI is not allowed''), s)
      else let (rxs, st') = watch_keys args (se_store s)
           in (ok, s\<lparr>se_client := c\<lparr>cl_watched := args, cl_dirty := False\<rparr>, se_tasks := se_tasks s @ rxs, se_store := st'\<rparr>))"

definition cmd_unwatch :: "client \<Rightarrow> RespValue \<times> client" where
  "cmd_unwatch c = (ok, c\<lparr>cl_watched := [], cl_dirty := False\<rparr>)"

definition TXN_NAMES :: "bytes list" where
  "TXN_NAMES = map ascii [''MULTI'', ''EXEC'', ''DISCARD'', ''WATCH'', ''UNWATCH'']"

text \<open>\<^verbatim>\<open>transaction::handle\<close>; a name that is no transaction command gives \<open>None\<close>.\<close>

definition txn_handle :: "(nat \<Rightarrow> bytes list \<Rightarrow> 's session \<Rightarrow> 's reply) \<Rightarrow> bytes list \<Rightarrow> bytes \<Rightarrow> 's session \<Rightarrow> 's reply option" where
  "txn_handle run cmd name s =
     (let on_client = (\<lambda>(v, c'). Some (Some (Ret (v, s\<lparr>se_client := c'\<rparr>)))) in
      if name = ascii ''MULTI'' then on_client (cmd_multi (se_client s))
      else if name = ascii ''DISCARD'' then on_client (cmd_discard (se_client s))
      else if name = ascii ''EXEC'' then Some (cmd_exec run s)
      else if name = ascii ''WATCH'' then Some (Some (Ret (cmd_watch (tl cmd) s)))
      else if name = ascii ''UNWATCH'' then on_client (cmd_unwatch (se_client s))
      else None)"

definition before :: "'s world \<Rightarrow> 's session \<Rightarrow> 's session" where
  "before w s = (let (acl, st) = w_before w (se_acl s, se_store s) in s\<lparr>se_acl := acl, se_store := st\<rparr>)"

text \<open>
  EXEC calls the dispatcher for each queued command. The first argument bounds the depth of these calls, and a path of
  positions finds what each call has from outside.
\<close>

primrec dispatch_ctx :: "nat \<Rightarrow> (nat list \<Rightarrow> 's world) \<Rightarrow> bytes list \<Rightarrow> 's session \<Rightarrow> 's reply" where
  "dispatch_ctx 0 ws cmd s = None"
| "dispatch_ctx (Suc n) ws cmd s =
     (if cmd = [] then Some (Ret (Error (ascii ''ERR empty command''), s))
      else case from_utf8 (hd cmd) of
        None \<Rightarrow> Some (Ret (Error (ascii ''ERR invalid command name''), s))
      | Some x \<Rightarrow>
          (let name = to_upper x; c = se_client s in
           if name \<in> set TXN_NAMES then
             (case txn_handle (\<lambda>i cmd' s'. dispatch_ctx n (\<lambda>p. ws (i # p)) cmd' (before (ws [i]) s')) cmd name s of
                Some r \<Rightarrow> r
              | None \<Rightarrow> Some (Ret (Error (ascii ''ERR internal error''), s)))
           else if cl_multi c then
             Some (Ret (SimpleString (ascii ''QUEUED''), s\<lparr>se_client := c\<lparr>cl_queue := cl_queue c @ [cmd]\<rparr>\<rparr>))
           else run_command (ws []) cmd name s))"

subsection \<open>A session among other clients\<close>

text \<open>
  The client sends a command; another client does, on the shared state; a waiting task whose channel has a message
  marks the client dirty, at some later time. \<open>W\<close> says what the commands may have from outside.
\<close>

datatype event = Send "bytes list" RespValue | Foreign "bytes list" RespValue | Wake nat

inductive session_step :: "((nat list \<Rightarrow> 's world) \<Rightarrow> bool) \<Rightarrow> 's session \<Rightarrow> event \<Rightarrow> 's session \<Rightarrow> bool" for W where
  send: "W ws \<Longrightarrow> dispatch_ctx n ws cmd s = Some (Ret (v, s')) \<Longrightarrow> session_step W s (Send cmd v) s'"
| foreign: "W ws \<Longrightarrow> dispatch_ctx n ws cmd (s\<lparr>se_client := c2, se_tasks := ts\<rparr>) = Some (Ret (v, s2)) \<Longrightarrow>
    session_step W s (Foreign cmd v) (s\<lparr>se_acl := se_acl s2, se_store := se_store s2\<rparr>)"
| wake: "rx \<in> set (se_tasks s) \<Longrightarrow> rx \<in> set (sent (se_store s)) \<Longrightarrow>
    session_step W s (Wake rx) (s\<lparr>se_client := (se_client s)\<lparr>cl_dirty := True\<rparr>, se_tasks := remove1 rx (se_tasks s)\<rparr>)"

inductive session_run :: "((nat list \<Rightarrow> 's world) \<Rightarrow> bool) \<Rightarrow> 's session \<Rightarrow> event list \<Rightarrow> 's session \<Rightarrow> bool" for W where
  stop: "session_run W s [] s"
| more: "session_step W s ev s' \<Longrightarrow> session_run W s' evs s'' \<Longrightarrow> session_run W s (ev # evs) s''"

inductive_cases session_sendE: "session_step W s (Send cmd v) s'"
inductive_cases session_foreignE: "session_step W s (Foreign cmd v) s'"
inductive_cases session_wakeE: "session_step W s (Wake rx) s'"
inductive_simps session_run_Nil [simp]: "session_run W s [] s'"
inductive_simps session_run_Cons: "session_run W s (ev # evs) s'"

subsection \<open>Frames of a connection\<close>

fun frame_item :: "RespValue \<Rightarrow> bytes" where
  "frame_item (BulkString (Some b)) = b"
| "frame_item (SimpleString s) = s"
| "frame_item (Integer i) = show_int i"
| "frame_item _ = []"

definition is_write_command :: "bytes list \<Rightarrow> bool" where
  "is_write_command cmd \<longleftrightarrow> cmd \<noteq> [] \<and> utf8_valid (hd cmd) \<and> to_upper (hd cmd) \<in> set (map ascii
     [''SET'', ''SETEX'', ''PSETEX'', ''SETNX'', ''GETSET'', ''APPEND'', ''INCR'', ''DECR'', ''INCRBY'', ''DECRBY'',
      ''INCRBYFLOAT'', ''DEL'', ''UNLINK'', ''EXPIRE'', ''PEXPIRE'', ''EXPIREAT'', ''PEXPIREAT'', ''PERSIST'',
      ''RPUSH'', ''LPUSH'', ''RPOP'', ''LPOP'', ''LSET'', ''LINSERT'', ''LREM'', ''LTRIM'', ''HSET'', ''HDEL'',
      ''HINCRBY'', ''HINCRBYFLOAT'', ''HMSET'', ''SADD'', ''SREM'', ''SPOP'', ''SMOVE'', ''ZADD'', ''ZREM'',
      ''ZINCRBY'', ''ZPOPMIN'', ''ZPOPMAX'', ''RENAME'', ''RENAMENX'', ''FLUSHDB'', ''FLUSHALL'', ''XADD'',
      ''XDEL'', ''XTRIM'', ''XACK'', ''MULTI'', ''EXEC'', ''DISCARD''])"

text \<open>
  One frame of the loop: the reply, the new state, and the commands handed to the append-only file and to the
  replicas. \<open>read_only\<close> says that the server is a read-only replica.
\<close>

definition handle_frame :: "bool \<Rightarrow> nat \<Rightarrow> (nat list \<Rightarrow> 's world) \<Rightarrow> RespValue \<Rightarrow> 's session
    \<Rightarrow> (RespValue \<times> 's session \<times> bytes list list) outcome option" where
  "handle_frame read_only n ws frame s =
     (case frame of
        Array (Some arr) \<Rightarrow>
          (let cmd_bytes = map frame_item arr in
           if read_only \<and> is_write_command cmd_bytes then
             Some (Ret (Error (ascii ''ERR READONLY You can'' @ [39] @ ascii ''t write against a read only replica.''), s, []))
           else map_option (\<lambda>r. obind r (\<lambda>(response, s'). Ret (response, s',
                  if is_write_command cmd_bytes then (case response of Error e \<Rightarrow> [] | _ \<Rightarrow> [cmd_bytes]) else [])))
                (dispatch_ctx n ws cmd_bytes s))
      | _ \<Rightarrow> Some (Ret (Error (ascii ''ERR expected array command''), s, [])))"

fun repl_args :: "bytes list \<Rightarrow> bytes" where
  "repl_args [] = []"
| "repl_args (arg # args) = [36] @ show_nat (length arg) @ [13, 10] @ arg @ [13, 10] @ repl_args args"

definition encode_repl_command :: "bytes list \<Rightarrow> bytes" where
  "encode_repl_command cmd = [42] @ show_nat (length cmd) @ [13, 10] @ repl_args cmd"

end
