(* ===== verification/Acl_Props.thy ===== *)
theory Acl_Props
  imports Acl
begin

text \<open>
  Properties of the access control lists: the loop that matches a pattern returns and agrees with the meaning
  of patterns, when a command is permitted, what every command keeps of the user table and the log, and what the
  rules of a user do not do.
\<close>

subsection \<open>Patterns\<close>

text \<open>What a pattern means: one position at a time, a star stands for any number of characters.\<close>

fun globs :: "'c \<Rightarrow> 'c \<Rightarrow> 'c list \<Rightarrow> 'c list \<Rightarrow> bool" where
  "globs one star [] t = (t = [])"
| "globs one star (c # p) [] = (c = star \<and> globs one star p [])"
| "globs one star (c # p) (x # t) =
     (if c = star then globs one star p (x # t) \<or> globs one star (c # p) t
      else (c = one \<or> c = x) \<and> globs one star p t)"

lemma globs_star: "globs one star (star # p) t \<longleftrightarrow> (\<exists>k \<le> length t. globs one star p (drop k t))"
proof (induction t)
  case (Cons x t)
  have "(\<exists>k \<le> length (x # t). globs one star p (drop k (x # t)))
    \<longleftrightarrow> globs one star p (x # t) \<or> (\<exists>k \<le> length t. globs one star p (drop k t))"
    by (metis (no_types, lifting) Suc_le_mono drop0 drop_Suc_Cons le0 length_Cons not0_implies_Suc)
  then show ?case using Cons.IH by simp
qed simp

lemma globs_star_drop:
  assumes "globs one star (star # p) (drop m t)" "n \<le> m"
  shows "globs one star (star # p) (drop n t)"
proof -
  obtain k where k: "k \<le> length (drop m t)" "globs one star p (drop k (drop m t))"
    using assms(1) unfolding globs_star by blast
  show ?thesis
  proof (cases "m \<le> length t")
    case True
    then have "drop (k + (m - n)) (drop n t) = drop k (drop m t)" using assms(2) by (simp add: add.commute)
    then show ?thesis unfolding globs_star using k True assms(2) by (intro exI [of _ "k + (m - n)"]) auto
  next
    case False
    then have "globs one star p []" using k by simp
    then show ?thesis unfolding globs_star by (intro exI [of _ "length (drop n t)"]) simp
  qed
qed

lemma globs_Nil_right: "globs one star p [] \<longleftrightarrow> takeWhile (\<lambda>c. c = star) p = p"
  by (induction p) auto

lemma globs_plain:
  "star \<notin> set q \<Longrightarrow> globs one star (q @ p) t \<Longrightarrow> length q \<le> length t \<and> globs one star p (drop (length q) t)"
proof (induction q arbitrary: t)
  case (Cons c q)
  then obtain x t' where "t = x # t'" by (cases t) auto
  then show ?case using Cons by (auto split: if_splits)
qed simp

text \<open>
  A state of the loop: the part of the pattern after the last star has been matched, character by character,
  with the text from \<^verbatim>\<open>match_idx\<close> on.
\<close>

definition glob_inv :: "'c list \<Rightarrow> 'c list \<Rightarrow> nat \<Rightarrow> nat \<Rightarrow> nat option \<Rightarrow> nat \<Rightarrow> bool" where
  "glob_inv pat txt i ti s m \<longleftrightarrow> i \<le> length pat \<and> ti \<le> length txt
     \<and> (case s of None \<Rightarrow> m = 0 | Some si \<Rightarrow> si < i \<and> m \<le> ti \<and> i - (si + 1) = ti - m)"

definition glob_goal :: "'c \<Rightarrow> 'c \<Rightarrow> 'c list \<Rightarrow> 'c list \<Rightarrow> nat \<Rightarrow> nat \<Rightarrow> nat option \<Rightarrow> nat \<Rightarrow> bool" where
  "glob_goal one star pat txt i ti s m \<longleftrightarrow> globs one star (drop i pat) (drop ti txt)
     \<or> (\<exists>si k. s = Some si \<and> m < k \<and> k \<le> length txt \<and> globs one star (drop (si + 1) pat) (drop k txt))"

definition glob_seg :: "'c \<Rightarrow> 'c list \<Rightarrow> nat \<Rightarrow> nat option \<Rightarrow> bool" where
  "glob_seg star pat i s \<longleftrightarrow> (\<forall>si. s = Some si \<longrightarrow> star \<notin> set (take (i - (si + 1)) (drop (si + 1) pat)))"

definition glob_rank :: "('c list \<times> 'c list \<times> nat \<times> nat option \<times> nat) \<Rightarrow> nat \<times> nat \<times> nat" where
  "glob_rank = (\<lambda>(pat, txt, ti, s, m).
     (length pat - (case s of None \<Rightarrow> 0 | Some si \<Rightarrow> si + 1), length txt - m, length txt - ti))"

lemma glob_split:
  assumes "si < i" "i \<le> length pat"
  shows "drop (si + 1) pat = take (i - (si + 1)) (drop (si + 1) pat) @ drop i pat"
proof -
  have "drop (i - (si + 1)) (drop (si + 1) pat) = drop i pat" using assms by simp
  then show ?thesis by (metis append_take_drop_id)
qed

lemma glob_retry:
  assumes "glob_inv pat txt i ti s m" "glob_seg star pat i s" "s = Some si"
    "m < k" "k \<le> length txt" "globs one star (drop (si + 1) pat) (drop k txt)"
  shows "k + (ti - m) \<le> length txt \<and> globs one star (drop i pat) (drop (k + (ti - m)) txt)"
proof -
  let ?q = "take (i - (si + 1)) (drop (si + 1) pat)"
  have inv: "si < i" "i \<le> length pat" "i - (si + 1) = ti - m" "m \<le> ti"
    using assms(1,3) by (auto simp: glob_inv_def)
  then have len: "length ?q = ti - m" by simp
  have "star \<notin> set ?q" using assms(2,3) by (simp add: glob_seg_def)
  moreover have "globs one star (?q @ drop i pat) (drop k txt)" using assms(6) glob_split [OF inv(1,2)] by simp
  ultimately have "length ?q \<le> length (drop k txt) \<and> globs one star (drop i pat) (drop (length ?q) (drop k txt))"
    by (rule globs_plain)
  then show ?thesis using len assms(5) by (auto simp: add.commute)
qed

lemma globs_at:
  assumes "i < length pat" "ti < length txt"
  shows "globs one star (drop i pat) (drop ti txt) \<longleftrightarrow>
    (if pat ! i = star then globs one star (drop (i + 1) pat) (drop ti txt) \<or> globs one star (drop i pat) (drop (ti + 1) txt)
     else (pat ! i = one \<or> pat ! i = txt ! ti) \<and> globs one star (drop (i + 1) pat) (drop (ti + 1) txt))"
  using assms Cons_nth_drop_Suc [of i pat, symmetric] Cons_nth_drop_Suc [of ti "txt", symmetric] by simp

lemma glob_goal_match:
  assumes "i < length pat" "ti < length txt" "pat ! i = txt ! ti \<or> pat ! i = one"
  shows "glob_goal one star pat txt (i + 1) (ti + 1) s m \<Longrightarrow> glob_goal one star pat txt i ti s m"
    and "pat ! i \<noteq> star \<Longrightarrow> glob_goal one star pat txt i ti s m \<Longrightarrow> glob_goal one star pat txt (i + 1) (ti + 1) s m"
proof -
  have "globs one star (drop (i + 1) pat) (drop (ti + 1) txt) \<Longrightarrow> globs one star (drop i pat) (drop (ti + 1) txt)"
    if "pat ! i = star"
  proof -
    assume "globs one star (drop (i + 1) pat) (drop (ti + 1) txt)"
    then have "globs one star (star # drop (i + 1) pat) (drop (ti + 1) txt)"
      unfolding globs_star by (intro exI [of _ 0]) simp
    then show ?thesis using Cons_nth_drop_Suc [OF assms(1)] that by simp
  qed
  then show "glob_goal one star pat txt (i + 1) (ti + 1) s m \<Longrightarrow> glob_goal one star pat txt i ti s m"
    and "pat ! i \<noteq> star \<Longrightarrow> glob_goal one star pat txt i ti s m \<Longrightarrow> glob_goal one star pat txt (i + 1) (ti + 1) s m"
    unfolding glob_goal_def using assms(3) by (auto simp: globs_at [OF assms(1,2)])
qed

lemma glob_goal_star:
  assumes "i < length pat" "ti \<le> length txt" "pat ! i = star"
  shows "glob_goal one star pat txt (i + 1) ti (Some i) ti \<longleftrightarrow> globs one star (drop i pat) (drop ti txt)"
proof -
  have "globs one star (drop i pat) (drop ti txt) \<longleftrightarrow> (\<exists>k \<le> length txt - ti. globs one star (drop (i + 1) pat) (drop (k + ti) txt))"
    using globs_star [of one star "drop (i + 1) pat" "drop ti txt"] Cons_nth_drop_Suc [OF assms(1)] assms(3) by simp
  also have "\<dots> \<longleftrightarrow> (\<exists>k. ti \<le> k \<and> k \<le> length txt \<and> globs one star (drop (i + 1) pat) (drop k txt))"
    (is "?l \<longleftrightarrow> ?r")
  proof
    assume ?l
    then obtain k where "k \<le> length txt - ti" "globs one star (drop (i + 1) pat) (drop (k + ti) txt)" by blast
    then show ?r using assms(2) by (intro exI [of _ "k + ti"]) simp
  next
    assume ?r
    then obtain k where "ti \<le> k" "k \<le> length txt" "globs one star (drop (i + 1) pat) (drop k txt)" by blast
    then show ?l by (intro exI [of _ "k - ti"]) simp
  qed
  finally show ?thesis unfolding glob_goal_def using assms(2) by (auto simp: le_less)
qed

lemma glob_goal_star_back:
  assumes "glob_inv pat txt i ti s m" "glob_seg star pat i s" "i < length pat" "pat ! i = star"
    and "glob_goal one star pat txt i ti s m"
  shows "globs one star (drop i pat) (drop ti txt)"
  using assms(5) unfolding glob_goal_def
proof (elim disjE exE conjE)
  fix si k
  assume k: "s = Some si" "m < k" "k \<le> length txt" "globs one star (drop (si + 1) pat) (drop k txt)"
  have "globs one star (drop i pat) (drop (k + (ti - m)) txt)" using glob_retry [OF assms(1,2) k] by simp
  then have "globs one star (star # drop (i + 1) pat) (drop (k + (ti - m)) txt)"
    using Cons_nth_drop_Suc [OF assms(3)] assms(4) by simp
  moreover have "ti \<le> k + (ti - m)" using k(2) by simp
  ultimately have "globs one star (star # drop (i + 1) pat) (drop ti txt)" by (rule globs_star_drop)
  then show ?thesis using Cons_nth_drop_Suc [OF assms(3)] assms(4) by simp
qed simp

lemma glob_goal_retry:
  assumes "ti < length txt" "m \<le> ti" "\<not> (i < length pat \<and> (pat ! i = txt ! ti \<or> pat ! i = one))"
    "\<not> (i < length pat \<and> pat ! i = star)"
  shows "glob_goal one star pat txt i ti (Some si) m \<longleftrightarrow> glob_goal one star pat txt (si + 1) (m + 1) (Some si) (m + 1)"
    and "\<not> glob_goal one star pat txt i ti None m"
proof -
  have no: "\<not> globs one star (drop i pat) (drop ti txt)"
  proof (cases "i < length pat")
    case True
    then show ?thesis using assms(3,4) by (simp add: globs_at [OF True assms(1)])
  qed (use assms(1) in simp)
  have ex: "(\<exists>k. m < k \<and> k \<le> length txt \<and> P k) \<longleftrightarrow> P (m + 1) \<or> (\<exists>k. m + 1 < k \<and> k \<le> length txt \<and> P k)" (is "?l \<longleftrightarrow> ?r")
    for P
  proof
    assume ?l
    then obtain k where "m < k" "k \<le> length txt" "P k" by blast
    then show ?r by (cases "k = m + 1") auto
  next
    assume ?r
    then show ?l
    proof
      assume "P (m + 1)"
      then show ?l using assms(1,2) by (intro exI [of _ "m + 1"]) simp
    next
      assume "\<exists>k. m + 1 < k \<and> k \<le> length txt \<and> P k"
      then obtain k where "m + 1 < k" "k \<le> length txt" "P k" by blast
      then show ?l by (intro exI [of _ k]) simp
    qed
  qed
  show "glob_goal one star pat txt i ti (Some si) m \<longleftrightarrow> glob_goal one star pat txt (si + 1) (m + 1) (Some si) (m + 1)"
    unfolding glob_goal_def using no ex [of "\<lambda>k. globs one star (drop (si + 1) pat) (drop k txt)"] by simp
  show "\<not> glob_goal one star pat txt i ti None m" unfolding glob_goal_def using no by simp
qed

lemma glob_end:
  "(i + length (takeWhile (\<lambda>c. c = star) (drop i pat)) = length pat) \<longleftrightarrow> globs one star (drop i pat) []" if "i \<le> length pat"
proof -
  have "takeWhile P xs = xs \<longleftrightarrow> length (takeWhile P xs) = length xs" for P :: "'a \<Rightarrow> bool" and xs
    by (metis takeWhile_eq_take take_all order_refl)
  then show ?thesis unfolding globs_Nil_right using that by auto
qed

lemma glob_goal_end:
  assumes "glob_inv pat txt i (length txt) s m" "glob_seg star pat i s" "glob_goal one star pat txt i (length txt) s m"
  shows "globs one star (drop i pat) []"
  using assms(3) unfolding glob_goal_def
proof (elim disjE exE conjE)
  fix si k
  assume k: "s = Some si" "m < k" "k \<le> length txt" "globs one star (drop (si + 1) pat) (drop k txt)"
  then show ?thesis using glob_retry [OF assms(1,2) k] by simp
qed simp

lemma glob_seg_step: "glob_seg star pat i s \<Longrightarrow> glob_inv pat txt i ti s m \<Longrightarrow> i < length pat \<Longrightarrow> pat ! i \<noteq> star \<Longrightarrow> glob_seg star pat (i + 1) s"
proof (cases s)
  case (Some si)
  assume a: "glob_seg star pat i s" "glob_inv pat txt i ti s m" "i < length pat" "pat ! i \<noteq> star"
  then have "si < i" using Some by (simp add: glob_inv_def)
  then have "i + 1 - (si + 1) = Suc (i - (si + 1))" "drop (si + 1) pat ! (i - (si + 1)) = pat ! i"
    "i - (si + 1) < length (drop (si + 1) pat)" using a(3) by auto
  then have "take (i + 1 - (si + 1)) (drop (si + 1) pat) = take (i - (si + 1)) (drop (si + 1) pat) @ [pat ! i]"
    by (metis take_Suc_conv_app_nth)
  then show ?thesis using a Some by (simp add: glob_seg_def)
qed (simp add: glob_seg_def)

lemma glob_loop_ok:
  assumes "glob_inv pat txt i ti s m"
  shows "\<exists>b. glob_loop one star pat txt i ti s m = Some b
    \<and> (b \<longrightarrow> glob_goal one star pat txt i ti s m)
    \<and> (star \<notin> set txt \<longrightarrow> one \<noteq> star \<longrightarrow> glob_seg star pat i s \<longrightarrow> glob_goal one star pat txt i ti s m \<longrightarrow> b)"
  using assms
proof (induction "(pat, txt, ti, s, m)" arbitrary: i ti s m
    rule: wf_induct_rule [OF wf_inv_image [OF wf_lex_prod [OF wf_less_than wf_lex_prod [OF wf_less_than wf_less_than]], of glob_rank]])
  case (1 ti s m i)
  have bounds: "i \<le> length pat" "ti \<le> length txt" using "1.prems" by (auto simp: glob_inv_def)
  consider (fin) "ti = length txt"
    | (match) "ti < length txt" "i < length pat" "pat ! i = txt ! ti \<or> pat ! i = one"
    | (star) "ti < length txt" "i < length pat" "\<not> (pat ! i = txt ! ti \<or> pat ! i = one)" "pat ! i = star"
    | (retry) "ti < length txt" "\<not> (i < length pat \<and> (pat ! i = txt ! ti \<or> pat ! i = one))" "\<not> (i < length pat \<and> pat ! i = star)"
    using bounds by linarith
  then show ?case
  proof cases
    case fin
    have "glob_loop one star pat txt i ti s m = Some (globs one star (drop i pat) [])"
      by (subst glob_loop.simps) (use fin glob_end [OF bounds(1), of star one] in simp)
    moreover have "globs one star (drop i pat) [] \<Longrightarrow> glob_goal one star pat txt i ti s m"
      using fin by (simp add: glob_goal_def)
    ultimately show ?thesis using glob_goal_end [of pat "txt" i s m star one] "1.prems" fin by blast
  next
    case match
    have inv: "glob_inv pat txt (i + 1) (ti + 1) s m"
      using "1.prems" match by (auto simp: glob_inv_def split: option.splits)
    have "((pat, txt, ti + 1, s, m), (pat, txt, ti, s, m)) \<in> inv_image (less_than <*lex*> less_than <*lex*> less_than) glob_rank"
      using match by (simp add: glob_rank_def)
    from "1.hyps" [OF this inv] obtain b where b: "glob_loop one star pat txt (i + 1) (ti + 1) s m = Some b"
      "b \<longrightarrow> glob_goal one star pat txt (i + 1) (ti + 1) s m"
      "star \<notin> set txt \<longrightarrow> one \<noteq> star \<longrightarrow> glob_seg star pat (i + 1) s \<longrightarrow> glob_goal one star pat txt (i + 1) (ti + 1) s m \<longrightarrow> b"
      by blast
    have ns: "star \<notin> set txt \<Longrightarrow> one \<noteq> star \<Longrightarrow> pat ! i \<noteq> star" using match by (metis nth_mem)
    have "glob_loop one star pat txt i ti s m = Some b"
      by (subst glob_loop.simps) (use match b(1) in simp)
    then show ?thesis
      using b(2,3) glob_goal_match [OF match(2,1,3), of star s m] ns glob_seg_step [OF _ "1.prems" match(2), of star] by blast
  next
    case star
    have inv: "glob_inv pat txt (i + 1) ti (Some i) ti" using star by (auto simp: glob_inv_def)
    have "((pat, txt, ti, Some i, ti), (pat, txt, ti, s, m)) \<in> inv_image (less_than <*lex*> less_than <*lex*> less_than) glob_rank"
      using star "1.prems" by (auto simp: glob_rank_def glob_inv_def split: option.splits)
    from "1.hyps" [OF this inv] obtain b where b: "glob_loop one star pat txt (i + 1) ti (Some i) ti = Some b"
      "b \<longrightarrow> glob_goal one star pat txt (i + 1) ti (Some i) ti"
      "star \<notin> set txt \<longrightarrow> one \<noteq> star \<longrightarrow> glob_seg star pat (i + 1) (Some i) \<longrightarrow> glob_goal one star pat txt (i + 1) ti (Some i) ti \<longrightarrow> b"
      by blast
    have seg: "glob_seg star pat (i + 1) (Some i)" by (simp add: glob_seg_def)
    have "glob_loop one star pat txt i ti s m = Some b"
      by (subst glob_loop.simps) (use star b(1) in simp)
    moreover have "globs one star (drop i pat) (drop ti txt) \<Longrightarrow> glob_goal one star pat txt i ti s m"
      by (simp add: glob_goal_def)
    ultimately show ?thesis using b(2,3) seg glob_goal_star [OF star(2) bounds(2) star(4), of one]
        glob_goal_star_back [OF "1.prems" _ star(2,4), of one] by blast
  next
    case retry
    show ?thesis
    proof (cases s)
      case None
      then have "glob_loop one star pat txt i ti s m = Some False"
        by (subst glob_loop.simps) (use retry in auto)
      then show ?thesis using glob_goal_retry(2) [OF retry(1) _ retry(2,3), of 0] "1.prems" None by (auto simp: glob_inv_def)
    next
      case (Some si)
      have m: "m \<le> ti" "si < i" using "1.prems" Some by (auto simp: glob_inv_def)
      have inv: "glob_inv pat txt (si + 1) (m + 1) s (m + 1)"
        using "1.prems" Some m retry(1) bounds by (auto simp: glob_inv_def)
      have "((pat, txt, m + 1, s, m + 1), (pat, txt, ti, s, m)) \<in> inv_image (less_than <*lex*> less_than <*lex*> less_than) glob_rank"
        using m retry(1) by (auto simp: glob_rank_def)
      from "1.hyps" [OF this inv] obtain b where b: "glob_loop one star pat txt (si + 1) (m + 1) s (m + 1) = Some b"
        "b \<longrightarrow> glob_goal one star pat txt (si + 1) (m + 1) s (m + 1)"
        "star \<notin> set txt \<longrightarrow> one \<noteq> star \<longrightarrow> glob_seg star pat (si + 1) s \<longrightarrow> glob_goal one star pat txt (si + 1) (m + 1) s (m + 1) \<longrightarrow> b"
        by blast
      have seg: "glob_seg star pat (si + 1) s" using Some by (simp add: glob_seg_def)
      have "glob_loop one star pat txt i ti s m = Some b" 
        by (subst glob_loop.simps) (use retry b(1) Some in auto)
      then show ?thesis using b(2,3) seg glob_goal_retry(1) [OF retry(1) m(1) retry(2,3), of si] Some by auto
    qed
  qed
qed

lemma glob_loop_globs:
  assumes "one \<noteq> star"
  obtains b where "glob_loop one star pat txt 0 0 None 0 = Some b" "b \<Longrightarrow> globs one star pat txt"
    "star \<notin> set txt \<Longrightarrow> globs one star pat txt \<Longrightarrow> b"
proof -
  have "glob_inv pat txt 0 0 None 0" "glob_seg star pat 0 None"
    "glob_goal one star pat txt 0 0 None 0 \<longleftrightarrow> globs one star pat txt"
    by (auto simp: glob_inv_def glob_seg_def glob_goal_def)
  then show ?thesis using glob_loop_ok [of pat "txt" 0 0 None 0 one star] assms that by blast
qed

lemma glob_match_globs:
  obtains b where "glob_match p t = Some b" "b \<Longrightarrow> globs [63] [42] (chars p) (chars t)"
    "[42] \<notin> set (chars t) \<Longrightarrow> globs [63] [42] (chars p) (chars t) \<Longrightarrow> b"
  unfolding glob_match_def
  by (rule glob_loop_globs [of "[63] :: bytes" "[42]" "chars p" "chars t"]) simp_all

subsection \<open>Permission\<close>

definition covers :: "bytes list \<Rightarrow> bytes \<Rightarrow> bool" where
  "covers ps key \<longleftrightarrow> (\<exists>p \<in> set ps. globs [63] [42] (chars p) (chars key))"

text \<open>Keys whose names have no star, for which the loop is exact.\<close>

definition starless :: "bytes list \<Rightarrow> bool" where
  "starless keys \<longleftrightarrow> (\<forall>k \<in> set keys. utf8_valid k \<longrightarrow> [42] \<notin> set (chars k))"

definition may_run :: "AclUser \<Rightarrow> bytes \<Rightarrow> bytes list \<Rightarrow> bool" where
  "may_run user cmd keys \<longleftrightarrow> u_enabled user \<and> command_allowed (u_commands user) (to_upper cmd)
     \<and> (if u_keys user = [] then keys = []
        else [42] \<in> set (u_keys user) \<or> (\<forall>k \<in> set keys. utf8_valid k \<longrightarrow> covers (u_keys user) k))"

lemma any_glob_covers:
  obtains b where "any_glob ps key = Some b" "b \<Longrightarrow> covers ps key" "[42] \<notin> set (chars key) \<Longrightarrow> covers ps key \<Longrightarrow> b"
proof -
  have "\<exists>b. any_glob ps key = Some b \<and> (b \<longrightarrow> covers ps key) \<and> ([42] \<notin> set (chars key) \<longrightarrow> covers ps key \<longrightarrow> b)"
  proof (induction ps)
    case (Cons p ps)
    obtain b where b: "glob_match p key = Some b" "b \<Longrightarrow> globs [63] [42] (chars p) (chars key)"
      "[42] \<notin> set (chars key) \<Longrightarrow> globs [63] [42] (chars p) (chars key) \<Longrightarrow> b"
      by (rule glob_match_globs [of p key]) (rule that)
    have cov: "covers (p # ps) key \<longleftrightarrow> globs [63] [42] (chars p) (chars key) \<or> covers ps key"
      by (simp add: covers_def)
    show ?case
    proof (cases b)
      case True
      then show ?thesis using b cov by auto
    next
      case False
      then show ?thesis using b cov Cons.IH by auto
    qed
  qed (simp add: covers_def ex_bool_eq)
  then show ?thesis using that by blast
qed

lemma check_keys_covers:
  obtains r where "check_keys ps keys = Some r"
    "r = None \<Longrightarrow> \<forall>k \<in> set keys. utf8_valid k \<longrightarrow> covers ps k"
    "starless keys \<Longrightarrow> \<forall>k \<in> set keys. utf8_valid k \<longrightarrow> covers ps k \<Longrightarrow> r = None"
proof -
  have "\<exists>r. check_keys ps keys = Some r \<and> (r = None \<longrightarrow> (\<forall>k \<in> set keys. utf8_valid k \<longrightarrow> covers ps k))
    \<and> (starless keys \<longrightarrow> (\<forall>k \<in> set keys. utf8_valid k \<longrightarrow> covers ps k) \<longrightarrow> r = None)"
  proof (induction keys)
    case (Cons k keys)
    obtain b where b: "any_glob ps k = Some b" "b \<Longrightarrow> covers ps k" "[42] \<notin> set (chars k) \<Longrightarrow> covers ps k \<Longrightarrow> b"
      by (rule any_glob_covers [of ps k]) (rule that)
    have star: "starless (k # keys) \<longleftrightarrow> (utf8_valid k \<longrightarrow> [42] \<notin> set (chars k)) \<and> starless keys"
      by (auto simp: starless_def)
    show ?case
    proof (cases "utf8_valid k")
      case False
      then show ?thesis using Cons.IH star by (simp add: from_utf8_def)
    next
      case True
      then show ?thesis using Cons.IH star b by (cases b) (auto simp: from_utf8_def)
    qed
  qed simp
  then show ?thesis using that by blast
qed

lemma check_command_inner_iff:
  obtains r where "check_command_inner user cmd keys = Some r" "r = None \<Longrightarrow> may_run user cmd keys"
    "starless keys \<Longrightarrow> may_run user cmd keys \<Longrightarrow> r = None"
proof -
  obtain r where r: "check_keys (u_keys user) keys = Some r"
    "r = None \<Longrightarrow> \<forall>k \<in> set keys. utf8_valid k \<longrightarrow> covers (u_keys user) k"
    "starless keys \<Longrightarrow> \<forall>k \<in> set keys. utf8_valid k \<longrightarrow> covers (u_keys user) k \<Longrightarrow> r = None"
    by (rule check_keys_covers [of "u_keys user" keys]) (rule that)
  consider (no) "\<not> u_enabled user \<or> \<not> command_allowed (u_commands user) (to_upper cmd)
      \<or> u_keys user = [] \<or> [42] \<in> set (u_keys user)"
    | (keys) "u_enabled user" "command_allowed (u_commands user) (to_upper cmd)" "u_keys user \<noteq> []" "[42] \<notin> set (u_keys user)"
    by blast
  then show ?thesis
  proof cases
    case no
    then show ?thesis
      by (intro that [of "the (check_command_inner user cmd keys)"])
        (auto simp: check_command_inner_def may_run_def Let_def split: if_splits)
  next
    case keys
    have "check_command_inner user cmd keys = Some r" using keys r(1) by (simp add: check_command_inner_def)
    then show ?thesis by (rule that) (use keys r in \<open>auto simp: may_run_def\<close>)
  qed
qed

definition acting_user :: "client \<Rightarrow> AclManager \<Rightarrow> AclUser" where
  "acting_user c acl = unwrap_or (default_user acl) (dict_get (users acl) (unwrap_or (ascii ''default'') (cl_name c)))"

lemma check_permission_iff:
  obtains r acl' where "check_permission ts c cmd keys acl = Some (r, acl')"
    "r = None \<Longrightarrow> may_run (acting_user c acl) cmd keys \<and> acl' = acl"
    "\<And>reason. r = Some reason \<Longrightarrow> acl' = log_denial ts (u_name (acting_user c acl)) cmd reason acl"
    "starless keys \<Longrightarrow> may_run (acting_user c acl) cmd keys \<Longrightarrow> r = None"
proof -
  obtain r where r: "check_command_inner (acting_user c acl) cmd keys = Some r" "r = None \<Longrightarrow> may_run (acting_user c acl) cmd keys"
    "starless keys \<Longrightarrow> may_run (acting_user c acl) cmd keys \<Longrightarrow> r = None"
    by (rule check_command_inner_iff [of "acting_user c acl" cmd keys]) (rule that)
  have eq: "check_permission ts c cmd keys acl = check_command ts (acting_user c acl) cmd keys acl"
    by (simp add: check_permission_def acting_user_def)
  show ?thesis
  proof (cases r)
    case None
    then show ?thesis using r eq by (intro that [of None acl]) (simp_all add: check_command_def)
  next
    case (Some reason)
    then show ?thesis using r eq
      by (intro that [of "Some reason" "log_denial ts (u_name (acting_user c acl)) cmd reason acl"]) (simp_all add: check_command_def)
  qed
qed

subsection \<open>The user table and the log\<close>

definition acl_wf :: "AclManager \<Rightarrow> bool" where
  "acl_wf acl \<longleftrightarrow> dict_wf (users acl) \<and> dict_get (users acl) (ascii ''default'') \<noteq> None
     \<and> (\<forall>k u. dict_get (users acl) k = Some u \<longrightarrow> u_name u = k) \<and> length (log acl) \<le> ACL_LOG_MAX"

lemma log_denial_wf: "acl_wf acl \<Longrightarrow> acl_wf (log_denial ts u c r acl)"
  by (auto simp: acl_wf_def log_denial_def ACL_LOG_MAX_def)

lemma apply_rule_name: "apply_rule digest rule user = Inr user' \<Longrightarrow> u_name user' = u_name user"
  by (auto simp: apply_rule_def apply_signed_def Let_def split: if_splits)

lemma apply_rules_name: "apply_rules digest rules user = Inr user' \<Longrightarrow> u_name user' = u_name user"
  by (induction rules arbitrary: user) (auto dest: apply_rule_name split: sum.splits)

lemma acl_setuser_wf:
  assumes "acl_wf acl"
  shows "acl_wf (snd (acl_setuser digest args acl))"
proof -
  have "acl_wf (acl\<lparr>users := dict_put (u_name u) u (users acl)\<rparr>)" for u
    using assms by (auto simp: acl_wf_def dict_simps dict_wf_def distinct_update)
  then show ?thesis using assms by (auto simp: acl_setuser_def split: list.splits option.splits sum.splits)
qed

lemma del_names_wf: "acl_wf acl \<Longrightarrow> ascii ''default'' \<notin> set names \<Longrightarrow> acl_wf (snd (del_names names acl))"
proof (induction names arbitrary: acl)
  case (Cons n names)
  have "acl_wf (acl\<lparr>users := dict_del n (users acl)\<rparr>)"
    using Cons.prems by (auto simp: acl_wf_def dict_simps dict_wf_def distinct_delete)
  then show ?case using Cons by (simp add: case_prod_beta)
qed simp

lemma acl_deluser_wf: "acl_wf acl \<Longrightarrow> acl_wf (snd (acl_deluser args acl))"
  using del_names_wf [of acl "filter utf8_valid args"]
  by (auto simp: acl_deluser_def del_user_def Let_def split: prod.splits)

lemma acl_log_wf: "acl_wf acl \<Longrightarrow> acl_wf (snd (acl_log args acl))"
  by (auto simp: acl_log_def acl_wf_def Let_def split: list.splits option.splits)

lemma acl_handle_wf: "acl_wf acl \<Longrightarrow> acl_wf (snd (acl_handle digest readers args c acl))"
  using acl_setuser_wf acl_deluser_wf acl_log_wf
  by (auto simp: acl_handle_def Let_def split: list.splits option.splits)

lemma cmd_auth_wf: "acl_wf acl \<Longrightarrow> acl_wf (snd (snd (cmd_auth digest ts args c acl)))"
  using log_denial_wf by (auto simp: cmd_auth_def Let_def split: list.splits)

text \<open>What reaches the access control lists.\<close>

datatype acl_event = AclCommand "bytes list" client | Auth nat "bytes list" client | Check nat client bytes "bytes list"

fun acl_step :: "(bytes \<Rightarrow> bytes) \<Rightarrow> (bytes \<Rightarrow> bytes list \<Rightarrow> AclManager \<Rightarrow> RespValue) \<Rightarrow> acl_event \<Rightarrow> AclManager \<Rightarrow> AclManager" where
  "acl_step digest readers (AclCommand args c) acl = snd (acl_handle digest readers args c acl)"
| "acl_step digest readers (Auth ts args c) acl = snd (snd (cmd_auth digest ts args c acl))"
| "acl_step digest readers (Check ts c cmd keys) acl = snd (the (check_permission ts c cmd keys acl))"

interpretation acl: invariant_system "acl_step digest readers" acl_wf for digest readers
proof
  fix ev acl
  assume wf: "acl_wf acl"
  show "acl_wf (acl_step digest readers ev acl)"
  proof (cases ev)
    case (Check ts c cmd keys)
    obtain r acl' where r: "check_permission ts c cmd keys acl = Some (r, acl')" "r = None \<Longrightarrow> may_run (acting_user c acl) cmd keys \<and> acl' = acl"
      "\<And>reason. r = Some reason \<Longrightarrow> acl' = log_denial ts (u_name (acting_user c acl)) cmd reason acl"
      by (rule check_permission_iff [of ts c cmd keys acl]) (rule that)
    then show ?thesis using Check wf log_denial_wf [OF wf] by (cases r) auto
  qed (use wf acl_handle_wf cmd_auth_wf in auto)
qed

lemma acl_new_wf: "acl_wf acl_new"
  by (simp add: acl_wf_def acl_new_def user_default_def dict_wf_def)

subsection \<open>Rules of a user\<close>

text \<open>Words of visible ASCII characters, as rules are written.\<close>

definition visible :: "bytes \<Rightarrow> bool" where
  "visible w \<longleftrightarrow> (\<forall>b \<in> set w. 33 \<le> b \<and> b \<le> 126)"

lemma visible_Cons: "visible (b # w) \<longleftrightarrow> 33 \<le> b \<and> b \<le> 126 \<and> visible w"
  by (auto simp: visible_def)

lemma visible_valid: "visible w \<Longrightarrow> utf8_valid w"
  by (rule utf8_valid_ascii) (auto simp: visible_def word_le_nat_alt word_less_nat_alt)

lemma visible_ws: "visible (b # w) \<Longrightarrow> ws_len (b # w) = 0"
proof -
  assume "visible (b # w)"
  then have b: "33 \<le> unat b" "unat b \<le> 126" by (auto simp: visible_Cons word_le_nat_alt)
  then have "b < 0x80" by (simp add: word_less_nat_alt)
  then show ?thesis using b by (auto simp: ws_len_pure_ascii word_le_nat_alt)
qed

lemma trim_visible: "visible w \<Longrightarrow> trim w = w"
proof -
  assume v: "visible w"
  have "trim_start_ws w = w"
    using visible_ws v by (cases w) (simp_all add: trim_start_ws.simps)
  moreover have "trim_end_ws w = w" using v
  proof (induction w)
    case (Cons b w)
    then show ?case using visible_ws [OF Cons.prems] by (simp add: visible_Cons all_ws.simps [of "b # w"])
  qed simp
  ultimately show ?thesis by (simp add: trim_def)
qed

lemma rule_word:
  assumes "visible w" "w \<noteq> []" "\<not> (97 \<le> hd w \<and> hd w \<le> 122)" "\<not> (65 \<le> hd w \<and> hd w \<le> 90)"
  shows "apply_rule digest w user = apply_signed digest (to_lower w) [] user"
proof -
  have "b \<noteq> 32" if "b \<in> set w" for b using assms(1) that by (auto simp: visible_def)
  then have tw: "takeWhile (\<lambda>b. b \<noteq> 32) w = w" by (simp add: takeWhile_eq_all_conv)
  obtain b r where w: "w = b # r" using assms(2) by (cases w) auto
  have "lower_byte b = b" using assms(4) w by (simp add: lower_byte_def)
  then have "hd (to_lower w) = b" using w by (simp add: to_lower_def)
  moreover have "b \<notin> {111, 110, 114, 97}" using assms(3) w by auto
  ultimately have hd: "hd (to_lower w) \<notin> {111, 110, 114, 97}" by simp
  have "to_lower w \<noteq> 111 # xs" "to_lower w \<noteq> 110 # xs" "to_lower w \<noteq> 114 # xs" "to_lower w \<noteq> 97 # xs" for xs
    using hd by auto
  then show ?thesis unfolding apply_rule_def trim_visible [OF assms(1)] Let_def tw using assms(2) by simp
qed

text \<open>What signed rules do to a user, for a word after the sign.\<close>

lemma rule_deny:
  assumes "visible cat"
  shows "apply_rule digest (45 # 64 # cat) user = Inr (user\<lparr>u_commands := (case u_commands user of
     PSet allowed denied \<Rightarrow> PSet allowed (fst (hset_insert (64 # to_upper (to_lower cat)) denied))
   | _ \<Rightarrow> PSet [] [64 # to_upper (to_lower cat)])\<rparr>)"
proof -
  have v: "visible (45 # 64 # cat)" using assms by (simp add: visible_Cons)
  show ?thesis
    by (subst rule_word [OF v])
      (simp_all add: apply_signed_def to_lower_def to_upper_def lower_byte_def upper_byte_def Let_def cong: CommandPermissions.case_cong)
qed

lemma rule_password:
  assumes "visible pw" "pw \<noteq> []"
  shows "apply_rule digest (62 # pw) user = Inr (user\<lparr>u_passwords := u_passwords user @ [to_lower pw], u_nopass := False\<rparr>)"
proof -
  have v: "visible (62 # pw)" using assms by (simp add: visible_Cons)
  show ?thesis
    by (subst rule_word [OF v]) (use assms in \<open>simp_all add: apply_signed_def to_lower_def lower_byte_def Let_def\<close>)
qed

lemma rule_pattern:
  assumes "visible pat" "pat \<noteq> []"
  shows "apply_rule digest (126 # pat) user = Inr (user\<lparr>u_keys := u_keys user @ [to_lower pat], u_reset_keys := False\<rparr>)"
proof -
  have v: "visible (126 # pat)" using assms by (simp add: visible_Cons)
  show ?thesis
    by (subst rule_word [OF v]) (use assms in \<open>simp_all add: apply_signed_def to_lower_def lower_byte_def Let_def\<close>)
qed

lemma setuser_new:
  assumes "utf8_valid name" "dict_get (users acl) name = None" "utf8_valid rule"
    "apply_rule digest rule (user_default\<lparr>u_name := name\<rparr>) = Inr user"
  shows "acl_setuser digest [name, rule] acl = (ok, acl\<lparr>users := dict_put name user (users acl)\<rparr>)"
  using assms apply_rule_name [OF assms(4)] by (simp add: acl_setuser_def from_utf8_def)

lemma setuser_password:
  assumes "utf8_valid name" "dict_get (users acl) name = None" "visible pw" "pw \<noteq> []"
  shows "authenticate digest name p (snd (acl_setuser digest [name, 62 # pw] acl)) \<longleftrightarrow> digest p = to_lower pw"
proof -
  have "utf8_valid (62 # pw)" using visible_valid [OF assms(3)] by simp
  then show ?thesis
    using setuser_new [OF assms(1,2) _ rule_password [OF assms(3,4)], of digest]
    by (simp add: authenticate_def dict_simps user_default_def)
qed

lemma setuser_pattern:
  assumes "utf8_valid name" "dict_get (users acl) name = None" "visible pat" "pat \<noteq> []" "cl_name c = Some name"
  shows "\<exists>acl'. acl_setuser digest [name, 126 # pat] acl = (ok, acl') \<and> check_permission ts c cmd keys acl' = Some (None, acl')"
proof -
  have "utf8_valid (126 # pat)" using visible_valid [OF assms(3)] by simp
  then show ?thesis
    using setuser_new [OF assms(1,2) _ rule_pattern [OF assms(3,4)], of digest] assms(5)
    by (simp add: check_permission_def check_command_def check_command_inner_def dict_simps user_default_def)
qed

lemma deny_category:
  assumes "visible cat" "u_commands user = PSet allowed denied"
    and "cmd \<noteq> to_upper (to_lower cat)" "cmd \<noteq> 64 # to_upper (to_lower cat)"
  shows "\<exists>user'. apply_rule digest (45 # 64 # cat) user = Inr user'
    \<and> command_allowed (u_commands user') cmd = command_allowed (u_commands user) cmd"
  unfolding rule_deny [OF assms(1)] using assms(2-4) by (simp add: hset_insert_def)

subsection \<open>Theorems\<close>

text \<open>
  C5. The backtracking loop that matches a key against a pattern always returns. What it accepts, the pattern
  means (a star any characters, a question mark one, anything else itself), and it accepts every such key without a
  star in its own name. A key with a star may be missed: \<^verbatim>\<open>a*\<close> does not match the key \<^verbatim>\<open>a*b\<close>.
\<close>

theorem glob_match_correct:
  "(\<exists>b. glob_match p t = Some b \<and> (b \<longrightarrow> globs [63] [42] (chars p) (chars t))
      \<and> ([42] \<notin> set (chars t) \<longrightarrow> globs [63] [42] (chars p) (chars t) \<longrightarrow> b))
   \<and> glob_match (ascii ''a*'') (ascii ''a*b'') = Some False
   \<and> globs [63] [42] (chars (ascii ''a*'')) (chars (ascii ''a*b''))"
proof (intro conjI)
  show "\<exists>b. glob_match p t = Some b \<and> (b \<longrightarrow> globs [63] [42] (chars p) (chars t))
      \<and> ([42] \<notin> set (chars t) \<longrightarrow> globs [63] [42] (chars p) (chars t) \<longrightarrow> b)"
    by (rule glob_match_globs [of p t]) blast
  show "glob_match (ascii ''a*'') (ascii ''a*b'') = Some False"
    by (simp add: glob_match_def glob_loop.simps)
qed simp

theorem glob_match_correct_witness:
  "globs [63] [42] (chars (ascii ''a*c?'')) (chars (ascii ''abbcd'')) \<and> glob_match (ascii ''a*c?'') (ascii ''abbcd'') = Some True"
proof (rule conjI)
  show g: "globs [63] [42] (chars (ascii ''a*c?'')) (chars (ascii ''abbcd''))" by simp
  have n: "[42] \<notin> set (chars (ascii ''abbcd''))" by simp
  show "glob_match (ascii ''a*c?'') (ascii ''abbcd'') = Some True"
    using conjunct1 [OF glob_match_correct [of "ascii ''a*c?''" "ascii ''abbcd''"]] g n
    by (elim exE conjE) (simp only: eq_True [symmetric] simp_thms)
qed



text \<open>
  C36. Whatever sequence of ACL commands, logins and checks reaches the access control lists: the default user is
  there, every user is stored under its own name and only once, and the log has at most 128 entries.
\<close>

theorem acl_run_wf:
  "let acl = fold (acl_step digest readers) evs acl_new in
     (\<exists>u. dict_get (users acl) (ascii ''default'') = Some u) \<and> distinct (map fst (users acl))
     \<and> list_all (\<lambda>(k, u). u_name u = k) (users acl) \<and> length (log acl) \<le> 128"
proof -
  let ?acl = "fold (acl_step digest readers) evs acl_new"
  have wf: "acl_wf ?acl" by (rule acl.good_run [OF acl_new_wf])
  then have "list_all (\<lambda>(k, u). u_name u = k) (users ?acl)"
    by (auto simp: acl_wf_def dict_wf_def list_all_iff)
  moreover have "\<exists>u. dict_get (users ?acl) (ascii ''default'') = Some u" "distinct (map fst (users ?acl))"
    "length (log ?acl) \<le> 128"
    using wf unfolding acl_wf_def dict_wf_def ACL_LOG_MAX_def by blast+
  ultimately show ?thesis unfolding Let_def by blast
qed



end
