(* ===== verification/Transactions_Props.thy ===== *)
theory Transactions_Props
  imports Transactions Acl_Props
begin

text \<open>
  Properties of transactions: what EXEC answers after any interleaving with other clients and waiting tasks, that a
  transaction amounts to its commands, the invariant of every session, which changes WATCH misses, what a connection hands
  to the append-only file and the replicas, and MIGRATE.
\<close>

subsection \<open>One command\<close>

text \<open>A command that is queued inside a transaction.\<close>

definition queueable :: "bytes list \<Rightarrow> bool" where
  "queueable cmd \<longleftrightarrow> cmd \<noteq> [] \<and> utf8_valid (hd cmd) \<and> to_upper (hd cmd) \<notin> set TXN_NAMES"

abbreviation MULTI :: "bytes list" where "MULTI \<equiv> [ascii ''MULTI'']"
abbreviation EXEC :: "bytes list" where "EXEC \<equiv> [ascii ''EXEC'']"
abbreviation DISCARD :: "bytes list" where "DISCARD \<equiv> [ascii ''DISCARD'']"
abbreviation QUEUED :: RespValue where "QUEUED \<equiv> SimpleString (ascii ''QUEUED'')"

definition queue_in :: "bytes list list \<Rightarrow> 's session \<Rightarrow> 's session" where
  "queue_in cmds s = s\<lparr>se_client := (se_client s)\<lparr>cl_queue := cl_queue (se_client s) @ cmds\<rparr>\<rparr>"

lemma dispatch_queued:
  "queueable cmd \<Longrightarrow> cl_multi (se_client s) \<Longrightarrow> dispatch_ctx (Suc n) ws cmd s = Some (Ret (QUEUED, queue_in [cmd] s))"
  by (simp add: queueable_def queue_in_def from_utf8_def Let_def)

lemma dispatch_plain:
  "queueable cmd \<Longrightarrow> \<not> cl_multi (se_client s) \<Longrightarrow>
     dispatch_ctx (Suc n) ws cmd s = run_command (ws []) cmd (to_upper (hd cmd)) s"
  by (simp add: queueable_def from_utf8_def Let_def)

lemma dispatch_MULTI:
  "\<not> cl_multi (se_client s) \<Longrightarrow> dispatch_ctx (Suc n) ws MULTI s =
     Some (Ret (ok, s\<lparr>se_client := (se_client s)\<lparr>cl_multi := True, cl_queue := [], cl_dirty := False\<rparr>\<rparr>))"
  by (simp add: from_utf8_def to_upper_def upper_byte_def TXN_NAMES_def txn_handle_def cmd_multi_def Let_def)

lemma dispatch_EXEC:
  "dispatch_ctx (Suc n) ws EXEC s =
     cmd_exec (\<lambda>i cmd' s'. dispatch_ctx n (\<lambda>p. ws (i # p)) cmd' (before (ws [i]) s')) s"
  by (simp add: from_utf8_def to_upper_def upper_byte_def TXN_NAMES_def txn_handle_def Let_def)

lemma dispatch_DISCARD:
  "cl_multi (se_client s) \<Longrightarrow> dispatch_ctx (Suc n) ws DISCARD s = Some (Ret (ok, s\<lparr>se_client := end_txn (se_client s)\<rparr>))"
  by (simp add: from_utf8_def to_upper_def upper_byte_def TXN_NAMES_def txn_handle_def cmd_discard_def Let_def)

subsection \<open>The queue\<close>

lemma exec_queue_cong:
  assumes "\<And>i cmd s. cmd \<in> set q \<Longrightarrow> run i cmd s = run' i cmd s"
  shows "exec_queue run i q s = exec_queue run' i q s"
  using assms
proof (induction q arbitrary: i s)
  case (Cons cmd q)
  then have "exec_queue run (i + 1) q s' = exec_queue run' (i + 1) q s'" for s' by simp
  then show ?case using Cons.prems [of cmd i s] by (simp split: option.splits outcome.splits)
qed simp

lemma exec_queue_length: "exec_queue run i q s = Some (Ret (vs, s')) \<Longrightarrow> length vs = length q"
proof (induction q arbitrary: i s vs)
  case (Cons cmd q)
  then show ?case
    by (fastforce simp: obind_Ret_iff split: option.splits outcome.splits prod.splits)
qed simp

text \<open>One level of nested calls is enough when the queue holds queueable commands only.\<close>

lemma dispatch_fuel_plain: "queueable cmd \<Longrightarrow> dispatch_ctx (Suc n) ws cmd s = dispatch_ctx (Suc m) ws cmd s"
  by (cases "cl_multi (se_client s)") (simp_all add: dispatch_queued dispatch_plain del: dispatch_ctx.simps)

lemma dispatch_fuel:
  assumes "list_all queueable (cl_queue (se_client s))"
  shows "dispatch_ctx (Suc (Suc n)) ws cmd s = dispatch_ctx (Suc (Suc m)) ws cmd s"
proof -
  have "exec_queue (\<lambda>i cmd' s'. dispatch_ctx (Suc n) (\<lambda>p. ws (i # p)) cmd' (before (ws [i]) s')) 0 (cl_queue (se_client s)) s'
    = exec_queue (\<lambda>i cmd' s'. dispatch_ctx (Suc m) (\<lambda>p. ws (i # p)) cmd' (before (ws [i]) s')) 0 (cl_queue (se_client s)) s'" for s'
    using assms by (intro exec_queue_cong dispatch_fuel_plain) (simp add: list_all_iff)
  then have "cmd_exec (\<lambda>i cmd' s'. dispatch_ctx (Suc n) (\<lambda>p. ws (i # p)) cmd' (before (ws [i]) s')) s
    = cmd_exec (\<lambda>i cmd' s'. dispatch_ctx (Suc m) (\<lambda>p. ws (i # p)) cmd' (before (ws [i]) s')) s"
    unfolding cmd_exec_def Let_def by simp
  then show ?thesis by (simp only: dispatch_ctx.simps(2) [of "Suc n"] dispatch_ctx.simps(2) [of "Suc m"] txn_handle_def)
qed

text \<open>Commands sent one after the other, with what other clients do before each.\<close>

fun send_all :: "(nat list \<Rightarrow> 's world) \<Rightarrow> nat \<Rightarrow> bytes list list \<Rightarrow> 's session \<Rightarrow> (RespValue list \<times> 's session) outcome option" where
  "send_all ws i [] s = Some (Ret ([], s))"
| "send_all ws i (cmd # cmds) s =
     (case dispatch_ctx 1 (\<lambda>p. ws (i # p)) cmd (before (ws [i]) s) of
        None \<Rightarrow> None
      | Some Panic \<Rightarrow> Some Panic
      | Some Deadlock \<Rightarrow> Some Deadlock
      | Some (Ret (v, s')) \<Rightarrow>
          map_option (\<lambda>r. obind r (\<lambda>(vs, s''). Ret (v # vs, s''))) (send_all ws (i + 1) cmds s'))"

lemma exec_queue_send_all:
  "list_all queueable q \<Longrightarrow>
     exec_queue (\<lambda>i cmd' s'. dispatch_ctx (Suc n) (\<lambda>p. ws (i # p)) cmd' (before (ws [i]) s')) i q s = send_all ws i q s"
proof (induction q arbitrary: i s)
  case (Cons cmd q)
  then have q: "queueable cmd" "list_all queueable q" by simp_all
  have "dispatch_ctx (Suc n) (\<lambda>p. ws (i # p)) cmd (before (ws [i]) s) = dispatch_ctx 1 (\<lambda>p. ws (i # p)) cmd (before (ws [i]) s)"
    unfolding One_nat_def by (rule dispatch_fuel_plain [OF q(1)])
  then show ?case by (simp only: exec_queue.simps send_all.simps Cons.IH [OF q(2)])
qed simp

subsection \<open>Queueing\<close>

fun queue_all :: "(nat list \<Rightarrow> 's world) \<Rightarrow> bytes list list \<Rightarrow> 's session \<Rightarrow> (RespValue list \<times> 's session) option" where
  "queue_all ws [] s = Some ([], s)"
| "queue_all ws (cmd # cmds) s =
     (case dispatch_ctx 1 ws cmd s of
        Some (Ret (v, s')) \<Rightarrow> map_option (\<lambda>(vs, s''). (v # vs, s'')) (queue_all ws cmds s')
      | _ \<Rightarrow> None)"

lemma queue_all_plain:
  "list_all queueable cmds \<Longrightarrow> cl_multi (se_client s) \<Longrightarrow>
     queue_all ws cmds s = Some (replicate (length cmds) QUEUED, queue_in cmds s)"
proof (induction cmds arbitrary: s)
  case (Cons cmd cmds)
  have "cl_multi (se_client (queue_in [cmd] s))" "queue_in cmds (queue_in [cmd] s) = queue_in (cmd # cmds) s"
    using Cons.prems by (simp_all add: queue_in_def)
  then show ?case using Cons dispatch_queued [of cmd s 0 ws] by (simp add: One_nat_def del: dispatch_ctx.simps)
qed (simp add: queue_in_def)

subsection \<open>The invariant of a session\<close>

definition session_ok :: "'s session \<Rightarrow> bool" where
  "session_ok s \<longleftrightarrow> list_all queueable (cl_queue (se_client s)) \<and> (cl_multi (se_client s) \<or> cl_queue (se_client s) = [])"

text \<open>
  What the commands without a model are relied on for: they leave transaction state alone, or end the transaction
  as RESET does.
\<close>

definition rest_ok :: "'s world \<Rightarrow> bool" where
  "rest_ok w \<longleftrightarrow> (\<forall>cmd s v s'. w_rest w cmd s = Some (Ret (v, s')) \<longrightarrow>
     (cl_multi (se_client s') = cl_multi (se_client s) \<and> cl_queue (se_client s') = cl_queue (se_client s))
     \<or> (\<not> cl_multi (se_client s') \<and> cl_queue (se_client s') = []))"

lemma session_ok_client:
  "session_ok s \<Longrightarrow> cl_multi (se_client s') = cl_multi (se_client s) \<Longrightarrow> cl_queue (se_client s') = cl_queue (se_client s) \<Longrightarrow> session_ok s'"
  by (simp add: session_ok_def)

lemma on_store_client: "on_store s r = Some (Ret (v, s')) \<Longrightarrow> se_client s' = se_client s"
  by (auto simp: on_store_def obind_Ret_iff split: prod.splits)

lemma cmd_auth_client:
  "cmd_auth digest ts args c acl = (v, c', acl') \<Longrightarrow> cl_multi c' = cl_multi c \<and> cl_queue c' = cl_queue c"
  by (auto simp: cmd_auth_def Let_def split: list.splits if_splits)

lemma call_module_ok:
  assumes "rest_ok w" "session_ok s" "call_module w cmd name s = Some (Ret (v, s'))"
  shows "session_ok s'"
proof -
  have "cl_multi (se_client s') = cl_multi (se_client s) \<and> cl_queue (se_client s') = cl_queue (se_client s)
    \<or> w_rest w cmd s = Some (Ret (v, s'))"
    using assms(3) unfolding call_module_def Let_def
    by (auto dest: on_store_client cmd_auth_client split: module.splits if_splits option.splits prod.splits)
  then show ?thesis
  proof
    assume "w_rest w cmd s = Some (Ret (v, s'))"
    then show ?thesis using assms(1,2) unfolding rest_ok_def session_ok_def by (metis list.pred_inject(1))
  qed (use assms(2) session_ok_client in blast)
qed

lemma run_command_ok:
  assumes "rest_ok w" "session_ok s" "run_command w cmd name s = Some (Ret (v, s'))"
  shows "session_ok s'"
proof -
  have acl: "session_ok (s\<lparr>se_acl := acl\<rparr>)" for acl using assms(2) by (simp add: session_ok_def)
  then show ?thesis
    using assms(3) call_module_ok [OF assms(1,2)] call_module_ok [OF assms(1) acl]
    by (auto simp: run_command_def split: if_splits option.splits prod.splits)
qed

lemma txn_handle_ok:
  assumes run: "\<And>i cmd s v s'. cmd \<in> set (cl_queue (se_client s0')) \<Longrightarrow> session_ok s \<Longrightarrow> run i cmd s = Some (Ret (v, s')) \<Longrightarrow> session_ok s'"
    and "session_ok s0'" "txn_handle run cmd name s0' = Some (Some (Ret (v, s')))"
  shows "session_ok s'"
proof -
  have fin: "session_ok (s0'\<lparr>se_client := end_txn c\<rparr>)" for c by (simp add: session_ok_def end_txn_def)
  have q: "exec_queue run i q s = Some (Ret (vs, s')) \<Longrightarrow> set q \<subseteq> set (cl_queue (se_client s0')) \<Longrightarrow> session_ok s \<Longrightarrow> session_ok s'"
    for i q s vs s'
  proof (induction q arbitrary: i s vs)
    case (Cons cmd q)
    then obtain v s1 vs' where "run i cmd s = Some (Ret (v, s1))" "exec_queue run (i + 1) q s1 = Some (Ret (vs', s'))"
      by (fastforce simp: obind_Ret_iff split: option.splits outcome.splits prod.splits)
    then show ?case using Cons run [of cmd s i v s1] by auto
  qed simp
  have exec: "session_ok s'" if "cmd_exec run s0' = Some (Ret (v, s'))"
  proof -
    have "s' = s0' \<or> s' = s0'\<lparr>se_client := end_txn (se_client s0')\<rparr>
      \<or> (\<exists>vs. exec_queue run 0 (cl_queue (se_client s0')) (s0'\<lparr>se_client := end_txn (se_client s0')\<rparr>) = Some (Ret (vs, s')))"
      using that by (auto simp: cmd_exec_def Let_def obind_Ret_iff split: if_splits)
    then show ?thesis using assms(2) fin q [OF _ order_refl fin] by blast
  qed
  have "cmd_exec run s0' = Some (Ret (v, s')) \<or> s' = s0'\<lparr>se_client := end_txn (se_client s0')\<rparr>
    \<or> list_all queueable (cl_queue (se_client s')) \<and> (cl_multi (se_client s') \<or> cl_queue (se_client s') = [])"
    using assms(2,3)
    by (auto simp: txn_handle_def cmd_multi_def cmd_discard_def cmd_unwatch_def cmd_watch_def Let_def
        session_ok_def split: if_splits prod.splits)
  then show ?thesis using exec fin unfolding session_ok_def by blast
qed

lemma before_ok [simp]: "session_ok (before w s) = session_ok s"
  by (simp add: before_def session_ok_def split: prod.splits)

lemma dispatch_ok:
  "(\<And>p. rest_ok (ws p)) \<Longrightarrow> session_ok s \<Longrightarrow> dispatch_ctx n ws cmd s = Some (Ret (v, s')) \<Longrightarrow> session_ok s'"
proof (induction n arbitrary: ws cmd s v s')
  case (Suc n)
  consider (same) "s' = s" | (txn) "txn_handle (\<lambda>i cmd' s'. dispatch_ctx n (\<lambda>p. ws (i # p)) cmd' (before (ws [i]) s')) cmd (to_upper (hd cmd)) s
      = Some (Some (Ret (v, s')))"
    | (queue) "queueable cmd" "cl_multi (se_client s)" "s' = queue_in [cmd] s"
    | (run) "run_command (ws []) cmd (to_upper (hd cmd)) s = Some (Ret (v, s'))"
    using Suc.prems(3)
    by (auto simp: Let_def from_utf8_def queueable_def queue_in_def split: if_splits option.splits)
  then show ?case
  proof cases
    case txn
    show ?thesis
    proof (rule txn_handle_ok [OF _ Suc.prems(2) txn])
      fix i cmd' s1 v1 s2
      assume "session_ok s1" "dispatch_ctx n (\<lambda>p. ws (i # p)) cmd' (before (ws [i]) s1) = Some (Ret (v1, s2))"
      then show "session_ok s2" using Suc.IH [of "\<lambda>p. ws (i # p)" "before (ws [i]) s1"] Suc.prems(1) by simp
    qed
  next
    case queue
    then show ?thesis using Suc.prems(2) by (simp add: session_ok_def queue_in_def)
  qed (use Suc.prems run_command_ok in blast)+
qed simp

definition session_new :: "'s session" where
  "session_new = \<lparr>se_client = client_new, se_tasks = [], se_acl = acl_new, se_store = store_new\<rparr>"

lemma session_step_ok:
  assumes "\<And>ws p. W ws \<Longrightarrow> rest_ok (ws p)" "session_step W s ev s'" "session_ok s"
  shows "session_ok s'"
  using assms(2)
proof cases
  case (send ws n cmd v)
  then show ?thesis using dispatch_ok [of ws s n cmd v s'] assms(1) [OF send(2)] assms(3) by blast
qed (use assms(3) in \<open>auto simp: session_ok_def\<close>)

lemma session_run_ok:
  assumes "\<And>ws p. W ws \<Longrightarrow> rest_ok (ws p)" "session_run W s evs s'" "session_ok s"
  shows "session_ok s'"
  using assms(2,3)
proof induction
  case (more s ev s' evs s'')
  then show ?case using session_step_ok [of W s ev s'] assms(1) by blast
qed

subsection \<open>From MULTI to EXEC\<close>

text \<open>Events that neither begin nor end a transaction.\<close>

fun inside :: "event \<Rightarrow> bool" where
  "inside (Send cmd v) = queueable cmd"
| "inside (Foreign cmd v) = True"
| "inside (Wake rx) = True"

fun queued :: "event list \<Rightarrow> bytes list list" where
  "queued [] = []"
| "queued (Send cmd v # evs) = cmd # queued evs"
| "queued (_ # evs) = queued evs"

definition wakes :: "event list \<Rightarrow> bool" where
  "wakes evs \<longleftrightarrow> (\<exists>rx. Wake rx \<in> set evs)"

lemma wakes_Cons [simp]: "wakes (ev # evs) \<longleftrightarrow> (\<exists>rx. ev = Wake rx) \<or> wakes evs" "\<not> wakes []"
  by (auto simp: wakes_def)

lemma inside_step:
  assumes "session_step W s ev s'" "inside ev" "cl_multi (se_client s)"
  shows "cl_multi (se_client s') \<and> cl_queue (se_client s') = cl_queue (se_client s) @ queued [ev]
    \<and> cl_dirty (se_client s') = (cl_dirty (se_client s) \<or> wakes [ev]) \<and> cl_watched (se_client s') = cl_watched (se_client s)"
  using assms(1)
proof cases
  case (send ws n cmd v)
  then obtain m where "n = Suc m" by (cases n) auto
  then have "s' = queue_in [cmd] s" using dispatch_queued [of cmd s m ws] send assms(2,3) by simp
  then show ?thesis using send assms(3) by (simp add: queue_in_def)
qed (use assms in auto)

lemma inside_run:
  assumes "session_run W s evs s'" "list_all inside evs" "cl_multi (se_client s)"
  shows "cl_multi (se_client s') \<and> cl_queue (se_client s') = cl_queue (se_client s) @ queued evs
    \<and> cl_dirty (se_client s') = (cl_dirty (se_client s) \<or> wakes evs)"
  using assms
proof (induction)
  case (more s ev s' evs s'')
  have "inside ev" using more.prems by simp
  note step = inside_step [OF more.hyps(1) this more.prems(2)]
  have "queued (ev # evs) = queued [ev] @ queued evs" by (cases ev) simp_all
  then show ?case using step more.IH more.prems by auto
qed simp

lemma session_run_append:
  "session_run W s (evs @ evs') s' \<longleftrightarrow> (\<exists>s1. session_run W s evs s1 \<and> session_run W s1 evs' s')"
  by (induction evs arbitrary: s) (auto simp: session_run_Cons)

lemma session_run_single: "session_run W s [ev] s' \<longleftrightarrow> session_step W s ev s'"
  by (auto simp: session_run_Cons)

lemma multi_step:
  assumes "session_step W s (Send MULTI v) s'" "\<not> cl_multi (se_client s)"
  shows "v = ok \<and> s' = s\<lparr>se_client := (se_client s)\<lparr>cl_multi := True, cl_queue := [], cl_dirty := False\<rparr>\<rparr>"
proof -
  obtain ws n where 1: "dispatch_ctx n ws MULTI s = Some (Ret (v, s'))" using assms(1) by (rule session_sendE)
  then obtain m where "n = Suc m" by (cases n) auto
  then show ?thesis using 1 dispatch_MULTI [OF assms(2), of m ws] by simp
qed

lemma exec_step:
  assumes "session_step W s (Send EXEC v) s'" "cl_multi (se_client s)" "list_all queueable (cl_queue (se_client s))"
  shows "if cl_dirty (se_client s) then v = Array None \<and> s' = s\<lparr>se_client := end_txn (se_client s)\<rparr>
    else \<exists>ws vs. W ws \<and> v = Array (Some vs) \<and> length vs = length (cl_queue (se_client s))
      \<and> send_all ws 0 (cl_queue (se_client s)) (s\<lparr>se_client := end_txn (se_client s)\<rparr>) = Some (Ret (vs, s'))"
proof -
  obtain ws n where 1: "W ws" "dispatch_ctx n ws EXEC s = Some (Ret (v, s'))" using assms(1) by (rule session_sendE)
  then obtain m where m: "n = Suc m" by (cases n) auto
  have ex: "cmd_exec (\<lambda>i cmd' s'. dispatch_ctx m (\<lambda>p. ws (i # p)) cmd' (before (ws [i]) s')) s = Some (Ret (v, s'))"
    using 1 dispatch_EXEC [of m ws s] m by simp
  show ?thesis
  proof (cases "cl_dirty (se_client s)")
    case True
    then show ?thesis using ex assms(2) by (simp add: cmd_exec_def)
  next
    case False
    let ?s = "s\<lparr>se_client := end_txn (se_client s)\<rparr>"
    obtain vs where vs: "v = Array (Some vs)"
      "exec_queue (\<lambda>i cmd' s'. dispatch_ctx m (\<lambda>p. ws (i # p)) cmd' (before (ws [i]) s')) 0 (cl_queue (se_client s)) ?s = Some (Ret (vs, s'))"
      using ex assms(2) False by (auto simp: cmd_exec_def Let_def obind_Ret_iff)
    have "send_all ws 0 (cl_queue (se_client s)) ?s = Some (Ret (vs, s'))"
    proof (cases m)
      case 0
      then show ?thesis using vs(2) by (cases "cl_queue (se_client s)") simp_all
    next
      case (Suc k)
      then show ?thesis using vs(2) exec_queue_send_all [OF assms(3), of k ws 0 ?s] by simp
    qed
    then show ?thesis using False vs(1) exec_queue_length [OF vs(2)] 1 by auto
  qed
qed

subsection \<open>A concrete server\<close>

abbreviation world0 :: "nat world" where
  "world0 \<equiv> \<lparr>w_env = env0, w_sle = \<lambda>_. [], w_sread = \<lambda>_. 0, w_unordered = id, w_rounds = 0, w_others = \<lambda>_ st. st,
     w_digest = id, w_readers = \<lambda>_ _ _. ok, w_rest = \<lambda>_ s. Some (Ret (ok, s)), w_before = id\<rparr>"

abbreviation worlds0 :: "(nat list \<Rightarrow> nat world) \<Rightarrow> bool" where
  "worlds0 ws \<equiv> ws = (\<lambda>_. world0)"

lemma rest_ok_world0: "rest_ok world0"
  by (simp add: rest_ok_def)

definition idle :: "'s session \<Rightarrow> bool" where
  "idle s \<longleftrightarrow> cl_name (se_client s) = None \<and> \<not> cl_multi (se_client s) \<and> se_acl s = acl_new"

lemma check_default: "cl_name c = None \<Longrightarrow> check_permission ts c cmd keys acl_new = Some (None, acl_new)"
  by (simp add: check_permission_def check_command_def check_command_inner_def acl_new_def user_default_def)

lemma run_default:
  assumes "idle s" "queueable cmd" "to_upper (hd cmd) \<notin> {ascii ''ACL'', ascii ''AUTH''}"
  shows "dispatch_ctx (Suc n) ws cmd s = call_module (ws []) cmd (to_upper (hd cmd)) s"
proof -
  have "s\<lparr>se_acl := acl_new\<rparr> = s" using assms(1) by (simp add: idle_def)
  then show ?thesis
    using assms dispatch_plain [OF assms(2), of s n ws] by (simp add: idle_def run_command_def check_default)
qed

lemmas name_simps = queueable_def TXN_NAMES_def to_upper_def upper_byte_def from_utf8_def Let_def

lemma run_SET:
  assumes "idle s" "maxmemory (evict_config (se_store s)) = 0" "kmap (se_store s) k = None"
  shows "dispatch_ctx (Suc n) (\<lambda>_. world0) [ascii ''SET'', k, v] s = Some (Ret (ok, s\<lparr>se_store :=
    bump_dirty ((notify_watchers k (se_store s))\<lparr>keyspace := dict_put k (fresh_entry (DString v)) (keyspace (se_store s))\<rparr>)\<rparr>))"
proof -
  have m: "module_of (ascii ''SET'') = MString" by (simp add: module_of_def)
  have st: "string_handle env0 [ascii ''SET'', k, v] (se_store s) = Ret (ok,
    bump_dirty ((notify_watchers k (se_store s))\<lparr>keyspace := dict_put k (fresh_entry (DString v)) (keyspace (se_store s))\<rparr>))"
    using assms(2,3) by (simp add: string_handle_def name_simps cmd_set_def opts0_def set_with_def
        store_exists_def env_evict_def maybe_evict_def store_set_Ret)
  show ?thesis
    by (subst run_default [OF assms(1)]) (use m st in \<open>simp_all add: call_module_def on_store_def name_simps\<close>)
qed

lemma run_MSET:
  assumes "idle s"
  shows "dispatch_ctx (Suc n) (\<lambda>_. world0) [ascii ''MSET'', k, v] s = Some (Ret (ok, s\<lparr>se_store :=
    bump_dirty ((notify_watchers k (se_store s))\<lparr>keyspace := dict_put k (fresh_entry (DString v)) (keyspace (se_store s))\<rparr>)\<rparr>))"
proof -
  have m: "module_of (ascii ''MSET'') = MString" by (simp add: module_of_def)
  have st: "string_handle env0 [ascii ''MSET'', k, v] (se_store s) = Ret (ok,
    bump_dirty ((notify_watchers k (se_store s))\<lparr>keyspace := dict_put k (fresh_entry (DString v)) (keyspace (se_store s))\<rparr>))"
    by (simp add: string_handle_def name_simps cmd_mset_def store_set_Ret)
  show ?thesis
    by (subst run_default [OF assms(1)]) (use m st in \<open>simp_all add: call_module_def on_store_def name_simps\<close>)
qed

lemma run_HSET:
  assumes "idle s" "kmap (se_store s) k = None"
  shows "dispatch_ctx (Suc n) (\<lambda>_. world0) [ascii ''HSET'', k, f, v] s = Some (Ret (Integer 1, s\<lparr>se_store :=
    (se_store s)\<lparr>keyspace := dict_put k (fresh_entry (DHash [(f, v)])) (keyspace (se_store s))\<rparr>\<rparr>))"
proof -
  have m: "module_of (ascii ''HSET'') = MHash" by (simp add: module_of_def)
  have st: "hash_handle env0 [ascii ''HSET'', k, f, v] (se_store s) = Ret (Integer 1,
    (se_store s)\<lparr>keyspace := dict_put k (fresh_entry (DHash [(f, v)])) (keyspace (se_store s))\<rparr>)"
    using assms(2) by (simp add: hash_handle_def name_simps hset_def update_hash_def
        or_insert_def write_data_def)
  show ?thesis
    by (subst run_default [OF assms(1)]) (use m st in \<open>simp_all add: call_module_def on_store_def name_simps\<close>)
qed

lemma run_WATCH:
  assumes "\<not> cl_multi (se_client s)"
  shows "dispatch_ctx (Suc n) ws [ascii ''WATCH'', k] s = Some (Ret (ok, s\<lparr>se_client := (se_client s)\<lparr>cl_watched := [k], cl_dirty := False\<rparr>,
    se_tasks := se_tasks s @ [next_chan (se_store s)], se_store := snd (store_watch k (se_store s))\<rparr>))"
  using assms by (simp add: name_simps txn_handle_def cmd_watch_def store_watch_def)

lemma run_UNWATCH:
  "dispatch_ctx (Suc n) ws [ascii ''UNWATCH''] s = Some (Ret (ok, s\<lparr>se_client := (se_client s)\<lparr>cl_watched := [], cl_dirty := False\<rparr>\<rparr>))"
  by (simp add: name_simps txn_handle_def cmd_unwatch_def)

lemma run_EXEC_empty:
  assumes "cl_multi (se_client s)" "cl_queue (se_client s) = []"
  shows "dispatch_ctx (Suc n) ws EXEC s =
    Some (Ret (if cl_dirty (se_client s) then Array None else Array (Some []), s\<lparr>se_client := end_txn (se_client s)\<rparr>))"
  unfolding dispatch_EXEC using assms by (simp add: cmd_exec_def Let_def)

subsection \<open>Theorems\<close>

text \<open>
  C4. A transaction, event by event. Between MULTI and EXEC the client queues commands, other clients work and
  waiting tasks report. EXEC answers with the null array exactly if a task reported in between, and then it
  leaves store and access control lists as they are. Otherwise it answers with one reply for every queued command, those
  of sending the queued commands in this order, and ends in the state they lead to.
\<close>

theorem exec_outcome:
  assumes "session_run W s (Send MULTI v0 # evs @ [Send EXEC v]) s'"
    and "\<not> cl_multi (se_client s)" and "list_all inside evs"
  shows "\<exists>s1. session_run W s (Send MULTI v0 # evs) s1 \<and> cl_queue (se_client s1) = queued evs
    \<and> (if wakes evs then v = Array None \<and> s' = s1\<lparr>se_client := end_txn (se_client s1)\<rparr>
       else \<exists>ws vs. W ws \<and> v = Array (Some vs) \<and> length vs = length (queued evs)
         \<and> send_all ws 0 (queued evs) (s1\<lparr>se_client := end_txn (se_client s1)\<rparr>) = Some (Ret (vs, s')))"
proof -
  obtain s0' s1 where r: "session_step W s (Send MULTI v0) s0'" "session_run W s0' evs s1" "session_step W s1 (Send EXEC v) s'"
    using assms(1) by (auto simp: session_run_Cons session_run_append session_run_single)
  have s0: "s0' = s\<lparr>se_client := (se_client s)\<lparr>cl_multi := True, cl_queue := [], cl_dirty := False\<rparr>\<rparr>"
    using multi_step [OF r(1) assms(2)] by simp
  have s1: "cl_multi (se_client s1)" "cl_queue (se_client s1) = queued evs" "cl_dirty (se_client s1) = wakes evs"
    using inside_run [OF r(2) assms(3)] s0 by simp_all
  have "list_all queueable (queued evs)" using assms(3) by (induction evs rule: queued.induct) simp_all
  then have "if wakes evs then v = Array None \<and> s' = s1\<lparr>se_client := end_txn (se_client s1)\<rparr>
       else \<exists>ws vs. W ws \<and> v = Array (Some vs) \<and> length vs = length (queued evs)
         \<and> send_all ws 0 (queued evs) (s1\<lparr>se_client := end_txn (se_client s1)\<rparr>) = Some (Ret (vs, s'))"
    using exec_step [OF r(3) s1(1)] unfolding s1(2,3) by blast
  moreover have "session_run W s (Send MULTI v0 # evs) s1" using r(1,2) by (rule session_run.more)
  ultimately show ?thesis using s1(2) by blast
qed

lemma multi_exec_run:
  "\<exists>s'. session_run worlds0 session_new (Send MULTI ok # [] @ [Send EXEC (Array (Some []))]) s'"
proof -
  let ?s1 = "session_new\<lparr>se_client := client_new\<lparr>cl_multi := True, cl_queue := [], cl_dirty := False\<rparr>\<rparr> :: nat session"
  have "session_step worlds0 session_new (Send MULTI ok) ?s1"
    by (rule session_step.send [where n = 1 and ws = "\<lambda>_. world0"])
      (use dispatch_MULTI [of "session_new :: nat session" 0 "\<lambda>_. world0"] in \<open>simp_all add: session_new_def client_new_def del: dispatch_ctx.simps\<close>)
  moreover have "session_step worlds0 ?s1 (Send EXEC (Array (Some []))) (?s1\<lparr>se_client := end_txn (se_client ?s1)\<rparr>)"
    by (rule session_step.send [where n = 1 and ws = "\<lambda>_. world0"])
      (use run_EXEC_empty [of ?s1 0 "\<lambda>_. world0"] in \<open>simp_all add: client_new_def del: dispatch_ctx.simps\<close>)
  ultimately show ?thesis by (auto simp: session_run_Cons)
qed

theorem exec_outcome_witness:
  "\<exists>s' s1 ws vs. session_run worlds0 session_new (Send MULTI ok # [] @ [Send EXEC (Array (Some []))]) s'
     \<and> worlds0 ws \<and> Array (Some []) = Array (Some vs) \<and> length vs = length (queued [])
     \<and> send_all ws 0 [] (s1\<lparr>se_client := end_txn (se_client s1)\<rparr>) = Some (Ret (vs, s'))"
proof -
  obtain s' where r: "session_run worlds0 session_new (Send MULTI ok # [] @ [Send EXEC (Array (Some []))]) s'"
    using multi_exec_run by blast
  have "\<not> cl_multi (se_client (session_new :: nat session))" by (simp add: session_new_def client_new_def)
  from exec_outcome [OF r this] r show ?thesis by (simp del: append_Nil) blast
qed



text \<open>
  C14. The invariant of every session that starts anew, whatever the client, other clients and the
  waiting tasks do: the queue holds only commands that are not transaction commands, and is empty outside a transaction. So the
  calls that EXEC makes never nest, and two levels of calls suffice for every command.
\<close>

theorem session_invariant:
  assumes "\<forall>ws p. W ws \<longrightarrow> rest_ok (ws p)" and "session_run W session_new evs s"
  shows "list_all queueable (cl_queue (se_client s)) \<and> (cl_multi (se_client s) \<or> cl_queue (se_client s) = [])
    \<and> dispatch_ctx (Suc (Suc n)) ws cmd s = dispatch_ctx 2 ws cmd s"
proof -
  have new: "session_ok session_new" by (simp add: session_ok_def session_new_def client_new_def)
  have ok: "session_ok s" by (rule session_run_ok [OF _ assms(2) new]) (use assms(1) in blast)
  then have q: "list_all queueable (cl_queue (se_client s))" by (simp add: session_ok_def)
  show ?thesis using ok dispatch_fuel [OF q, of n ws cmd 0] by (simp add: session_ok_def numeral_2_eq_2 del: dispatch_ctx.simps)
qed

theorem session_invariant_witness:
  "\<exists>s. session_run worlds0 session_new (Send MULTI ok # [] @ [Send EXEC (Array (Some []))]) s \<and> list_all queueable (cl_queue (se_client s))"
proof -
  obtain s where r: "session_run worlds0 session_new (Send MULTI ok # [] @ [Send EXEC (Array (Some []))]) s"
    using multi_exec_run by blast
  have "\<forall>ws p. worlds0 ws \<longrightarrow> rest_ok (ws p)" using rest_ok_world0 by simp
  from conjunct1 [OF session_invariant [OF this r]] r show ?thesis by blast
qed

lemma step_send: "dispatch_ctx (Suc 0) (\<lambda>_. world0) cmd s = Some (Ret (v, s')) \<Longrightarrow> session_step worlds0 s (Send cmd v) s'"
  by (rule session_step.send [where n = "Suc 0" and ws = "\<lambda>_. world0"]) simp_all

lemma step_foreign:
  "dispatch_ctx (Suc 0) (\<lambda>_. world0) cmd (s\<lparr>se_client := client_new, se_tasks := []\<rparr>) = Some (Ret (v, s2)) \<Longrightarrow>
     session_step worlds0 s (Foreign cmd v) (s\<lparr>se_acl := se_acl s2, se_store := se_store s2\<rparr>)"
  by (rule session_step.foreign [where n = "Suc 0" and ws = "\<lambda>_. world0" and ?c2.0 = client_new and ts = "[]"]) simp_all

lemma idle_foreign: "se_acl s = acl_new \<Longrightarrow> idle (s\<lparr>se_client := client_new, se_tasks := []\<rparr>)"
  by (simp add: idle_def client_new_def)

definition watched0 :: "bytes \<Rightarrow> nat session" where
  "watched0 k = session_new\<lparr>se_client := client_new\<lparr>cl_watched := [k], cl_dirty := False\<rparr>, se_tasks := [0],
     se_store := snd (store_watch k store_new)\<rparr>"

lemma watch_new: "session_step worlds0 session_new (Send [ascii ''WATCH'', k] ok) (watched0 k)"
  using step_send [OF run_WATCH [of "session_new :: nat session"], of k]
  by (simp add: session_new_def client_new_def watched0_def store_new_def)

text \<open>
  The other client writes the key, in a session that watched it and had no other changes.
\<close>

definition write0 :: "bytes \<Rightarrow> bytes \<Rightarrow> nat session \<Rightarrow> nat session" where
  "write0 k v s = s\<lparr>se_store := bump_dirty ((notify_watchers k (se_store s))\<lparr>keyspace := dict_put k (fresh_entry (DString v)) (keyspace (se_store s))\<rparr>)\<rparr>"

lemma foreign_SET:
  assumes "se_acl s = acl_new" "maxmemory (evict_config (se_store s)) = 0" "kmap (se_store s) k = None"
  shows "session_step worlds0 s (Foreign [ascii ''SET'', k, v] ok) (write0 k v s)"
  using step_foreign [OF run_SET [OF idle_foreign [OF assms(1)], where k = k and v = v]] assms by (cases s) (simp add: write0_def)

lemma foreign_HSET:
  assumes "se_acl s = acl_new" "kmap (se_store s) k = None"
  shows "session_step worlds0 s (Foreign [ascii ''HSET'', k, f, v] (Integer 1))
    (s\<lparr>se_store := (se_store s)\<lparr>keyspace := dict_put k (fresh_entry (DHash [(f, v)])) (keyspace (se_store s))\<rparr>\<rparr>)"
  using step_foreign [OF run_HSET [OF idle_foreign [OF assms(1)], where k = k and f = f and v = v]] assms by (cases s) simp

lemma step_MULTI:
  "\<not> cl_multi (se_client s) \<Longrightarrow> session_step worlds0 s (Send MULTI ok)
     (s\<lparr>se_client := (se_client s)\<lparr>cl_multi := True, cl_queue := [], cl_dirty := False\<rparr>\<rparr>)"
  by (rule step_send [OF dispatch_MULTI])

lemma step_EXEC:
  assumes "cl_multi (se_client s)" "cl_queue (se_client s) = []"
  shows "\<not> cl_dirty (se_client s) \<Longrightarrow> session_step worlds0 s (Send EXEC (Array (Some []))) (s\<lparr>se_client := end_txn (se_client s)\<rparr>)"
    and "cl_dirty (se_client s) \<Longrightarrow> session_step worlds0 s (Send EXEC (Array None)) (s\<lparr>se_client := end_txn (se_client s)\<rparr>)"
  using step_send [OF run_EXEC_empty [OF assms]] by simp_all

lemma step_wake:
  "se_tasks s = [0] \<Longrightarrow> sent (se_store s) = [0] \<Longrightarrow>
     session_step worlds0 s (Wake 0) (s\<lparr>se_client := (se_client s)\<lparr>cl_dirty := True\<rparr>, se_tasks := []\<rparr>)"
  using session_step.wake [of 0 s worlds0] by simp

lemma watched0_simps [simp]:
  "se_acl (watched0 k) = acl_new" "maxmemory (evict_config (se_store (watched0 k))) = 0" "kmap (se_store (watched0 k)) = Map.empty"
  "keyspace (se_store (watched0 k)) = []" "sent (se_store (watched0 k)) = []" "dict_get (watchers (se_store (watched0 k))) k = Some [0]"
  "se_tasks (watched0 k) = [0]" "\<not> cl_multi (se_client (watched0 k))" "cl_queue (se_client (watched0 k)) = []"
  by (simp_all add: watched0_def session_new_def store_new_def default_eviction_def store_watch_def client_new_def Let_def dict_simps)

lemma write0_simps [simp]:
  "se_client (write0 k v s) = se_client s" "se_tasks (write0 k v s) = se_tasks s"
  "dict_get (watchers (se_store s)) k = Some cs \<Longrightarrow> sent (se_store (write0 k v s)) = sent (se_store s) @ cs"
  by (simp_all add: write0_def bump_dirty_def notify_watchers_def)

text \<open>
  C38. Optimistic locking by WATCH misses changes. In a new server, a client that watches a key and then runs an
  empty transaction is told that it succeeded, though another client wrote the key in between: when the task reported the write
  before MULTI, which forgets it; and when EXEC comes before the task. A field written with HSET is never
  reported. And after UNWATCH a write of the key still aborts the next transaction.
\<close>

theorem watch_misses_changes:
  "(\<exists>s. session_run worlds0 session_new [Send [ascii ''WATCH'', k] ok, Foreign [ascii ''SET'', k, v] ok, Wake 0,
      Send MULTI ok, Send EXEC (Array (Some []))] s)
   \<and> (\<exists>s. session_run worlds0 session_new [Send [ascii ''WATCH'', k] ok, Send MULTI ok, Foreign [ascii ''SET'', k, v] ok,
      Send EXEC (Array (Some []))] s)
   \<and> (\<exists>s. session_run worlds0 session_new [Send [ascii ''WATCH'', k] ok, Foreign [ascii ''HSET'', k, f, v] (Integer 1)] s
      \<and> kmap (se_store s) k \<noteq> None \<and> sent (se_store s) = [])
   \<and> (\<exists>s. session_run worlds0 session_new [Send [ascii ''WATCH'', k] ok, Send [ascii ''UNWATCH''] ok, Send MULTI ok,
      Foreign [ascii ''SET'', k, v] ok, Wake 0, Send EXEC (Array None)] s)"
proof (intro conjI)
  let ?w = "watched0 k"
  let ?multi = "\<lambda>s :: nat session. s\<lparr>se_client := (se_client s)\<lparr>cl_multi := True, cl_queue := [], cl_dirty := False\<rparr>\<rparr>"
  let ?wake = "\<lambda>s :: nat session. s\<lparr>se_client := (se_client s)\<lparr>cl_dirty := True\<rparr>, se_tasks := []\<rparr>"
  let ?un = "?w\<lparr>se_client := (se_client ?w)\<lparr>cl_watched := [], cl_dirty := False\<rparr>\<rparr>"
  note chain = session_run.more [OF watch_new session_run.more]
  have set: "session_step worlds0 ?w (Foreign [ascii ''SET'', k, v] ok) (write0 k v ?w)" by (rule foreign_SET) simp_all
  have wake: "session_step worlds0 (write0 k v ?w) (Wake 0) (?wake (write0 k v ?w))" by (rule step_wake) simp_all
  have multi: "session_step worlds0 (?wake (write0 k v ?w)) (Send MULTI ok) (?multi (?wake (write0 k v ?w)))" by (rule step_MULTI) simp
  have exec: "session_step worlds0 (?multi (?wake (write0 k v ?w))) (Send EXEC (Array (Some [])))
      ((?multi (?wake (write0 k v ?w)))\<lparr>se_client := end_txn (se_client (?multi (?wake (write0 k v ?w))))\<rparr>)"
    by (rule step_EXEC(1)) simp_all
  show "\<exists>s. session_run worlds0 session_new [Send [ascii ''WATCH'', k] ok, Foreign [ascii ''SET'', k, v] ok, Wake 0,
      Send MULTI ok, Send EXEC (Array (Some []))] s"
    using chain [OF set session_run.more [OF wake session_run.more [OF multi session_run.more [OF exec session_run.stop]]]] by blast
  have multi2: "session_step worlds0 ?w (Send MULTI ok) (?multi ?w)" by (rule step_MULTI) simp
  have set2: "session_step worlds0 (?multi ?w) (Foreign [ascii ''SET'', k, v] ok) (write0 k v (?multi ?w))" by (rule foreign_SET) simp_all
  have exec2: "session_step worlds0 (write0 k v (?multi ?w)) (Send EXEC (Array (Some [])))
      ((write0 k v (?multi ?w))\<lparr>se_client := end_txn (se_client (write0 k v (?multi ?w)))\<rparr>)"
    by (rule step_EXEC(1)) simp_all
  show "\<exists>s. session_run worlds0 session_new [Send [ascii ''WATCH'', k] ok, Send MULTI ok, Foreign [ascii ''SET'', k, v] ok,
      Send EXEC (Array (Some []))] s"
    using chain [OF multi2 session_run.more [OF set2 session_run.more [OF exec2 session_run.stop]]] by blast
  have hset: "session_step worlds0 ?w (Foreign [ascii ''HSET'', k, f, v] (Integer 1))
      (?w\<lparr>se_store := (se_store ?w)\<lparr>keyspace := dict_put k (fresh_entry (DHash [(f, v)])) (keyspace (se_store ?w))\<rparr>\<rparr>)"
    by (rule foreign_HSET) simp_all
  show "\<exists>s. session_run worlds0 session_new [Send [ascii ''WATCH'', k] ok, Foreign [ascii ''HSET'', k, f, v] (Integer 1)] s
      \<and> kmap (se_store s) k \<noteq> None \<and> sent (se_store s) = []"
    by (rule exI, rule conjI, rule chain [OF hset session_run.stop]) simp
  have un: "session_step worlds0 ?w (Send [ascii ''UNWATCH''] ok) ?un" by (rule step_send [OF run_UNWATCH])
  have multi3: "session_step worlds0 ?un (Send MULTI ok) (?multi ?un)" by (rule step_MULTI) simp
  have set3: "session_step worlds0 (?multi ?un) (Foreign [ascii ''SET'', k, v] ok) (write0 k v (?multi ?un))" by (rule foreign_SET) simp_all
  have wake3: "session_step worlds0 (write0 k v (?multi ?un)) (Wake 0) (?wake (write0 k v (?multi ?un)))" by (rule step_wake) simp_all
  have exec3: "session_step worlds0 (?wake (write0 k v (?multi ?un))) (Send EXEC (Array None))
      ((?wake (write0 k v (?multi ?un)))\<lparr>se_client := end_txn (se_client (?wake (write0 k v (?multi ?un))))\<rparr>)"
    by (rule step_EXEC(2)) simp_all
  show "\<exists>s. session_run worlds0 session_new [Send [ascii ''WATCH'', k] ok, Send [ascii ''UNWATCH''] ok, Send MULTI ok,
      Foreign [ascii ''SET'', k, v] ok, Wake 0, Send EXEC (Array None)] s"
    using chain [OF un session_run.more [OF multi3 session_run.more [OF set3 session_run.more [OF wake3
        session_run.more [OF exec3 session_run.stop]]]]] by blast
qed

subsection \<open>Frames\<close>

definition frame :: "bytes list \<Rightarrow> RespValue" where
  "frame cmd = Array (Some (map bull cmd))"

lemma frame_items [simp]: "map (frame_item \<circ> bull) cmd = cmd"
  by (induction cmd) (simp_all add: bull_def)

lemma handle_frame_Ret:
  "dispatch_ctx n ws cmd s = Some (Ret (v, s')) \<Longrightarrow> (\<And>e. v \<noteq> Error e) \<Longrightarrow>
     handle_frame False n ws (frame cmd) s = Some (Ret (v, s', if is_write_command cmd then [cmd] else []))"
  by (cases v) (auto simp: handle_frame_def frame_def)

lemma ok_no_error: "ok \<noteq> Error e" "QUEUED \<noteq> Error e"
  by (simp_all add: ok_def)

text \<open>
  C39. The append-only file and the replicas do not get the writes that happen. A write command inside a transaction
  is handed to them when it is queued, so it reaches them even if the transaction is discarded and the store never has it. And
  MSET, which writes the store, is not handed to them.
\<close>

theorem logged_writes_differ:
  assumes "is_write_command cmd" "queueable cmd" "\<not> cl_multi (se_client s)" and "idle t"
  shows "(\<exists>s1 s2 s3. handle_frame False (Suc n) ws (frame MULTI) s = Some (Ret (ok, s1, [MULTI]))
      \<and> handle_frame False (Suc n) ws (frame cmd) s1 = Some (Ret (QUEUED, s2, [cmd]))
      \<and> handle_frame False (Suc n) ws (frame DISCARD) s2 = Some (Ret (ok, s3, [DISCARD])) \<and> se_store s3 = se_store s)
    \<and> (\<exists>t'. handle_frame False (Suc n) (\<lambda>_. world0) (frame [ascii ''MSET'', k, v]) t = Some (Ret (ok, t', []))
      \<and> kmap (se_store t') k = Some (fresh_entry (DString v)))"
proof (rule conjI)
  let ?s1 = "s\<lparr>se_client := (se_client s)\<lparr>cl_multi := True, cl_queue := [], cl_dirty := False\<rparr>\<rparr>"
  let ?s2 = "queue_in [cmd] ?s1"
  have w: "is_write_command MULTI" "is_write_command DISCARD" by (simp_all add: is_write_command_def name_simps)
  have "handle_frame False (Suc n) ws (frame MULTI) s = Some (Ret (ok, ?s1, [MULTI]))"
    using handle_frame_Ret [OF dispatch_MULTI [OF assms(3)] ok_no_error(1)] w by simp
  moreover have "handle_frame False (Suc n) ws (frame cmd) ?s1 = Some (Ret (QUEUED, ?s2, [cmd]))"
    using handle_frame_Ret [OF dispatch_queued [OF assms(2), of ?s1] ok_no_error(2)] assms(1) by simp
  moreover have "handle_frame False (Suc n) ws (frame DISCARD) ?s2 = Some (Ret (ok, ?s2\<lparr>se_client := end_txn (se_client ?s2)\<rparr>, [DISCARD]))"
    using handle_frame_Ret [OF dispatch_DISCARD [of ?s2] ok_no_error(1)] w by (simp add: queue_in_def)
  ultimately show "\<exists>s1 s2 s3. handle_frame False (Suc n) ws (frame MULTI) s = Some (Ret (ok, s1, [MULTI]))
      \<and> handle_frame False (Suc n) ws (frame cmd) s1 = Some (Ret (QUEUED, s2, [cmd]))
      \<and> handle_frame False (Suc n) ws (frame DISCARD) s2 = Some (Ret (ok, s3, [DISCARD])) \<and> se_store s3 = se_store s"
    by (intro exI conjI) (assumption+, simp add: queue_in_def)
  have "\<not> is_write_command [ascii ''MSET'', k, v]" by (simp add: is_write_command_def name_simps)
  then show "\<exists>t'. handle_frame False (Suc n) (\<lambda>_. world0) (frame [ascii ''MSET'', k, v]) t = Some (Ret (ok, t', []))
      \<and> kmap (se_store t') k = Some (fresh_entry (DString v))"
    using handle_frame_Ret [OF run_MSET [OF assms(4)] ok_no_error(1)]
    by (intro exI conjI) (simp, simp add: bump_dirty_def dict_simps)
qed

theorem logged_writes_differ_witness:
  "\<exists>t'. handle_frame False (Suc 0) (\<lambda>_. world0) (frame [ascii ''MSET'', [1], [2]]) session_new = Some (Ret (ok, t', []))
      \<and> kmap (se_store t') [1] = Some (fresh_entry (DString [2]))"
proof -
  have "is_write_command [ascii ''SET'', [1], [2]]" "queueable [ascii ''SET'', [1], [2]]"
    by (simp_all add: is_write_command_def name_simps)
  moreover have "\<not> cl_multi (se_client (session_new :: nat session))" "idle (session_new :: nat session)"
    by (simp_all add: session_new_def client_new_def idle_def)
  ultimately show ?thesis by (intro conjunct2 [OF logged_writes_differ])
qed

subsection \<open>Replication stream\<close>

lemma repl_args_encode: "repl_args cmd = concat (map (encode_value \<circ> bull) cmd)"
  by (induction cmd) (simp_all add: bull_def Resp.crlf_def)

text \<open>
  The bytes sent to the replicas for a command are the RESP encoding of the frame of this command. A
  decoder that reads them gets this frame and leaves what follows, and a connection takes the same command from it.
\<close>

theorem repl_command_roundtrip:
  assumes "wire_ok cap mcap (Suc MAX_DEPTH) (frame cmd)"
  shows "\<exists>dec' arr. decode cap mcap dec (encode_repl_command cmd @ rest) = Ret (dec', rest, Inr (Some (Array (Some arr))))
    \<and> map frame_item arr = cmd"
proof -
  have "encode_repl_command cmd = encode_value (frame cmd)"
    by (simp add: encode_repl_command_def frame_def repl_args_encode Resp.crlf_def)
  then show ?thesis using decode_encode [OF assms, of dec rest] by (auto simp: frame_def)
qed

theorem repl_command_roundtrip_witness:
  "\<exists>dec' arr. decode 10 10 decoder_new (encode_repl_command [ascii ''DEL'', [1, 13]] @ [7]) = Ret (dec', [7], Inr (Some (Array (Some arr))))
    \<and> map frame_item arr = [ascii ''DEL'', [1, 13]]"
proof -
  have "wire_ok 10 10 (Suc MAX_DEPTH) (frame [ascii ''DEL'', [1, 13]])"
    by (simp add: frame_def bull_def MAX_DEPTH_def numeral_eq_Suc i64_max_def)
  then show ?thesis by (rule repl_command_roundtrip)
qed

subsection \<open>MIGRATE\<close>

lemma migrate_options_error: "migrate_options args copy = Inl err \<Longrightarrow> \<exists>e. err = Error e"
  by (induction args copy rule: migrate_options.induct) (auto simp: Let_def split: if_splits list.splits)

text \<open>
  C40. MIGRATE answers always. When it answers \<^verbatim>\<open>OK\<close> the key was there, and unless COPY was given the
  store has it no more, though it was sent nowhere; all other keys stay. When it answers with an error no reader sees a change.
\<close>

theorem migrate_loses_key:
  "\<exists>v st'. migrate_handle env args st = Ret (v, st')
     \<and> (if v = ok then \<exists>copy. migrate_options (drop 5 args) False = Inr copy \<and> live (e_now env) (kmap st) (args ! 2) \<noteq> None
          \<and> kmap st' = (if copy then kmap st else (kmap st)(args ! 2 := None))
        else \<forall>k. live (e_now env) (kmap st') k = live (e_now env) (kmap st) k)"
proof -
  let ?key = "args ! 2" and ?now = "e_now env"
  obtain b st1 where ex: "store_exists ?now ?key st = (b, st1)" by fastforce
  have same: "live ?now (kmap st1) k = live ?now (kmap st) k" for k
    using ex by (auto simp: store_exists_def store_drop_def live_def dict_simps split: option.splits if_splits)
  have yes: "live ?now (kmap st) ?key \<noteq> None \<and> st1 = st" if b
    using ex that by (auto simp: store_exists_def live_def split: option.splits if_splits)
  have del: "kmap (snd (store_del ?key st)) = (kmap st)(?key := None)"
    by (auto simp: store_del_def store_drop_def bump_dirty_def dict_simps Let_def)
  have no: "Error e \<noteq> ok" for e by (simp add: ok_def)
  show ?thesis
  proof (cases "length args < 5 \<or> from_utf8 (args ! 0) = None \<or> parse_u16 (utf8_or_empty (args ! 1)) = None
      \<or> parse_unsigned (2 ^ 32 - 1) (utf8_or_empty (args ! 3)) = None \<or> parse_unsigned u64_max (utf8_or_empty (args ! 4)) = None")
    case True
    then have "\<exists>e. migrate_handle env args st = Ret (Error e, st)"
      unfolding migrate_handle_def by (auto simp del: ascii_Cons)
    then show ?thesis using no by (elim exE) simp
  next
    case False
    then have eq: "migrate_handle env args st = (case migrate_options (drop 5 args) False of
             Inl err \<Rightarrow> Ret (err, st)
           | Inr copy \<Rightarrow> if \<not> b then Ret (Error (ascii ''ERR no such key''), st1)
                else Ret (ok, if copy then st1 else snd (store_del ?key st1)))"
      unfolding migrate_handle_def ex by (simp only: Let_def prod.case de_Morgan_disj if_False not_False_eq_True simp_thms)
    show ?thesis
    proof (cases "migrate_options (drop 5 args) False")
      case (Inl err)
      then obtain e where "err = Error e" using migrate_options_error by blast
      then show ?thesis using Inl no by (simp add: eq)
    next
      case (Inr copy)
      then show ?thesis using no same yes del by (cases b) (simp_all add: eq)
    qed
  qed
qed

end
