(* ===== verification/Spec2Isabelle.thy ===== *)
theory Spec2Isabelle
  imports Resp Store Rust_Text Cluster_Commands String_Props Rdb Set_Props Hash_Props List_Props Keys_Props Transactions_Props
begin

text \<open>
  A verification development for valkey-rs, a server for the Valkey (Redis) protocol in Rust. All source paths below are under
  \<^verbatim>\<open>src/crates\<close>.

  \<^bold>\<open>The program.\<close> A connection (\<^verbatim>\<open>server\<close>) reads frames of the RESP protocol
  (\<^verbatim>\<open>proto\<close>), takes the arguments of a command from each and calls the dispatcher (\<^verbatim>\<open>commands/src/lib.rs\<close>). The
  dispatcher queues commands inside a transaction, checks permissions (\<^verbatim>\<open>acl.rs\<close>) and calls the handler of
  the command's module. Handlers work on the store (\<^verbatim>\<open>storage\<close>): a map from keys to entries with a value, a deadline and usage
  data, and a table of channels that are notified when a key changes. Values are strings, lists, hashes, sets, sorted
  sets and streams; short lists and sets of integers have packed encodings. Snapshots
  (\<^verbatim>\<open>persistence/src/rdb.rs\<close>) write the store to a file and read it back. In cluster mode
  (\<^verbatim>\<open>cluster\<close>) every key belongs to one of 16384 slots, and a router answers which node serves it.

  \<^bold>\<open>How code is modelled.\<close> Bytes are 8-bit words and strings lists of them. Integers that the code adds or casts are
  mathematical integers with the wrap-around of the release build written out (\<^verbatim>\<open>wrap_i64\<close>,
  \<^verbatim>\<open>wrap_u64\<close>); checksums are words. A hash map is an association list with distinct keys, whose order stands for
  the unspecified order of iteration. A function that can panic or block on a lock it holds returns an
  \<^verbatim>\<open>outcome\<close>: \<^verbatim>\<open>Ret\<close>, \<^verbatim>\<open>Panic\<close> or \<^verbatim>\<open>Deadlock\<close>.
  Clock, random numbers and third-party code are arguments. Each command on the store is one atomic step.

  \<^bold>\<open>Theories.\<close>
  \<^item> \<^verbatim>\<open>Prelude\<close>: outcomes, list and dictionary facts, and the contracts (locales) of dictionaries, sets, self-delimiting codecs
    and systems with an invariant, each interpreted on the model's own definitions.
  \<^item> \<^verbatim>\<open>Rust_Std\<close>, \<^verbatim>\<open>Rust_Text\<close>, \<^verbatim>\<open>Rust_Float\<close>: what the code uses of the standard library (decimal numbers, UTF-8 and
    lossy decoding, white space, \<^verbatim>\<open>f64\<close> as bit patterns with parsing, printing and addition).
  \<^item> \<^verbatim>\<open>IntSet\<close>, \<^verbatim>\<open>ListPack\<close>: the packed encodings (\<^verbatim>\<open>storage/src/intset.rs\<close>, \<^verbatim>\<open>listpack.rs\<close>). Any sequence of operations
    refines the same sequence on a set and on a list, and never reads outside the bytes.
  \<^item> \<^verbatim>\<open>Resp\<close>: encoder and incremental decoder of \<^verbatim>\<open>proto/src/lib.rs\<close>. Round trip of pipelined values, no answer on
    a strict prefix, soundness on arbitrary input.
  \<^item> \<^verbatim>\<open>Data_Types\<close>, \<^verbatim>\<open>Store\<close>: values and keyspace of \<^verbatim>\<open>storage/src/lib.rs\<close>. The index of a sorted set is consistent;
    lazy expiry is invisible to clients (a refinement); a watch fires exactly for its key; eviction takes the worst of its sample.
  \<^item> \<^verbatim>\<open>Cluster_Slots\<close>, \<^verbatim>\<open>Cluster_State\<close>, \<^verbatim>\<open>Cluster_Commands\<close>: slots, state, router, CLUSTER subcommands, gossip and \<^verbatim>\<open>nodes.conf\<close>
    (\<^verbatim>\<open>cluster\<close>), and the CLUSTER command without cluster mode (\<^verbatim>\<open>commands/src/cluster.rs\<close>). Both CRC
    implementations agree; every sequence of events keeps the state well formed; ownership governs routing.
  \<^item> \<^verbatim>\<open>Cmd_Base\<close>, \<^verbatim>\<open>Cmd_String\<close>, \<^verbatim>\<open>Cmd_Lcs\<close>, \<^verbatim>\<open>String_Props\<close>: \<^verbatim>\<open>commands/src/string.rs\<close>. Commands keep the store well formed
    and the type of values; INCRBY with wrap-around; SETRANGE and GETRANGE; LCS is a longest common subsequence.
  \<^item> \<^verbatim>\<open>Rdb\<close>: \<^verbatim>\<open>persistence/src/rdb.rs\<close>. Round trip of the client's view, and loading ends on every file.
  \<^item> \<^verbatim>\<open>Cmd_Set\<close>, \<^verbatim>\<open>Cmd_Hash\<close>, \<^verbatim>\<open>Cmd_List\<close>, \<^verbatim>\<open>Cmd_Keys\<close> with \<^verbatim>\<open>Set_Props\<close>, \<^verbatim>\<open>Hash_Props\<close>, \<^verbatim>\<open>List_Props\<close>,
    \<^verbatim>\<open>Keys_Props\<close>: the commands of \<^verbatim>\<open>set.rs\<close>, \<^verbatim>\<open>hash.rs\<close>, \<^verbatim>\<open>list.rs\<close> and \<^verbatim>\<open>keys.rs\<close>, what they answer and do on every
    encoding, the round trip of DUMP and RESTORE, the end of a SSCAN iteration, when a blocking pop returns, and
    the inputs that damage data.
  \<^item> \<^verbatim>\<open>Acl\<close>, \<^verbatim>\<open>Acl_Props\<close>: \<^verbatim>\<open>acl.rs\<close>. The pattern loop returns and is sound, and complete for keys without a star in
    their name; the permission check is exact; an invariant of users and log; rules that do not restrict.
  \<^item> \<^verbatim>\<open>Transactions\<close>, \<^verbatim>\<open>Transactions_Props\<close>: dispatcher, \<^verbatim>\<open>transaction.rs\<close>, \<^verbatim>\<open>migrate.rs\<close> and the loop of a connection. Here the
    components meet: a session is a labelled step relation of the client, other clients and waiting tasks.

  \<^bold>\<open>Bounds.\<close> Where recursion or a loop is not structural, it has a termination proof or its end is a theorem.
  The depth of nested RESP values is the constant of the code. Blocking commands and the pattern loop are partial functions, whose
  value \<^verbatim>\<open>None\<close> is not returning; for BLPOP it is shown exactly when that happens, for the pattern loop that it
  never does. The calls of the dispatcher by EXEC are bounded by an argument, and two levels are shown to be enough in every reachable
  session.

  \<^bold>\<open>Not modelled.\<close> The commands on sorted sets, streams, bitmaps, HyperLogLogs and geographic positions and the
  server commands: the dispatcher takes them as one function argument, and the invariant of sessions relies only on
  their leaving transaction state alone or ending the transaction. Sorted-set, geographic and HyperLogLog commands rest on floating-point
  arithmetic (products, trigonometry, logarithms) that \<^verbatim>\<open>Rust_Float\<close> does not have; the others are left out for their size.
  ACL GETUSER, CAT and HELP only read; they are an argument too. The digest of passwords is an argument, since the standard
  library leaves the algorithm of \<^verbatim>\<open>DefaultHasher\<close> open. Pub/sub, replication (but for the encoding of commands), the append-only
  file (but for which commands reach it), scripting, native modules, the sentinel, sockets, TLS and timers are input and output
  or calls of third-party code.
\<close>

end
